(* ===== verification/Prelude.thy ===== *)
theory Prelude
  imports Main "HOL-Library.Word"
begin

text \<open>
  Shared vocabulary of the development: the machine integers of the Rust sources as words,
  byte arrays as lists of bytes, the outcome of a fallible Rust function as a sum type, the
  checked and saturating integer operations of the standard library, the bit counting
  operations \<open>leading_zeros\<close> and \<open>trailing_zeros\<close>, and the generic lemmas on words and lists
  that the component theories use.
\<close>

unbundle bit_operations_syntax

named_theorems result_simps \<open>evaluation and inversion of fallible computations\<close>
named_theorems word_nat \<open>facts that move word operations to natural numbers\<close>

section \<open>Types\<close>

type_synonym u8 = "8 word"
type_synonym u16 = "16 word"
type_synonym u32 = "32 word"
type_synonym u64 = "64 word"
type_synonym bytes = "u8 list"

text \<open>
  A Merkle node is the Rust array \<open>[u8; 32]\<close>. The hash function \<open>keccak::hashv\<close> of the Solana SDK
  is a parameter of every definition that hashes: it takes the list of byte slices to hash.
\<close>

type_synonym node = bytes
type_synonym hashv = "bytes list \<Rightarrow> node"
type_synonym pubkey = bytes

section \<open>Fallible computations\<close>

text \<open>
  A Rust function returns a value, returns an error, or panics (a failed \<open>assert!\<close>, an index out
  of range, an arithmetic overflow under the \<open>overflow-checks\<close> of the programs' profiles).
  \<open>Diverge\<close> is a loop that did not finish within the bound the model gives it.
\<close>

datatype 'e failure = Err 'e | Panic | Diverge

type_synonym ('e, 'a) result = "'e failure + 'a"

definition and_then :: "'e + 'a \<Rightarrow> ('a \<Rightarrow> 'e + 'b) \<Rightarrow> 'e + 'b" where
  "and_then m f = (case m of Inl e \<Rightarrow> Inl e | Inr x \<Rightarrow> f x)"

definition ensure :: "bool \<Rightarrow> 'e \<Rightarrow> 'e + unit" where
  "ensure b e = (if b then Inr () else Inl e)"

definition map_failure :: "('e \<Rightarrow> 'f) \<Rightarrow> ('e, 'a) result \<Rightarrow> ('f, 'a) result" where
  "map_failure f r =
     (case r of Inr x \<Rightarrow> Inr x | Inl (Err e) \<Rightarrow> Inl (Err (f e)) | Inl Panic \<Rightarrow> Inl Panic
      | Inl Diverge \<Rightarrow> Inl Diverge)"

lemma and_then_simps [simp, result_simps]:
  "and_then (Inl e) f = Inl e"
  "and_then (Inr x) f = f x"
  by (simp_all add: and_then_def)

lemma and_then_eq_Inr [result_simps]:
  "and_then m f = Inr y \<longleftrightarrow> (\<exists>x. m = Inr x \<and> f x = Inr y)"
  by (cases m) auto

lemma and_then_eq_Inl:
  "and_then m f = Inl e \<longleftrightarrow> m = Inl e \<or> (\<exists>x. m = Inr x \<and> f x = Inl e)"
  by (cases m) auto

lemma and_then_assoc: "and_then (and_then m f) g = and_then m (\<lambda>x. and_then (f x) g)"
  by (cases m) auto

lemma and_then_cong [fundef_cong]:
  assumes "m = m'" and "\<And>x. m' = Inr x \<Longrightarrow> f x = f' x"
  shows "and_then m f = and_then m' f'"
  using assms by (cases m') auto

lemma ensure_simps [simp, result_simps]:
  "ensure True e = Inr ()"
  "ensure False e = Inl e"
  by (simp_all add: ensure_def)

lemma ensure_eq_Inr [result_simps]: "ensure b e = Inr u \<longleftrightarrow> b"
  by (simp add: ensure_def)

lemma ensure_eq_Inl [result_simps]: "ensure b e = Inl e' \<longleftrightarrow> \<not> b \<and> e' = e"
  by (auto simp: ensure_def)

lemma map_failure_simps [simp, result_simps]:
  "map_failure f (Inr x) = Inr x"
  "map_failure f (Inl (Err e)) = Inl (Err (f e))"
  "map_failure f (Inl Panic) = Inl Panic"
  "map_failure f (Inl Diverge) = Inl Diverge"
  by (simp_all add: map_failure_def)

lemma map_failure_eq_Inr [result_simps]: "map_failure f r = Inr x \<longleftrightarrow> r = Inr x"
  by (auto simp: map_failure_def split: sum.splits failure.splits)

section \<open>Integer operations of the standard library\<close>

definition checked_add :: "'a::len word \<Rightarrow> 'a word \<Rightarrow> 'a word option" where
  "checked_add a b = (if unat a + unat b < 2 ^ LENGTH('a) then Some (a + b) else None)"

definition checked_sub :: "'a::len word \<Rightarrow> 'a word \<Rightarrow> 'a word option" where
  "checked_sub a b = (if b \<le> a then Some (a - b) else None)"

definition checked_mul :: "'a::len word \<Rightarrow> 'a word \<Rightarrow> 'a word option" where
  "checked_mul a b = (if unat a * unat b < 2 ^ LENGTH('a) then Some (a * b) else None)"

definition checked_div :: "'a::len word \<Rightarrow> 'a word \<Rightarrow> 'a word option" where
  "checked_div a b = (if b \<noteq> 0 then Some (a div b) else None)"

definition saturating_add :: "'a::len word \<Rightarrow> 'a word \<Rightarrow> 'a word" where
  "saturating_add a b = (if unat a + unat b < 2 ^ LENGTH('a) then a + b else - 1)"

definition ok_or :: "'a option \<Rightarrow> 'e \<Rightarrow> 'e + 'a" where
  "ok_or x e = (case x of None \<Rightarrow> Inl e | Some y \<Rightarrow> Inr y)"

lemma ok_or_simps [simp, result_simps]:
  "ok_or None e = Inl e"
  "ok_or (Some x) e = Inr x"
  by (simp_all add: ok_or_def)

lemma ok_or_eq_Inr [result_simps]: "ok_or x e = Inr y \<longleftrightarrow> x = Some y"
  by (cases x) auto

text \<open>
  \<open>leading_zeros\<close> and \<open>trailing_zeros\<close> count the zero bits above the highest and below the lowest
  set bit; both are the width for the word 0.
\<close>

definition leading_zeros :: "'a::len word \<Rightarrow> nat" where
  "leading_zeros w = length (takeWhile (\<lambda>i. \<not> bit w i) (rev [0..<LENGTH('a)]))"

definition trailing_zeros :: "'a::len word \<Rightarrow> nat" where
  "trailing_zeros w = length (takeWhile (\<lambda>i. \<not> bit w i) [0..<LENGTH('a)])"

text \<open>Little-endian byte encodings (\<open>to_le_bytes\<close>).\<close>

definition le_bytes :: "nat \<Rightarrow> 'a::len word \<Rightarrow> bytes" where
  "le_bytes n w = map (\<lambda>i. ucast (drop_bit (8 * i) w)) [0..<n]"

definition from_le_bytes :: "bytes \<Rightarrow> nat" where
  "from_le_bytes bs = (\<Sum>i<length bs. unat (bs ! i) * 256 ^ i)"

section \<open>Words as natural numbers\<close>

lemma unat_bound: "unat w < 2 ^ LENGTH('a)"
  for w :: "'a::len word"
  by (rule unsigned_less)

lemma checked_add_iff:
  "checked_add a b = Some c \<longleftrightarrow> unat a + unat b < 2 ^ LENGTH('a) \<and> c = of_nat (unat a + unat b)"
  for a b :: "'a::len word"
  by (auto simp: checked_add_def)

lemma checked_sub_iff:
  "checked_sub a b = Some c \<longleftrightarrow> unat b \<le> unat a \<and> c = of_nat (unat a - unat b)"
  for a b :: "'a::len word"
  by (auto simp: checked_sub_def word_le_nat_alt of_nat_diff)

lemma checked_mul_iff:
  "checked_mul a b = Some c \<longleftrightarrow> unat a * unat b < 2 ^ LENGTH('a) \<and> c = of_nat (unat a * unat b)"
  for a b :: "'a::len word"
  by (auto simp: checked_mul_def)

lemma checked_add_Some:
  "checked_add a b = Some c \<Longrightarrow> unat c = unat a + unat b \<and> c = a + b"
  by (auto simp: checked_add_def unat_word_ariths split: if_splits)

lemma checked_sub_Some:
  "checked_sub a b = Some c \<Longrightarrow> unat c = unat a - unat b \<and> unat b \<le> unat a \<and> c = a - b"
  by (auto simp: checked_sub_def unat_sub word_le_nat_alt split: if_splits)

lemma checked_mul_Some:
  "checked_mul a b = Some c \<Longrightarrow> unat c = unat a * unat b \<and> c = a * b"
  by (auto simp: checked_mul_def unat_word_ariths split: if_splits)

lemma checked_div_Some:
  "checked_div a b = Some c \<Longrightarrow> unat c = unat a div unat b \<and> b \<noteq> 0 \<and> c = a div b"
  by (auto simp: checked_div_def unat_div split: if_splits)

lemma unat_saturating_add:
  "unat (saturating_add a b) = min (unat a + unat b) (2 ^ LENGTH('a) - 1)"
  for a b :: "'a::len word"
  by (auto simp: saturating_add_def unat_word_ariths unsigned_minus_1_eq_mask mask_eq_exp_minus_1)

lemma bit_unat: "bit (unat w) k = bit w k"
  for w :: "'a::len word"
  by transfer (auto simp: bit_take_bit_iff bit_nat_iff)

lemma bit_word_odd: "bit w k \<longleftrightarrow> odd (unat w div 2 ^ k)"
  for w :: "'a::len word"
  by (simp only: bit_unat [symmetric] bit_nat_def)

lemma shift_and_one [word_nat]: "drop_bit k w AND 1 = 0 \<longleftrightarrow> even (unat w div 2 ^ k)"
  for w :: "'a::len word"
proof -
  have "drop_bit k w AND 1 = 0 \<longleftrightarrow> \<not> bit w k"
    by (metis and_one_eq bit_iff_and_drop_bit_eq_1 not_mod2_eq_Suc_0_eq_0 one_neq_zero
        odd_iff_mod_2_eq_one parity_cases)
  also have "\<dots> \<longleftrightarrow> even (unat w div 2 ^ k)"
    by (simp add: bit_unat [symmetric] bit_nat_def)
  finally show ?thesis .
qed

lemma unat_and_mask [word_nat]:
  fixes w :: "'a::len word"
  assumes "m \<le> LENGTH('a)"
  shows "unat (w AND of_nat (2 ^ m - 1)) = unat w mod 2 ^ m"
proof -
  have "of_nat (2 ^ m - 1) = (mask m :: 'a word)"
    by (simp add: mask_eq_exp_minus_1 of_nat_diff)
  then have "w AND of_nat (2 ^ m - 1) = take_bit m w"
    by (simp add: take_bit_eq_mask)
  then have "unat (w AND of_nat (2 ^ m - 1)) = take_bit m (unat w)"
    by (simp only: unsigned_take_bit_eq)
  then show ?thesis
    by (simp only: take_bit_eq_mod)
qed

lemma unat_push_bit_one [word_nat]:
  assumes "m < LENGTH('a)"
  shows "unat (push_bit m 1 :: 'a::len word) = 2 ^ m"
proof -
  have "unat (push_bit m 1 :: 'a word) = take_bit LENGTH('a) (push_bit m (unat (1 :: 'a word)))"
    by (rule unsigned_push_bit_eq)
  also have "\<dots> = take_bit LENGTH('a) (2 ^ m)"
    by (simp add: push_bit_eq_mult)
  also have "\<dots> = 2 ^ m"
    by (rule take_bit_nat_eq_self) (simp add: assms)
  finally show ?thesis .
qed

lemma unat_drop_bit [word_nat]: "unat (drop_bit k w) = unat w div 2 ^ k"
  for w :: "'a::len word"
  by (simp only: unat_drop_bit_eq) (simp only: drop_bit_eq_div)

section \<open>Highest and lowest set bit\<close>

lemma length_takeWhile_rev_upt:
  assumes "h < n" and "P h" and "\<And>k. h < k \<Longrightarrow> k < n \<Longrightarrow> \<not> P k"
  shows "length (takeWhile (\<lambda>i. \<not> P i) (rev [0..<n])) = n - 1 - h"
  using assms
proof (induction n)
  case (Suc n)
  then show ?case
    by (cases "h = n") (auto simp: less_Suc_eq)
qed simp

lemma length_takeWhile_upt:
  assumes "t < n" and "P t" and "\<And>k. k < t \<Longrightarrow> \<not> P k"
  shows "length (takeWhile (\<lambda>i. \<not> P i) [0..<n]) = t"
proof -
  have "[0..<n] = [0..<t] @ t # [Suc t..<n]"
    using assms(1) upt_add_eq_append [of 0 t "n - t"] by (simp add: upt_conv_Cons)
  then show ?thesis
    using assms(2,3) by (simp add: takeWhile_append)
qed

lemma leading_zeros_eqI:
  fixes w :: "'a::len word"
  assumes "h < LENGTH('a)" and "bit w h" and "\<And>k. h < k \<Longrightarrow> \<not> bit w k"
  shows "leading_zeros w = LENGTH('a) - 1 - h"
  unfolding leading_zeros_def by (rule length_takeWhile_rev_upt) (use assms in auto)

lemma trailing_zeros_eqI:
  fixes w :: "'a::len word"
  assumes "bit w t" and "\<And>k. k < t \<Longrightarrow> \<not> bit w k"
  shows "trailing_zeros w = t"
proof -
  have "t < LENGTH('a)"
    using assms(1) by (rule bit_imp_le_length)
  then show ?thesis
    unfolding trailing_zeros_def by (rule length_takeWhile_upt) (use assms in auto)
qed

text \<open>
  Two different numbers agree above their highest differing bit \<open>h\<close>, and there one is the sibling
  of the other: this is the level at which the two paths to the root meet.
\<close>

definition sibling :: "nat \<Rightarrow> nat" where
  "sibling m = (if even m then m + 1 else m - 1)"

lemma sibling_eq_iff: "sibling a = b \<longleftrightarrow> a div 2 = b div 2 \<and> a \<noteq> b"
  unfolding sibling_def by (auto elim!: evenE oddE)

lemma sibling_div2 [simp]: "sibling m div 2 = m div 2"
  and sibling_neq [simp]: "sibling m \<noteq> m"
  using sibling_eq_iff [of m "sibling m"] by auto

lemma div_pow_Suc: "(j :: nat) div 2 ^ Suc k = j div 2 ^ k div 2"
  by (metis div_mult2_eq power_Suc2)

lemma div_pow_add: "(j :: nat) div 2 ^ (k + l) = j div 2 ^ k div 2 ^ l"
  by (metis div_mult2_eq power_add)

lemma meeting_level:
  fixes i j :: nat
  assumes "i \<noteq> j" and "i < 2 ^ d" and "j < 2 ^ d"
  obtains h where "h < d" and "sibling (i div 2 ^ h) = j div 2 ^ h"
    and "\<And>k. h < k \<Longrightarrow> i div 2 ^ k = j div 2 ^ k"
  using assms
proof (induction d arbitrary: i j thesis)
  case 0
  then show ?case by simp
next
  case (Suc d)
  show ?case
  proof (cases "i div 2 = j div 2")
    case True
    show ?thesis
    proof (rule Suc.prems(1) [of 0])
      fix k :: nat
      assume "0 < k"
      then obtain k' where "k = Suc k'" by (cases k) auto
      then show "i div 2 ^ k = j div 2 ^ k"
        using True by (simp add: div_mult2_eq)
    qed (use True Suc.prems(2) in \<open>auto simp: sibling_eq_iff\<close>)
  next
    case False
    have "i div 2 < 2 ^ d" "j div 2 < 2 ^ d"
      using Suc.prems(3,4) by auto
    then obtain h where h: "h < d" "sibling (i div 2 div 2 ^ h) = j div 2 div 2 ^ h"
      "\<And>k. h < k \<Longrightarrow> i div 2 div 2 ^ k = j div 2 div 2 ^ k"
      using Suc.IH [OF _ False] by metis
    show ?thesis
    proof (rule Suc.prems(1) [of "Suc h"])
      fix k :: nat
      assume "Suc h < k"
      then obtain k' where "k = Suc k'" "h < k'" by (cases k) auto
      then show "i div 2 ^ k = j div 2 ^ k"
        using h(3) [of k'] by (simp add: div_mult2_eq)
    qed (use h(1,2) in \<open>auto simp: div_mult2_eq\<close>)
  qed
qed

end
