(* ===== verification/Merkle_Tree.thy ===== *)
theory Merkle_Tree
  imports Prelude
begin

text \<open>
  The specification the concurrent Merkle tree is verified against: a complete binary hash tree of
  a given depth over an assignment of leaves to indices. \<open>node_at H k m L\<close> is the node at level \<open>k\<close>
  (leaves are level 0) and position \<open>m\<close>, \<open>tree_root\<close> the node at the top, \<open>proof_at\<close> the siblings
  along the way from a leaf to the root and \<open>path_at\<close> the nodes along that way. The lemmas say what
  a change of one leaf does to nodes, paths and proofs.
\<close>

type_synonym leaves = "nat \<Rightarrow> node"

fun node_at :: "hashv \<Rightarrow> nat \<Rightarrow> nat \<Rightarrow> leaves \<Rightarrow> node" where
  "node_at H 0 m L = L m"
| "node_at H (Suc k) m L = H [node_at H k (2 * m) L, node_at H k (2 * m + 1) L]"

definition tree_root :: "hashv \<Rightarrow> nat \<Rightarrow> leaves \<Rightarrow> node" where
  "tree_root H d L = node_at H d 0 L"

definition proof_at :: "hashv \<Rightarrow> nat \<Rightarrow> leaves \<Rightarrow> nat \<Rightarrow> node list" where
  "proof_at H d L i = map (\<lambda>k. node_at H k (sibling (i div 2 ^ k)) L) [0..<d]"

definition path_at :: "hashv \<Rightarrow> nat \<Rightarrow> leaves \<Rightarrow> nat \<Rightarrow> node list" where
  "path_at H d L i = map (\<lambda>k. node_at H k (i div 2 ^ k) L) [0..<d]"

lemma length_proof_at [simp]: "length (proof_at H d L i) = d"
  and length_path_at [simp]: "length (path_at H d L i) = d"
  by (simp_all add: proof_at_def path_at_def)

lemma nth_proof_at: "k < d \<Longrightarrow> proof_at H d L i ! k = node_at H k (sibling (i div 2 ^ k)) L"
  and nth_path_at: "k < d \<Longrightarrow> path_at H d L i ! k = node_at H k (i div 2 ^ k) L"
  by (simp_all add: proof_at_def path_at_def)

section \<open>A node depends on the leaves below it only\<close>

lemma node_at_cong:
  assumes "\<And>j. j div 2 ^ k = m \<Longrightarrow> L j = L' j"
  shows "node_at H k m L = node_at H k m L'"
  using assms
proof (induction k arbitrary: m)
  case (Suc k)
  have "node_at H k (2 * m) L = node_at H k (2 * m) L'"
    by (rule Suc.IH, rule Suc.prems) (simp add: div_pow_Suc del: power_Suc)
  moreover have "node_at H k (2 * m + 1) L = node_at H k (2 * m + 1) L'"
    by (rule Suc.IH, rule Suc.prems) (simp add: div_pow_Suc del: power_Suc)
  ultimately show ?case by simp
qed simp

lemma node_at_upd_other:
  "m \<noteq> j div 2 ^ k \<Longrightarrow> node_at H k m (L(j := x)) = node_at H k m L"
  by (rule node_at_cong) auto

text \<open>The leaf that changed is on the path; every other node keeps its value.\<close>

lemma proof_at_upd_same: "proof_at H d (L(i := x)) i = proof_at H d L i"
  by (simp add: proof_at_def node_at_upd_other)

lemma node_at_parent:
  "node_at H (Suc k) (i div 2 ^ Suc k) L =
     (if even (i div 2 ^ k)
      then H [node_at H k (i div 2 ^ k) L, node_at H k (sibling (i div 2 ^ k)) L]
      else H [node_at H k (sibling (i div 2 ^ k)) L, node_at H k (i div 2 ^ k) L])"
proof -
  define m where "m = i div 2 ^ k"
  have "i div 2 ^ Suc k = m div 2"
    by (simp only: m_def div_pow_Suc)
  then show ?thesis
    unfolding m_def [symmetric] by (cases "even m") (auto simp: sibling_def elim!: evenE oddE)
qed

section \<open>Empty subtrees\<close>

definition EMPTY :: node where
  "EMPTY = replicate 32 0"

abbreviation no_leaves :: leaves where
  "no_leaves \<equiv> \<lambda>_. EMPTY"

lemma node_at_no_leaves: "node_at H k m no_leaves = node_at H k 0 no_leaves"
proof (induction k arbitrary: m)
  case (Suc k)
  show ?case using Suc [of "2 * m"] Suc [of "2 * m + 1"] Suc [of 1] by simp
qed simp

lemma node_at_empty:
  assumes "\<And>j. j div 2 ^ k = m \<Longrightarrow> L j = EMPTY"
  shows "node_at H k m L = node_at H k 0 no_leaves"
proof -
  have "node_at H k m L = node_at H k m no_leaves"
    by (rule node_at_cong) (use assms in auto)
  then show ?thesis
    by (simp only: node_at_no_leaves [of H k m])
qed

end
