(* ===== verification/Leaf_Schema.thy ===== *)
theory Leaf_Schema
  imports Merkle_Tree
begin

text \<open>
  \<open>contracts/programs/bubblegum/src/state\<close>: the metadata of a compressed NFT, the leaf schema whose
  hash is stored in the tree, vouchers and events. Keys and hashes are byte lists. The binary
  encoding of \<open>MetadataArgs\<close> (derived by borsh) is a parameter \<open>ser\<close> where it is hashed, and the
  derivation of program addresses a parameter \<open>pda\<close>.
\<close>

section \<open>Metadata (metaplex_adapter.rs)\<close>

datatype TokenProgramVersion = Original | Token2022

record creator =
  cr_address :: pubkey
  cr_verified :: bool
  cr_share :: u8

datatype TokenStandard = NonFungible | FungibleAsset | Fungible | NonFungibleEdition

datatype UseMethod = UseBurn | Multiple | Single

record uses =
  us_use_method :: UseMethod
  us_remaining :: u64
  us_total :: u64

record collection =
  co_verified :: bool
  co_key :: pubkey

record metadata_args =
  ma_name :: string
  ma_symbol :: string
  ma_uri :: string
  ma_seller_fee_basis_points :: u16
  ma_primary_sale_happened :: bool
  ma_is_mutable :: bool
  ma_edition_nonce :: "u8 option"
  ma_token_standard :: "TokenStandard option"
  ma_collection :: "collection option"
  ma_uses :: "uses option"
  ma_token_program_version :: TokenProgramVersion
  ma_creators :: "creator list"

section \<open>Leaves (leaf_schema.rs)\<close>

datatype Version = V1

definition version_to_bytes :: "Version \<Rightarrow> u8" where
  "version_to_bytes v = (case v of V1 \<Rightarrow> 1)"

datatype leaf_schema =
  LeafV1 (ls_id: pubkey) (ls_owner: pubkey) (ls_delegate: pubkey) (ls_nonce: u64)
    (ls_data_hash: node) (ls_creator_hash: node)

definition leaf_new_v0 :: "pubkey \<Rightarrow> pubkey \<Rightarrow> pubkey \<Rightarrow> u64 \<Rightarrow> node \<Rightarrow> node \<Rightarrow> leaf_schema" where
  "leaf_new_v0 asset_id owner delegate nonce data_hash creator_hash =
     LeafV1 asset_id owner delegate nonce data_hash creator_hash"

definition leaf_version :: "leaf_schema \<Rightarrow> Version" where
  "leaf_version s = (case s of LeafV1 _ _ _ _ _ _ \<Rightarrow> V1)"

definition leaf_to_node :: "hashv \<Rightarrow> leaf_schema \<Rightarrow> node" where
  "leaf_to_node H s = (case s of LeafV1 asset_id owner delegate nonce data_hash creator_hash \<Rightarrow>
     H [[version_to_bytes (leaf_version s)], asset_id, owner, delegate, le_bytes 8 nonce, data_hash,
        creator_hash])"

record leaf_schema_event =
  le_version :: Version
  le_schema :: leaf_schema
  le_leaf_hash :: node

definition leaf_to_event :: "hashv \<Rightarrow> leaf_schema \<Rightarrow> leaf_schema_event" where
  "leaf_to_event H s =
     \<lparr>le_version = leaf_version s, le_schema = s, le_leaf_hash = leaf_to_node H s\<rparr>"

lemma leaf_new_v0_fields [simp]:
  "ls_id (leaf_new_v0 i ow de n dh ch) = i" "ls_owner (leaf_new_v0 i ow de n dh ch) = ow"
  "ls_delegate (leaf_new_v0 i ow de n dh ch) = de" "ls_nonce (leaf_new_v0 i ow de n dh ch) = n"
  "ls_data_hash (leaf_new_v0 i ow de n dh ch) = dh" "ls_creator_hash (leaf_new_v0 i ow de n dh ch) = ch"
  by (simp_all add: leaf_new_v0_def)

section \<open>Accounts and events (mod.rs)\<close>

record voucher =
  vo_leaf_schema :: leaf_schema
  vo_index :: u32
  vo_merkle_slab :: pubkey

definition voucher_new :: "leaf_schema \<Rightarrow> u32 \<Rightarrow> pubkey \<Rightarrow> voucher" where
  "voucher_new schema index merkle_slab =
     \<lparr>vo_leaf_schema = schema, vo_index = index, vo_merkle_slab = merkle_slab\<rparr>"

text \<open>The byte strings "voucher" and "asset".\<close>

definition VOUCHER_PREFIX :: bytes where
  "VOUCHER_PREFIX = [118, 111, 117, 99, 104, 101, 114]"

definition ASSET_PREFIX :: bytes where
  "ASSET_PREFIX = [97, 115, 115, 101, 116]"

record new_nft_event =
  nn_version :: Version
  nn_metadata :: metadata_args
  nn_nonce :: u64

record nft_decompression_event =
  nd_version :: Version
  nd_id :: pubkey
  nd_tree_id :: pubkey
  nd_nonce :: u64

end
