(* ===== verification/Gumball_State.thy ===== *)
theory Gumball_State
  imports Leaf_Schema
begin

text \<open>
  \<open>contracts/programs/gumball-machine/src/state/mod.rs\<close> and \<open>utils.rs\<close>: the header of a gumball
  machine account, the bytes behind it (the array of item indices, then the config lines) and the
  metadata of a dispensed item. A Rust string is the list of its UTF-8 bytes as characters. Base 58
  encoding is a third party crate and a parameter.
\<close>

section \<open>Slices and strings of the standard library\<close>

text \<open>\<open>split_at_mut\<close>, \<open>swap\<close> and a range index panic out of range; \<open>usize\<close> products are checked.\<close>

definition split_at :: "'a list \<Rightarrow> nat \<Rightarrow> ('e, 'a list \<times> 'a list) result" where
  "split_at xs mid = (if mid \<le> length xs then Inr (take mid xs, drop mid xs) else Inl Panic)"

definition swap :: "'a list \<Rightarrow> nat \<Rightarrow> nat \<Rightarrow> ('e, 'a list) result" where
  "swap xs a b =
     (if a < length xs \<and> b < length xs then Inr (xs[a := xs ! b, b := xs ! a]) else Inl Panic)"

definition slice_range :: "'a list \<Rightarrow> nat \<Rightarrow> nat \<Rightarrow> ('e, 'a list) result" where
  "slice_range xs a b = (if a \<le> b \<and> b \<le> length xs then Inr (take (b - a) (drop a xs)) else Inl Panic)"

definition usize_mul :: "nat \<Rightarrow> nat \<Rightarrow> ('e, nat) result" where
  "usize_mul a b = (if a * b < 2 ^ 64 then Inr (a * b) else Inl Panic)"

definition usize_add :: "nat \<Rightarrow> nat \<Rightarrow> ('e, nat) result" where
  "usize_add a b = (if a + b < 2 ^ 64 then Inr (a + b) else Inl Panic)"

text \<open>
  \<open>cast_slice_mut::<u8, u32>\<close>: the indices are stored little-endian. \<open>uncast_u32\<close> gives the bytes the
  view is backed by.
\<close>

fun cast_u32 :: "bytes \<Rightarrow> u32 list" where
  "cast_u32 (a # b # c # d # bs) = of_nat (from_le_bytes [a, b, c, d]) # cast_u32 bs"
| "cast_u32 _ = []"

definition uncast_u32 :: "u32 list \<Rightarrow> bytes" where
  "uncast_u32 xs = concat (map (le_bytes 4) xs)"

text \<open>\<open>str::from_utf8\<close>: well-formed UTF-8 (no overlong forms, no surrogates, at most U+10FFFF).\<close>

definition utf8_cont :: "u8 \<Rightarrow> bool" where
  "utf8_cont b \<longleftrightarrow> 0x80 \<le> b \<and> b \<le> 0xBF"

definition utf8_second3 :: "u8 \<Rightarrow> u8 \<Rightarrow> bool" where
  "utf8_second3 a b \<longleftrightarrow>
     a = 0xE0 \<and> 0xA0 \<le> b \<and> b \<le> 0xBF \<or> 0xE1 \<le> a \<and> a \<le> 0xEC \<and> utf8_cont b \<or>
     a = 0xED \<and> 0x80 \<le> b \<and> b \<le> 0x9F \<or> 0xEE \<le> a \<and> a \<le> 0xEF \<and> utf8_cont b"

definition utf8_second4 :: "u8 \<Rightarrow> u8 \<Rightarrow> bool" where
  "utf8_second4 a b \<longleftrightarrow>
     a = 0xF0 \<and> 0x90 \<le> b \<and> b \<le> 0xBF \<or> 0xF1 \<le> a \<and> a \<le> 0xF3 \<and> utf8_cont b \<or>
     a = 0xF4 \<and> 0x80 \<le> b \<and> b \<le> 0x8F"

fun valid_utf8 :: "bytes \<Rightarrow> bool" where
  "valid_utf8 [] = True"
| "valid_utf8 (a # bs) =
    (if a < 0x80 then valid_utf8 bs
     else if 0xC2 \<le> a \<and> a \<le> 0xDF then
       (case bs of b # bs' \<Rightarrow> utf8_cont b \<and> valid_utf8 bs' | _ \<Rightarrow> False)
     else if 0xE0 \<le> a \<and> a \<le> 0xEF then
       (case bs of b # c # bs' \<Rightarrow> utf8_second3 a b \<and> utf8_cont c \<and> valid_utf8 bs' | _ \<Rightarrow> False)
     else if 0xF0 \<le> a \<and> a \<le> 0xF4 then
       (case bs of b # c # d # bs' \<Rightarrow>
          utf8_second4 a b \<and> utf8_cont c \<and> utf8_cont d \<and> valid_utf8 bs' | _ \<Rightarrow> False)
     else False)"

definition from_utf8_unwrap :: "bytes \<Rightarrow> ('e, string) result" where
  "from_utf8_unwrap bs =
     (if valid_utf8 bs then Inr (map (\<lambda>b. char_of (unat b)) bs) else Inl Panic)"

definition trim_matches :: "char \<Rightarrow> string \<Rightarrow> string" where
  "trim_matches c s = rev (dropWhile (\<lambda>x. x = c) (rev (dropWhile (\<lambda>x. x = c) s)))"

fun nat_to_string :: "nat \<Rightarrow> string" where
  "nat_to_string n =
     (if n < 10 then [char_of (48 + n)] else nat_to_string (n div 10) @ [char_of (48 + n mod 10)])"

declare nat_to_string.simps [simp del]

section \<open>State\<close>

datatype EncodeMethod = UTF8 | Base58Encode

definition encode_method_from :: "u8 \<Rightarrow> ('e, EncodeMethod) result" where
  "encode_method_from v = (if v = 0 then Inr UTF8 else if v = 1 then Inr Base58Encode else Inl Panic)"

definition encode_method_to_u8 :: "EncodeMethod \<Rightarrow> u8" where
  "encode_method_to_u8 m = (case m of UTF8 \<Rightarrow> 0 | Base58Encode \<Rightarrow> 1)"

definition NUM_CREATORS :: nat where
  "NUM_CREATORS = 5"

record gumball_creator_adapter =
  gc_address :: pubkey
  gc_verified :: u8
  gc_share :: u8

text \<open>The default key is all zero; it is also the address of the system program.\<close>

definition default_pubkey :: pubkey where
  "default_pubkey = replicate 32 0"

definition gumball_creator_default :: gumball_creator_adapter where
  "gumball_creator_default = \<lparr>gc_address = default_pubkey, gc_verified = 0, gc_share = 0\<rparr>"

definition gumball_creator_adapt :: "gumball_creator_adapter \<Rightarrow> creator" where
  "gumball_creator_adapt c =
     \<lparr>cr_address = gc_address c, cr_verified = (gc_verified c = 1), cr_share = gc_share c\<rparr>"

definition gumball_creator_is_valid :: "gumball_creator_adapter \<Rightarrow> bool" where
  "gumball_creator_is_valid c \<longleftrightarrow> gc_address c \<noteq> default_pubkey \<and> 0 < gc_share c"

text \<open>\<open>go_live_date\<close> is an \<open>i64\<close>: it is compared through \<open>sint\<close>. The padding is left out.\<close>

record gumball_machine_header =
  gh_url_base :: bytes
  gh_name_base :: bytes
  gh_symbol :: bytes
  gh_seller_fee_basis_points :: u16
  gh_is_mutable :: u8
  gh_retain_authority :: u8
  gh_config_line_encode_method :: u8
  gh_creators :: "gumball_creator_adapter list"
  gh_price :: u64
  gh_go_live_date :: u64
  gh_mint :: pubkey
  gh_bot_wallet :: pubkey
  gh_receiver :: pubkey
  gh_authority :: pubkey
  gh_collection_key :: pubkey
  gh_extension_len :: u64
  gh_max_mint_size :: u32
  gh_remaining :: u32
  gh_max_items :: u32
  gh_total_items_added :: u32
  gh_smallest_uninitialized_index :: u32

text \<open>The data of a gumball machine account: every header-sized byte string is a header (POD).\<close>

record gumball_account =
  gm_header :: gumball_machine_header
  gm_config_data :: bytes

section \<open>Metadata of an item (utils.rs)\<close>

definition get_metadata_args ::
  "(bytes \<Rightarrow> string) \<Rightarrow> bytes \<Rightarrow> bytes \<Rightarrow> bytes \<Rightarrow> u16 \<Rightarrow> bool \<Rightarrow> pubkey \<Rightarrow> uses option \<Rightarrow>
   gumball_creator_adapter list \<Rightarrow> nat \<Rightarrow> bytes \<Rightarrow> EncodeMethod \<Rightarrow> ('e, metadata_args) result" where
  "get_metadata_args bs58_encode url_base name_base symbol seller_fee_basis_points is_mutable
     collection uses creators index config_line encode_method =
     (let zero = char_of (0 :: nat)
      in and_then (from_utf8_unwrap name_base) (\<lambda>name.
         and_then (from_utf8_unwrap symbol) (\<lambda>sym.
         and_then (from_utf8_unwrap url_base) (\<lambda>url.
         and_then (case encode_method of
             Base58Encode \<Rightarrow> Inr (bs58_encode config_line)
           | UTF8 \<Rightarrow> from_utf8_unwrap config_line) (\<lambda>config.
         Inr \<lparr>ma_name = trim_matches zero name @ '' #'' @ nat_to_string index,
              ma_symbol = trim_matches zero sym,
              ma_uri = trim_matches zero url @ ''/'' @ config,
              ma_seller_fee_basis_points = seller_fee_basis_points,
              ma_primary_sale_happened = True,
              ma_is_mutable = is_mutable,
              ma_edition_nonce = None,
              ma_token_standard = None,
              ma_collection = (if collection = default_pubkey then None
                else Some \<lparr>co_verified = True, co_key = collection\<rparr>),
              ma_uses = uses,
              ma_token_program_version = Token2022,
              ma_creators = map gumball_creator_adapt (filter gumball_creator_is_valid creators)\<rparr>)))))"

section \<open>The index array as bytes\<close>

lemma sum_base256: "(\<Sum>i<n. x div 256 ^ i mod 256 * 256 ^ i) = x mod (256 :: nat) ^ n"
proof (induction n)
  case (Suc n)
  then show ?case
    using mod_mult2_eq [of x "256 ^ n" 256] by (simp add: algebra_simps)
qed simp

lemma unat_byte: "unat (ucast (drop_bit (8 * i) w) :: u8) = unat w div 256 ^ i mod 256"
  for w :: "'a::len word"
proof -
  have "unat (ucast (drop_bit (8 * i) w) :: u8) = unat (drop_bit (8 * i) w) mod 256"
    by (simp add: unsigned_ucast_eq take_bit_eq_mod)
  then show ?thesis
    by (simp add: unat_drop_bit power_mult)
qed

lemma from_le_bytes_le_bytes: "from_le_bytes (le_bytes n w) = unat w mod 256 ^ n"
  for w :: "'a::len word"
  by (simp add: from_le_bytes_def le_bytes_def unat_byte sum_base256)

lemma length_le_bytes [simp]: "length (le_bytes n w) = n"
  by (simp add: le_bytes_def)

lemma from_le_bytes_Cons:
  "from_le_bytes [] = 0" "from_le_bytes (a # bs) = unat a + 256 * from_le_bytes bs"
  by (simp_all add: from_le_bytes_def sum.lessThan_Suc_shift sum_distrib_left mult_ac
      del: sum.lessThan_Suc)

lemma from_le_bytes_bound: "from_le_bytes bs < 256 ^ length bs"
proof (induction bs)
  case (Cons a bs)
  then show ?case
    using unat_bound [of a] by (simp add: from_le_bytes_Cons)
qed (simp add: from_le_bytes_Cons)

lemma from_le_bytes_nth:
  assumes "i < length bs"
  shows "from_le_bytes bs div 256 ^ i mod 256 = unat (bs ! i)"
  using assms
proof (induction bs arbitrary: i)
  case (Cons a bs)
  have "unat a < 256"
    using unat_bound [of a] by simp
  then show ?case
    using Cons by (cases i) (simp_all add: from_le_bytes_Cons div_mult2_eq)
qed simp

text \<open>The little-endian bytes of a one-byte number.\<close>

lemma le_bytes_small:
  assumes "x < 256"
  shows "le_bytes 8 (of_nat x :: u64) = of_nat x # replicate 7 0"
proof (rule nth_equalityI)
  fix j assume "j < length (le_bytes 8 (of_nat x :: u64))"
  then have j: "j < 8" by simp
  have u: "unat (of_nat x :: u64) = x"
    using assms by (simp add: unat_of_nat)
  have "unat (le_bytes 8 (of_nat x :: u64) ! j) = x div 256 ^ j mod 256"
    using j unat_byte [of j "of_nat x :: u64"] u by (simp add: le_bytes_def)
  also have "\<dots> = unat ((of_nat x # replicate 7 0 :: bytes) ! j)"
  proof (cases j)
    case 0
    then show ?thesis using assms by (simp add: unat_of_nat)
  next
    case (Suc j')
    have "(256 :: nat) ^ 1 \<le> 256 ^ j"
      by (rule power_increasing) (use Suc in auto)
    then have "x < 256 ^ j"
      using assms by simp
    then show ?thesis using j Suc by simp
  qed
  finally show "le_bytes 8 (of_nat x :: u64) ! j = (of_nat x # replicate 7 0) ! j"
    by (simp add: word_unat_eq_iff)
qed simp

lemma cast_u32_word: "length bs = 4 \<Longrightarrow> cast_u32 (bs @ r) = of_nat (from_le_bytes bs) # cast_u32 r"
  by (auto simp: length_Suc_conv numeral_eq_Suc)

lemma cast_uncast [simp]: "cast_u32 (uncast_u32 xs) = xs"
proof (induction xs)
  case (Cons x xs)
  have "unat x mod 256 ^ 4 = unat x"
    using unat_bound [of x] by simp
  then show ?case
    using Cons cast_u32_word [of "le_bytes 4 x" "uncast_u32 xs"]
    by (simp add: uncast_u32_def from_le_bytes_le_bytes)
qed (simp add: uncast_u32_def)

lemma length_uncast_u32 [simp]: "length (uncast_u32 xs) = 4 * length xs"
  by (induction xs) (simp_all add: uncast_u32_def)

lemma length_cast_u32: "length (cast_u32 bs) = length bs div 4"
  by (induction bs rule: cast_u32.induct) auto

lemma uncast_cast:
  assumes "length bs = 4 * n"
  shows "uncast_u32 (cast_u32 bs) = bs"
  using assms
proof (induction bs arbitrary: n rule: cast_u32.induct)
  case (1 a b c d bs)
  have "le_bytes 4 (of_nat (from_le_bytes [a, b, c, d]) :: u32) = [a, b, c, d]"
  proof (rule nth_equalityI)
    fix i assume "i < length (le_bytes 4 (of_nat (from_le_bytes [a, b, c, d]) :: u32))"
    then have i: "i < 4" by simp
    let ?n = "from_le_bytes [a, b, c, d]"
    have "?n < 2 ^ 32"
      using from_le_bytes_bound [of "[a, b, c, d]"] by simp
    then have u: "unat (of_nat ?n :: u32) = ?n"
      by (simp add: unat_of_nat)
    have "unat (ucast (drop_bit (8 * i) (of_nat ?n :: u32)) :: u8) = ?n div 256 ^ i mod 256"
      by (simp only: unat_byte u)
    also have "\<dots> = unat ([a, b, c, d] ! i)"
      by (rule from_le_bytes_nth) (use i in simp)
    finally show "le_bytes 4 (of_nat ?n :: u32) ! i = [a, b, c, d] ! i"
      using i by (simp add: le_bytes_def word_unat_eq_iff)
  qed simp
  moreover obtain m where "n = Suc m" "length bs = 4 * m"
    using 1 by (cases n) auto
  ultimately show ?case
    using 1 by (simp add: uncast_u32_def)
qed (simp_all add: uncast_u32_def, presburger+)

lemma slice_simps [result_simps]:
  "split_at xs m = Inr p \<longleftrightarrow> m \<le> length xs \<and> p = (take m xs, drop m xs)"
  "swap xs a b = Inr ys \<longleftrightarrow> a < length xs \<and> b < length xs \<and> ys = xs[a := xs ! b, b := xs ! a]"
  "slice_range xs a b = Inr ys \<longleftrightarrow> a \<le> b \<and> b \<le> length xs \<and> ys = take (b - a) (drop a xs)"
  "usize_mul k l = Inr n \<longleftrightarrow> k * l < 2 ^ 64 \<and> n = k * l"
  "usize_add k l = Inr n \<longleftrightarrow> k + l < 2 ^ 64 \<and> n = k + l"
  by (auto simp: split_at_def swap_def slice_range_def usize_mul_def usize_add_def)

section \<open>Decimal numerals\<close>

lemma nat_to_string_nonempty [simp]: "nat_to_string n \<noteq> []" "[] \<noteq> nat_to_string n"
  by (subst nat_to_string.simps, simp)+

lemma digit_inj:
  assumes "a < 10" and "b < 10" and "(char_of (48 + a) :: char) = char_of (48 + b)"
  shows "a = (b :: nat)"
proof -
  have "(of_char (char_of (48 + a)) :: nat) = of_char (char_of (48 + b))"
    by (simp only: assms(3))
  then have "(48 + a) mod 256 = (48 + b) mod 256"
    by (simp only: of_char_of)
  then show ?thesis
    using assms(1,2) by simp
qed

lemma nat_to_string_inj: "nat_to_string m = nat_to_string n \<Longrightarrow> m = n"
proof (induction m arbitrary: n rule: nat_to_string.induct)
  case (1 m)
  show ?case
  proof (cases "m < 10 \<or> n < 10")
    case True
    have "m < 10 \<and> n < 10"
      using True 1(2) by (subst (asm) (1 2) nat_to_string.simps) (auto split: if_splits)
    then show ?thesis
      using 1(2) digit_inj by (subst (asm) (1 2) nat_to_string.simps) auto
  next
    case False
    then have "nat_to_string (m div 10) = nat_to_string (n div 10)"
      "(char_of (48 + m mod 10) :: char) = char_of (48 + n mod 10)"
      using 1(2) nat_to_string.simps [of m] nat_to_string.simps [of n] by auto
    then have "m div 10 = n div 10" "m mod 10 = n mod 10"
      using 1(1) False digit_inj [of "m mod 10" "n mod 10"] by auto
    then show ?thesis
      by (metis div_mult_mod_eq)
  qed
qed

end
