(* ===== verification/Cmt_Utils.thy ===== *)
theory Cmt_Utils
  imports Merkle_Tree
begin

text \<open>
  \<open>lib/concurrent-merkle-tree/src/utils.rs\<close>: hashes of empty subtrees, recomputation of a root from
  a leaf and its proof, and completion of a short proof with empty nodes. The lemmas relate them to
  the hash tree of \<open>Merkle_Tree\<close>: the proof of a leaf recomputes the root, and whatever else
  recomputes the root exhibits two different inputs with the same hash.
\<close>

section \<open>Definitions\<close>

text \<open>
  \<open>empty_node_cached\<close> reads the cache it is given but never writes to it. Levels are \<open>u32\<close> values
  below 32 and array positions, modelled as \<open>nat\<close>.
\<close>

function empty_node :: "hashv \<Rightarrow> nat \<Rightarrow> node"
  and empty_node_cached :: "hashv \<Rightarrow> nat \<Rightarrow> node list \<Rightarrow> node" where
  "empty_node H level = empty_node_cached H level []"
| "empty_node_cached H level cache =
     (if level \<noteq> 0 then
        let target = level - 1;
            lower_empty =
              (if target < length cache \<and> cache ! target \<noteq> EMPTY then cache ! target
               else empty_node H target)
        in H [lower_empty, lower_empty]
      else EMPTY)"
  by pat_completeness auto
termination
  by (relation "measure (\<lambda>x. case x of Inl (H, l) \<Rightarrow> 2 * l + 1 | Inr (H, l, c) \<Rightarrow> 2 * l)") auto

declare empty_node.simps [simp del] empty_node_cached.simps [simp del]

definition hash_to_parent :: "hashv \<Rightarrow> node \<Rightarrow> node \<Rightarrow> bool \<Rightarrow> node" where
  "hash_to_parent H node sibl is_left = (if is_left then H [node, sibl] else H [sibl, node])"

text \<open>The loop of \<open>recompute\<close>, from \<open>depth\<close> on.\<close>

fun recompute_from :: "hashv \<Rightarrow> u32 \<Rightarrow> nat \<Rightarrow> node \<Rightarrow> node list \<Rightarrow> node" where
  "recompute_from H index depth current_node [] = current_node"
| "recompute_from H index depth current_node (sibl # rest) =
     recompute_from H index (Suc depth)
       (hash_to_parent H current_node sibl (drop_bit depth index AND 1 = 0)) rest"

definition recompute :: "hashv \<Rightarrow> node \<Rightarrow> node list \<Rightarrow> u32 \<Rightarrow> node" where
  "recompute H leaf proof index = recompute_from H index 0 leaf proof"

definition fill_in_proof :: "hashv \<Rightarrow> nat \<Rightarrow> node list \<Rightarrow> ('e, node list) result" where
  "fill_in_proof H max_depth proof_vec =
     (if length proof_vec \<le> max_depth
      then Inr (proof_vec @ map (empty_node H) [length proof_vec..<max_depth])
      else Inl Panic)"

section \<open>Empty nodes\<close>

lemma empty_node_eq: "empty_node H k = node_at H k m no_leaves"
proof (induction k arbitrary: m)
  case 0
  then show ?case by (simp add: empty_node.simps empty_node_cached.simps)
next
  case (Suc k)
  show ?case
    using Suc [of "2 * m"] Suc [of "2 * m + 1"]
    by (simp add: empty_node.simps [of H "Suc k"] empty_node_cached.simps Let_def)
qed

definition cache_ok :: "hashv \<Rightarrow> node list \<Rightarrow> bool" where
  "cache_ok H cache \<longleftrightarrow> (\<forall>k<length cache. cache ! k = EMPTY \<or> cache ! k = empty_node H k)"

lemma cache_ok_replicate [simp]: "cache_ok H (replicate n EMPTY)"
  by (simp add: cache_ok_def)

lemma empty_node_cached_eq: "cache_ok H cache \<Longrightarrow> empty_node_cached H k cache = empty_node H k"
  unfolding empty_node.simps [of H k] empty_node_cached.simps [of H k cache]
    empty_node_cached.simps [of H k "[]"]
  by (auto simp: cache_ok_def Let_def)

section \<open>Recomputation\<close>

lemma hash_to_parent_node_at:
  "hash_to_parent H (node_at H k (unat index div 2 ^ k) L)
     (node_at H k (sibling (unat index div 2 ^ k)) L) (drop_bit k index AND 1 = 0) =
   node_at H (Suc k) (unat index div 2 ^ Suc k) L"
  unfolding node_at_parent by (simp add: hash_to_parent_def shift_and_one)

lemma recompute_from_node_at:
  "recompute_from H index d (node_at H d (unat index div 2 ^ d) L)
     (map (\<lambda>k. node_at H k (sibling (unat index div 2 ^ k)) L) [d..<d + n]) =
   node_at H (d + n) (unat index div 2 ^ (d + n)) L"
proof (induction n arbitrary: d)
  case (Suc n)
  show ?case
    using Suc [of "Suc d"]
    by (simp add: upt_conv_Cons hash_to_parent_node_at del: power_Suc node_at.simps upt_Suc)
qed simp

lemma recompute_proof_at:
  assumes "unat index < 2 ^ d"
  shows "recompute H (L (unat index)) (proof_at H d L (unat index)) index = tree_root H d L"
  using recompute_from_node_at [of H index 0 L d] assms
  by (simp add: recompute_def proof_at_def tree_root_def)

section \<open>Collisions\<close>

text \<open>
  \<open>hash_inputs_from\<close> lists the pairs that a recomputation hashes, level by level, and \<open>tree_inputs\<close>
  the pairs of the tree along the way from a leaf to the root. A proof collides with the tree when
  at some level the two pairs differ and have the same hash.
\<close>

fun hash_inputs_from :: "hashv \<Rightarrow> u32 \<Rightarrow> nat \<Rightarrow> node \<Rightarrow> node list \<Rightarrow> (node \<times> node) list" where
  "hash_inputs_from H index depth current_node [] = []"
| "hash_inputs_from H index depth current_node (sibl # rest) =
     (if drop_bit depth index AND 1 = 0 then (current_node, sibl) else (sibl, current_node)) #
     hash_inputs_from H index (Suc depth)
       (hash_to_parent H current_node sibl (drop_bit depth index AND 1 = 0)) rest"

definition tree_inputs :: "hashv \<Rightarrow> leaves \<Rightarrow> nat \<Rightarrow> nat \<Rightarrow> node \<times> node" where
  "tree_inputs H L i k =
     (node_at H k (2 * (i div 2 ^ Suc k)) L, node_at H k (2 * (i div 2 ^ Suc k) + 1) L)"

definition proof_collides :: "hashv \<Rightarrow> leaves \<Rightarrow> node \<Rightarrow> node list \<Rightarrow> u32 \<Rightarrow> bool" where
  "proof_collides H L leaf proof index \<longleftrightarrow>
     list_ex (\<lambda>k. let (a, b) = hash_inputs_from H index 0 leaf proof ! k;
                      (c, d) = tree_inputs H L (unat index) k
                  in (a, b) \<noteq> (c, d) \<and> H [a, b] = H [c, d]) [0..<length proof]"

lemma length_hash_inputs_from [simp]:
  "length (hash_inputs_from H index d x ps) = length ps"
  by (induction H index d x ps rule: hash_inputs_from.induct) auto

lemma tree_inputs_eq:
  "tree_inputs H L i k =
     (if even (i div 2 ^ k)
      then (node_at H k (i div 2 ^ k) L, node_at H k (sibling (i div 2 ^ k)) L)
      else (node_at H k (sibling (i div 2 ^ k)) L, node_at H k (i div 2 ^ k) L))"
proof -
  define m where "m = i div 2 ^ k"
  have "i div 2 ^ Suc k = m div 2"
    by (simp only: m_def div_pow_Suc)
  then show ?thesis
    unfolding tree_inputs_def m_def [symmetric]
    by (cases "even m") (auto simp: sibling_def elim!: evenE oddE)
qed

lemma hash_tree_inputs:
  "H [fst (tree_inputs H L i k), snd (tree_inputs H L i k)] =
   node_at H (Suc k) (i div 2 ^ Suc k) L"
  by (simp add: tree_inputs_def)

lemma recompute_from_sound:
  assumes "recompute_from H index d x ps =
      node_at H (d + length ps) (unat index div 2 ^ (d + length ps)) L"
    and "\<And>k. k < length ps \<Longrightarrow>
      (let (a, b) = hash_inputs_from H index d x ps ! k;
           (a', b') = tree_inputs H L (unat index) (d + k)
       in H [a, b] = H [a', b'] \<longrightarrow> (a, b) = (a', b'))"
  shows "x = node_at H d (unat index div 2 ^ d) L \<and>
    ps = map (\<lambda>k. node_at H k (sibling (unat index div 2 ^ k)) L) [d..<d + length ps]"
  using assms
proof (induction ps arbitrary: d x)
  case (Cons s ss)
  let ?p = "if drop_bit d index AND 1 = 0 then (x, s) else (s, x)"
  let ?y = "hash_to_parent H x s (drop_bit d index AND 1 = 0)"
  have y: "?y = H [fst ?p, snd ?p]"
    by (simp add: hash_to_parent_def)
  have IH: "?y = node_at H (Suc d) (unat index div 2 ^ Suc d) L \<and>
      ss = map (\<lambda>k. node_at H k (sibling (unat index div 2 ^ k)) L) [Suc d..<Suc d + length ss]"
  proof (rule Cons.IH)
    show "recompute_from H index (Suc d) ?y ss =
        node_at H (Suc d + length ss) (unat index div 2 ^ (Suc d + length ss)) L"
      using Cons.prems(1) by (simp del: power_Suc node_at.simps)
  next
    fix k assume "k < length ss"
    then show "let (a, b) = hash_inputs_from H index (Suc d) ?y ss ! k;
        (a', b') = tree_inputs H L (unat index) (Suc d + k)
      in H [a, b] = H [a', b'] \<longrightarrow> (a, b) = (a', b')"
      using Cons.prems(2) [of "Suc k"] by (simp del: power_Suc node_at.simps)
  qed
  then have "H [fst ?p, snd ?p] =
      H [fst (tree_inputs H L (unat index) d), snd (tree_inputs H L (unat index) d)]"
    using y by (simp only: hash_tree_inputs)
  then have "?p = tree_inputs H L (unat index) d"
    using Cons.prems(2) [of 0] by (auto simp: Let_def split: prod.splits)
  then have "x = node_at H d (unat index div 2 ^ d) L"
    "s = node_at H d (sibling (unat index div 2 ^ d)) L"
    unfolding tree_inputs_eq shift_and_one by (auto split: if_splits)
  then show ?case
    using IH by (simp add: upt_conv_Cons del: power_Suc upt_Suc)
qed simp

lemma recompute_sound:
  assumes "recompute H leaf ps index = tree_root H d L" and "length ps = d"
    and "unat index < 2 ^ d" and "\<not> proof_collides H L leaf ps index"
  shows "leaf = L (unat index)" and "ps = proof_at H d L (unat index)"
proof -
  have "leaf = node_at H 0 (unat index div 2 ^ 0) L \<and>
      ps = map (\<lambda>k. node_at H k (sibling (unat index div 2 ^ k)) L) [0..<0 + length ps]"
  proof (rule recompute_from_sound)
    show "recompute_from H index 0 leaf ps =
        node_at H (0 + length ps) (unat index div 2 ^ (0 + length ps)) L"
      using assms(1-3) by (simp add: recompute_def tree_root_def)
  next
    fix k assume "k < length ps"
    then show "let (a, b) = hash_inputs_from H index 0 leaf ps ! k;
        (a', b') = tree_inputs H L (unat index) (0 + k)
      in H [a, b] = H [a', b'] \<longrightarrow> (a, b) = (a', b')"
      using assms(4)
      by (fastforce simp: proof_collides_def list_ex_iff Let_def split: prod.splits)
  qed
  then show "leaf = L (unat index)" "ps = proof_at H d L (unat index)"
    using assms(2) by (simp_all add: proof_at_def)
qed

end
