(* ===== verification/Cmt_State.thy ===== *)
theory Cmt_State
  imports Cmt_Utils
begin

text \<open>
  \<open>lib/concurrent-merkle-tree/src/state.rs\<close> and \<open>error.rs\<close>: change logs, the rightmost path and the
  errors of the concurrent Merkle tree. The lemmas give the two facts the whole construction rests
  on: a change log records the path of the leaf it changed, and applying it to another leaf's proof
  replaces exactly the node in which the two paths meet.
\<close>

section \<open>Definitions\<close>

datatype CMTError =
    LeafIndexOutOfBounds
  | InvalidProof
  | CannotAppendEmptyNode
  | TreeFull
  | TreeAlreadyInitialized
  | InvalidNodeByteLength
  | RootNotFound
  | LeafContentsModified

record change_log =
  cl_root :: node
  cl_path :: "node list"
  cl_index :: u32
  cl_padding :: u32

record path =
  path_proof :: "node list"
  path_leaf :: node
  path_index :: u32
  path_padding :: u32

definition change_log_default :: "nat \<Rightarrow> change_log" where
  "change_log_default max_depth =
     \<lparr>cl_root = EMPTY, cl_path = replicate max_depth EMPTY, cl_index = 0, cl_padding = 0\<rparr>"

definition change_log_new :: "node \<Rightarrow> node list \<Rightarrow> u32 \<Rightarrow> change_log" where
  "change_log_new root path index =
     \<lparr>cl_root = root, cl_path = path, cl_index = index, cl_padding = 0\<rparr>"

definition path_default :: "nat \<Rightarrow> path" where
  "path_default max_depth =
     \<lparr>path_proof = replicate max_depth EMPTY, path_leaf = EMPTY, path_index = 0,
      path_padding = 0\<rparr>"

definition get_leaf :: "change_log \<Rightarrow> node" where
  "get_leaf cl = cl_path cl ! 0"

text \<open>The loop of \<open>replace_and_recompute_path\<close>, from position \<open>i\<close> of the path on.\<close>

fun replace_path_from ::
  "hashv \<Rightarrow> u32 \<Rightarrow> nat \<Rightarrow> node \<Rightarrow> node list \<Rightarrow> node list \<Rightarrow> node list \<times> node" where
  "replace_path_from H index i node [] path = (path, node)"
| "replace_path_from H index i node (sibl # rest) path =
     replace_path_from H index (Suc i)
       (hash_to_parent H node sibl (drop_bit i index AND 1 = 0)) rest (path[i := node])"

definition replace_and_recompute_path ::
  "hashv \<Rightarrow> u32 \<Rightarrow> node \<Rightarrow> node list \<Rightarrow> change_log \<Rightarrow> node \<times> change_log" where
  "replace_and_recompute_path H index node proof cl =
     (let (path', root) = replace_path_from H index 0 node proof (cl_path cl)
      in (root, cl\<lparr>cl_index := index, cl_path := path', cl_root := root\<rparr>))"

text \<open>
  \<open>update_proof_or_leaf\<close> returns the updated proof and leaf. When the two indices differ in bits at
  or above \<open>max_depth\<close> only, \<open>(MAX_DEPTH - 1) - common_path_len\<close> underflows, which panics.
\<close>

definition update_proof_or_leaf ::
  "nat \<Rightarrow> u32 \<Rightarrow> node list \<Rightarrow> node \<Rightarrow> change_log \<Rightarrow>
   (CMTError, node list \<times> node) result" where
  "update_proof_or_leaf max_depth leaf_index proof leaf cl =
     (let padding = 32 - max_depth
      in if leaf_index \<noteq> cl_index cl then
           let common_path_len = leading_zeros (push_bit padding (leaf_index XOR cl_index cl))
           in if common_path_len < max_depth then
                let critbit_index = max_depth - 1 - common_path_len
                in Inr (proof[critbit_index := cl_path cl ! critbit_index], leaf)
              else Inl Panic
         else Inr (proof, get_leaf cl))"

section \<open>Replacing a leaf records its path\<close>

lemma replace_path_from_spec:
  assumes "i + length ps = length path"
  shows "fst (replace_path_from H index i x ps path) =
    take i path @ map (\<lambda>k. recompute_from H index i x (take k ps)) [0..<length ps]"
    and "snd (replace_path_from H index i x ps path) = recompute_from H index i x ps"
  using assms
proof (induction ps arbitrary: i x path)
  case (Cons s ss)
  have upt: "[0..<length (s # ss)] = 0 # map Suc [0..<length ss]"
    by (simp add: map_Suc_upt upt_conv_Cons del: upt_Suc)
  {
    case 1
    then show ?case
      using Cons.IH(1) [of "Suc i" "path[i := x]"]
      by (simp only: upt) (simp add: take_Suc_conv_app_nth comp_def)
  next
    case 2
    then show ?case
      using Cons.IH(2) [of "Suc i" "path[i := x]"] by simp
  }
qed auto

lemma recompute_from_take_proof_at:
  assumes "k \<le> d"
  shows "recompute_from H index 0 x (take k (proof_at H d L (unat index))) =
    node_at H k (unat index div 2 ^ k) (L(unat index := x))"
proof -
  let ?L = "L(unat index := x)"
  have "take k (proof_at H d L (unat index)) =
      map (\<lambda>k. node_at H k (sibling (unat index div 2 ^ k)) ?L) [0..<0 + k]"
    using assms by (simp add: proof_at_def take_map take_upt node_at_upd_other)
  then show ?thesis
    using recompute_from_node_at [of H index 0 ?L k] by simp
qed

lemma replace_and_recompute_path_spec:
  assumes "length (cl_path cl) = d" and "unat index < 2 ^ d"
  shows "replace_and_recompute_path H index x (proof_at H d L (unat index)) cl =
    (tree_root H d (L(unat index := x)),
     cl\<lparr>cl_index := index, cl_path := path_at H d (L(unat index := x)) (unat index),
        cl_root := tree_root H d (L(unat index := x))\<rparr>)"
proof -
  let ?ps = "proof_at H d L (unat index)"
  have "fst (replace_path_from H index 0 x ?ps (cl_path cl)) =
      path_at H d (L(unat index := x)) (unat index)"
    using replace_path_from_spec(1) [of 0 ?ps "cl_path cl" H index x] assms(1)
    by (simp add: path_at_def recompute_from_take_proof_at)
  moreover have "snd (replace_path_from H index 0 x ?ps (cl_path cl)) =
      tree_root H d (L(unat index := x))"
    using replace_path_from_spec(2) [of 0 ?ps "cl_path cl" H index x] assms
      recompute_from_take_proof_at [of d d H index x L] by (simp add: tree_root_def)
  ultimately show ?thesis
    by (simp add: replace_and_recompute_path_def case_prod_beta)
qed

section \<open>Where two paths meet\<close>

lemma leading_zeros_push_bit:
  fixes w :: u32
  assumes "h < d" and "d \<le> 32" and "bit w h" and "\<And>k. h < k \<Longrightarrow> \<not> bit w k"
  shows "leading_zeros (push_bit (32 - d) w) = d - 1 - h"
proof -
  have "leading_zeros (push_bit (32 - d) w) = LENGTH(32) - 1 - (h + (32 - d))"
    by (rule leading_zeros_eqI) (use assms in \<open>auto simp: bit_push_bit_iff\<close>)
  then show ?thesis
    using assms(1,2) by simp
qed

lemma critbit_meeting_level:
  fixes i j :: u32
  assumes "i \<noteq> j" and "unat i < 2 ^ d" and "unat j < 2 ^ d" and "d \<le> 32"
  obtains h where "h < d" and "leading_zeros (push_bit (32 - d) (i XOR j)) = d - 1 - h"
    and "\<And>k. sibling (unat i div 2 ^ k) = unat j div 2 ^ k \<longleftrightarrow> k = h"
proof -
  from assms(1) have "unat i \<noteq> unat j" by (simp add: word_unat_eq_iff)
  then obtain h where h: "h < d" "sibling (unat i div 2 ^ h) = unat j div 2 ^ h"
    "\<And>k. h < k \<Longrightarrow> unat i div 2 ^ k = unat j div 2 ^ k"
    by (rule meeting_level [OF _ assms(2,3)]) blast
  have bit: "bit (i XOR j) k \<longleftrightarrow> odd (unat i div 2 ^ k) \<noteq> odd (unat j div 2 ^ k)" for k
    by (simp only: bit_xor_iff bit_word_odd [of i] bit_word_odd [of j])
  have "even (sibling m) \<longleftrightarrow> odd m" for m
    by (simp add: sibling_def)
  then have "bit (i XOR j) h"
    using h(2) bit [of h] by metis
  moreover have "\<not> bit (i XOR j) k" if "h < k" for k
    using h(3) [OF that] bit [of k] by simp
  ultimately have lz: "leading_zeros (push_bit (32 - d) (i XOR j)) = d - 1 - h"
    using h(1) assms(4) by (intro leading_zeros_push_bit)
  have uniq: "k = h" if "sibling (unat i div 2 ^ k) = unat j div 2 ^ k" for k
  proof (rule ccontr)
    assume "k \<noteq> h"
    then consider "h < k" | "k < h" by linarith
    then show False
    proof cases
      case 1
      then show False using h(3) that by (metis sibling_neq)
    next
      case 2
      then obtain e where e: "h = Suc k + e"
        using less_imp_Suc_add by force
      have "unat i div 2 ^ Suc k = unat j div 2 ^ Suc k"
        unfolding div_pow_Suc using that by (metis sibling_div2)
      then have "unat i div 2 ^ h = unat j div 2 ^ h"
        by (simp only: e div_pow_add)
      then show False using h(2) by (metis sibling_neq)
    qed
  qed
  show thesis
    by (rule that [OF h(1) lz]) (use uniq h(2) in blast)
qed

lemma update_proof_or_leaf_spec:
  assumes "unat i < 2 ^ d" and "unat (cl_index cl) < 2 ^ d" and "d \<le> 32" and "length ps = d"
  obtains ps' where "update_proof_or_leaf d i ps leaf cl =
      Inr (ps', if i = cl_index cl then get_leaf cl else leaf)"
    and "length ps' = d"
    and "\<And>k. k < d \<Longrightarrow> ps' ! k =
      (if sibling (unat i div 2 ^ k) = unat (cl_index cl) div 2 ^ k then cl_path cl ! k
       else ps ! k)"
proof (cases "i = cl_index cl")
  case True
  then show thesis
    by (intro that [of ps]) (use assms in \<open>auto simp: update_proof_or_leaf_def Let_def\<close>)
next
  case False
  obtain h where h: "h < d" "leading_zeros (push_bit (32 - d) (i XOR cl_index cl)) = d - 1 - h"
    "\<And>k. sibling (unat i div 2 ^ k) = unat (cl_index cl) div 2 ^ k \<longleftrightarrow> k = h"
    by (rule critbit_meeting_level [OF False assms(1-3)]) blast
  show thesis
    by (rule that [of "ps[h := cl_path cl ! h]"])
      (use False h assms(4) in \<open>auto simp: update_proof_or_leaf_def Let_def\<close>)
qed

text \<open>A change log of the step from \<open>L\<close> to \<open>L'\<close>.\<close>

definition logs_step :: "hashv \<Rightarrow> nat \<Rightarrow> change_log \<Rightarrow> leaves \<Rightarrow> leaves \<Rightarrow> bool" where
  "logs_step H d cl L L' \<longleftrightarrow>
     unat (cl_index cl) < 2 ^ d \<and> cl_path cl = path_at H d L' (unat (cl_index cl)) \<and>
     (\<forall>j. j \<noteq> unat (cl_index cl) \<longrightarrow> L' j = L j)"

lemma logs_step_other:
  assumes "logs_step H d cl L L'" and "m \<noteq> unat (cl_index cl) div 2 ^ k"
  shows "node_at H k m L' = node_at H k m L"
  by (rule node_at_cong) (use assms in \<open>metis logs_step_def\<close>)

text \<open>
  Applying the change log of a step to the proof of any leaf of the tree before the step gives the
  proof of that leaf in the tree after it.
\<close>

lemma update_proof_or_leaf_step:
  assumes "logs_step H d cl L L'" and "unat i < 2 ^ d" and "0 < d" and "d \<le> 32"
  shows "update_proof_or_leaf d i (proof_at H d L (unat i)) (L (unat i)) cl =
    Inr (proof_at H d L' (unat i), L' (unat i))"
proof -
  let ?c = "unat (cl_index cl)"
  have c: "?c < 2 ^ d" and path: "cl_path cl = path_at H d L' ?c"
    using assms(1) by (auto simp: logs_step_def)
  obtain ps where ps: "update_proof_or_leaf d i (proof_at H d L (unat i)) (L (unat i)) cl =
      Inr (ps, if i = cl_index cl then get_leaf cl else L (unat i))" "length ps = d"
    "\<And>k. k < d \<Longrightarrow> ps ! k =
      (if sibling (unat i div 2 ^ k) = ?c div 2 ^ k then cl_path cl ! k
       else proof_at H d L (unat i) ! k)"
    by (rule update_proof_or_leaf_spec [OF assms(2) c assms(4) length_proof_at,
          where leaf = "L (unat i)"]) blast
  have "ps ! k = proof_at H d L' (unat i) ! k" if "k < d" for k
    using ps(3) [OF that] that logs_step_other [OF assms(1), of "sibling (unat i div 2 ^ k)" k]
    by (auto simp: path nth_path_at nth_proof_at)
  then have "ps = proof_at H d L' (unat i)"
    using ps(2) by (simp add: list_eq_iff_nth_eq)
  moreover have "(if i = cl_index cl then get_leaf cl else L (unat i)) = L' (unat i)"
    using assms(1,3) by (auto simp: logs_step_def get_leaf_def nth_path_at word_unat_eq_iff)
  ultimately show ?thesis
    using ps(1) by simp
qed

end
