(* ===== verification/Merkle_Roll.thy ===== *)
theory Merkle_Roll
  imports Cmt_State
begin

text \<open>
  \<open>lib/concurrent-merkle-tree/src/merkle_roll.rs\<close>: the concurrent Merkle tree. The record
  \<open>merkle_roll\<close> is the struct \<open>MerkleRoll\<close>; its const parameters \<open>MAX_DEPTH\<close> and \<open>MAX_BUFFER_SIZE\<close>
  are arguments of the operations. An operation that mutates \<open>self\<close> returns the new roll; where
  the code returns an \<open>Err\<close> it has not mutated \<open>self\<close> yet, so an error carries no state.
\<close>

record merkle_roll =
  sequence_number :: u64
  active_index :: u64
  buffer_size :: u64
  change_logs :: "change_log list"
  rightmost_proof :: path

definition check_bounds :: "nat \<Rightarrow> nat \<Rightarrow> ('e, unit) result" where
  "check_bounds max_depth max_buffer_size =
     and_then (ensure (max_depth < 31) Panic) (\<lambda>_.
     ensure (max_buffer_size AND (max_buffer_size - 1) = 0) Panic)"

definition merkle_roll_new :: "nat \<Rightarrow> nat \<Rightarrow> merkle_roll" where
  "merkle_roll_new max_depth max_buffer_size =
     \<lparr>sequence_number = 0, active_index = 0, buffer_size = 0,
      change_logs = replicate max_buffer_size (change_log_default max_depth),
      rightmost_proof = path_default max_depth\<rparr>"

definition get_change_log :: "merkle_roll \<Rightarrow> change_log" where
  "get_change_log roll = change_logs roll ! unat (active_index roll)"

definition index_mask :: "nat \<Rightarrow> u64" where
  "index_mask max_buffer_size = of_nat (max_buffer_size - 1)"

section \<open>Initialization\<close>

definition initialize ::
  "hashv \<Rightarrow> nat \<Rightarrow> nat \<Rightarrow> merkle_roll \<Rightarrow> (CMTError, node \<times> merkle_roll) result" where
  "initialize H max_depth max_buffer_size roll =
     and_then (check_bounds max_depth max_buffer_size) (\<lambda>_.
     let empty_node_cache = replicate max_depth EMPTY;
         nodes = map (\<lambda>i. empty_node_cached H i empty_node_cache) [0..<max_depth];
         root = empty_node H max_depth;
         roll' = roll\<lparr>
           change_logs := (change_logs roll)
             [0 := (change_logs roll ! 0)\<lparr>cl_root := root, cl_path := nodes\<rparr>],
           sequence_number := 0, active_index := 0, buffer_size := 1,
           rightmost_proof := (path_default max_depth)\<lparr>path_proof := nodes\<rparr>\<rparr>
     in Inr (root, roll'))"

definition initialize_with_root ::
  "hashv \<Rightarrow> nat \<Rightarrow> nat \<Rightarrow> node \<Rightarrow> node \<Rightarrow> node list \<Rightarrow> u32 \<Rightarrow> merkle_roll \<Rightarrow>
   (CMTError, node \<times> merkle_roll) result" where
  "initialize_with_root H max_depth max_buffer_size root rightmost_leaf proof_vec index roll =
     and_then (check_bounds max_depth max_buffer_size) (\<lambda>_.
     and_then (ensure (length proof_vec = max_depth) Panic) (\<lambda>_.
     and_then (ok_or (checked_add index 1) Panic) (\<lambda>next_index.
     let roll' = roll\<lparr>
           change_logs := (change_logs roll)[0 := (change_logs roll ! 0)\<lparr>cl_root := root\<rparr>],
           sequence_number := 1, active_index := 0, buffer_size := 1,
           rightmost_proof := \<lparr>path_proof = proof_vec, path_leaf = rightmost_leaf,
             path_index = next_index, path_padding = 0\<rparr>\<rparr>
     in and_then (ensure (root = recompute H rightmost_leaf proof_vec index) Panic) (\<lambda>_.
        Inr (root, roll')))))"

section \<open>Fast-forwarding a proof\<close>

text \<open>
  The loop of \<open>fast_forward_proof\<close>. It leaves the loop when the buffer index reaches the active
  index, before the step or, with \<open>use_full_buffer\<close>, after it. The bound on the number of
  iterations is the buffer size (\<open>fast_forward_proof\<close> below).
\<close>

fun fast_forward_loop ::
  "nat \<Rightarrow> nat \<Rightarrow> nat \<Rightarrow> merkle_roll \<Rightarrow> u32 \<Rightarrow> bool \<Rightarrow> u64 \<Rightarrow> node list \<Rightarrow> node \<Rightarrow>
   (CMTError, node list \<times> node) result" where
  "fast_forward_loop fuel max_depth max_buffer_size roll leaf_index use_full_buffer
     changelog_buffer_index proof updated_leaf =
     (if \<not> use_full_buffer \<and> changelog_buffer_index = active_index roll
      then Inr (proof, updated_leaf)
      else case fuel of
        0 \<Rightarrow> Inl Diverge
      | Suc fuel' \<Rightarrow>
          let j = (changelog_buffer_index + 1) AND index_mask max_buffer_size
          in and_then
               (update_proof_or_leaf max_depth leaf_index proof updated_leaf
                  (change_logs roll ! unat j)) (\<lambda>(proof', leaf').
             if use_full_buffer \<and> j = active_index roll
             then Inr (proof', leaf')
             else fast_forward_loop fuel' max_depth max_buffer_size roll leaf_index
                    use_full_buffer j proof' leaf'))"

declare fast_forward_loop.simps [simp del]

text \<open>Returns whether the leaf is unchanged, the updated leaf and the updated proof.\<close>

definition fast_forward_proof ::
  "nat \<Rightarrow> nat \<Rightarrow> merkle_roll \<Rightarrow> node \<Rightarrow> node list \<Rightarrow> u32 \<Rightarrow> u64 \<Rightarrow> bool \<Rightarrow>
   (CMTError, bool \<times> node \<times> node list) result" where
  "fast_forward_proof max_depth max_buffer_size roll leaf proof leaf_index
     changelog_buffer_index use_full_buffer =
     and_then (fast_forward_loop max_buffer_size max_depth max_buffer_size roll leaf_index
        use_full_buffer changelog_buffer_index proof leaf) (\<lambda>(proof', updated_leaf).
     Inr (updated_leaf = leaf, updated_leaf, proof'))"

definition find_root_in_changelog :: "nat \<Rightarrow> merkle_roll \<Rightarrow> node \<Rightarrow> u64 option" where
  "find_root_in_changelog max_buffer_size roll current_root =
     List.find (\<lambda>j. cl_root (change_logs roll ! unat j) = current_root)
       (map (\<lambda>i. (active_index roll - of_nat i) AND index_mask max_buffer_size)
          [0..<unat (buffer_size roll)])"

text \<open>Returns whether the recomputed root is the current one, and the updated proof.\<close>

definition check_valid_leaf ::
  "hashv \<Rightarrow> nat \<Rightarrow> nat \<Rightarrow> merkle_roll \<Rightarrow> node \<Rightarrow> node \<Rightarrow> node list \<Rightarrow> u32 \<Rightarrow> bool \<Rightarrow>
   (CMTError, bool \<times> node list) result" where
  "check_valid_leaf H max_depth max_buffer_size roll current_root leaf proof leaf_index
     allow_inferred_proof =
     and_then
       (case find_root_in_changelog max_buffer_size roll current_root of
          Some matching_changelog_index \<Rightarrow> Inr (matching_changelog_index, False)
        | None \<Rightarrow>
            if allow_inferred_proof then
              and_then (ok_or (checked_sub (buffer_size roll) 1) Panic) (\<lambda>b.
              Inr ((active_index roll - b) AND index_mask max_buffer_size, True))
            else Inl (Err RootNotFound)) (\<lambda>(changelog_index, use_full_buffer).
     and_then (fast_forward_proof max_depth max_buffer_size roll leaf proof leaf_index
        changelog_index use_full_buffer) (\<lambda>(proof_leaf_unchanged, updatable_leaf_node, proof').
     if \<not> proof_leaf_unchanged then Inl (Err LeafContentsModified)
     else Inr (recompute H updatable_leaf_node proof' leaf_index = cl_root (get_change_log roll),
               proof')))"

section \<open>Writing the new state\<close>

definition update_internal_counters :: "nat \<Rightarrow> merkle_roll \<Rightarrow> merkle_roll" where
  "update_internal_counters max_buffer_size roll =
     roll\<lparr>active_index := (active_index roll + 1) AND index_mask max_buffer_size,
          buffer_size := (if buffer_size roll < of_nat max_buffer_size
                          then buffer_size roll + 1 else buffer_size roll),
          sequence_number := saturating_add (sequence_number roll) 1\<rparr>"

definition update_buffers_from_proof ::
  "hashv \<Rightarrow> nat \<Rightarrow> node \<Rightarrow> node list \<Rightarrow> u32 \<Rightarrow> merkle_roll \<Rightarrow>
   (CMTError, node \<times> merkle_roll) result" where
  "update_buffers_from_proof H max_depth start proof index roll =
     (let (root, cl) = replace_and_recompute_path H index start proof (get_change_log roll);
          roll' = roll\<lparr>change_logs := (change_logs roll)[unat (active_index roll) := cl]\<rparr>;
          rp = rightmost_proof roll
      in if path_index rp < push_bit max_depth 1 then
           if index < path_index rp then
             and_then (update_proof_or_leaf max_depth (path_index rp - 1) (path_proof rp)
                (path_leaf rp) cl) (\<lambda>(proof', leaf').
             Inr (root, roll'\<lparr>rightmost_proof := rp\<lparr>path_proof := proof', path_leaf := leaf'\<rparr>\<rparr>))
           else
             and_then (ensure (index = path_index rp) Panic) (\<lambda>_.
             Inr (root, roll'\<lparr>rightmost_proof := rp\<lparr>path_proof := proof, path_index := index + 1,
                path_leaf := get_leaf cl\<rparr>\<rparr>))
         else Inr (root, roll'))"

definition try_apply_proof ::
  "hashv \<Rightarrow> nat \<Rightarrow> nat \<Rightarrow> node \<Rightarrow> node \<Rightarrow> node \<Rightarrow> node list \<Rightarrow> u32 \<Rightarrow> bool \<Rightarrow> merkle_roll \<Rightarrow>
   (CMTError, node \<times> merkle_roll) result" where
  "try_apply_proof H max_depth max_buffer_size current_root leaf new_leaf proof leaf_index
     allow_inferred_proof roll =
     and_then (check_valid_leaf H max_depth max_buffer_size roll current_root leaf proof
        leaf_index allow_inferred_proof) (\<lambda>(valid_root, proof').
     if \<not> valid_root then Inl (Err InvalidProof)
     else update_buffers_from_proof H max_depth new_leaf proof' leaf_index
            (update_internal_counters max_buffer_size roll))"

section \<open>The public operations\<close>

definition prove_leaf ::
  "hashv \<Rightarrow> nat \<Rightarrow> nat \<Rightarrow> node \<Rightarrow> node \<Rightarrow> node list \<Rightarrow> u32 \<Rightarrow> merkle_roll \<Rightarrow>
   (CMTError, node \<times> merkle_roll) result" where
  "prove_leaf H max_depth max_buffer_size current_root leaf proof_vec leaf_index roll =
     and_then (check_bounds max_depth max_buffer_size) (\<lambda>_.
     if leaf_index > path_index (rightmost_proof roll) then Inl (Err LeafIndexOutOfBounds)
     else and_then (fill_in_proof H max_depth proof_vec) (\<lambda>proof.
          and_then (check_valid_leaf H max_depth max_buffer_size roll current_root leaf proof
            leaf_index True) (\<lambda>(valid_root, _).
          if \<not> valid_root then Inl (Err InvalidProof) else Inr (EMPTY, roll))))"

definition initialize_tree_from_append ::
  "hashv \<Rightarrow> nat \<Rightarrow> nat \<Rightarrow> node \<Rightarrow> node list \<Rightarrow> merkle_roll \<Rightarrow>
   (CMTError, node \<times> merkle_roll) result" where
  "initialize_tree_from_append H max_depth max_buffer_size leaf proof roll =
     (let old_root = recompute H EMPTY proof 0
      in if old_root = empty_node H max_depth
         then try_apply_proof H max_depth max_buffer_size old_root EMPTY leaf proof 0 False roll
         else Inl (Err TreeAlreadyInitialized))"

text \<open>
  One iteration of the loop of \<open>append\<close> on \<open>(node, intersection_node, change_list, proof)\<close>, where
  \<open>proof\<close> is \<open>self.rightmost_proof.proof\<close>.
\<close>

definition append_step ::
  "hashv \<Rightarrow> nat \<Rightarrow> u32 \<Rightarrow> nat \<Rightarrow> nat \<Rightarrow> node \<times> node \<times> node list \<times> node list \<Rightarrow>
   node \<times> node \<times> node list \<times> node list" where
  "append_step H max_depth index intersection i =
     (\<lambda>(node, intersection_node, change_list, proof).
        let change_list' = change_list[i := node]
        in if i < intersection then
             let sibl = empty_node_cached H i (replicate max_depth EMPTY)
             in (hash_to_parent H node sibl True,
                 hash_to_parent H intersection_node (proof ! i) (drop_bit i (index - 1) AND 1 = 0),
                 change_list', proof[i := sibl])
           else if i = intersection then
             (hash_to_parent H node intersection_node False, intersection_node, change_list',
              proof[intersection := intersection_node])
           else
             (hash_to_parent H node (proof ! i) (drop_bit i (index - 1) AND 1 = 0),
              intersection_node, change_list', proof))"

text \<open>The method \<open>append\<close>; the name is taken by the library's list operation.\<close>

definition append_node ::
  "hashv \<Rightarrow> nat \<Rightarrow> nat \<Rightarrow> node \<Rightarrow> merkle_roll \<Rightarrow> (CMTError, node \<times> merkle_roll) result" where
  "append_node H max_depth max_buffer_size node roll =
     and_then (check_bounds max_depth max_buffer_size) (\<lambda>_.
     let rp = rightmost_proof roll
     in if node = EMPTY then Inl (Err CannotAppendEmptyNode)
        else if path_index rp \<ge> push_bit max_depth 1 then Inl (Err TreeFull)
        else if path_index rp = 0
        then initialize_tree_from_append H max_depth max_buffer_size node (path_proof rp) roll
        else
          let intersection = trailing_zeros (path_index rp);
              (root, intersection_node, change_list, proof') =
                fold (append_step H max_depth (path_index rp) intersection) [0..<max_depth]
                  (node, path_leaf rp, replicate max_depth EMPTY, path_proof rp);
              roll1 = update_internal_counters max_buffer_size roll;
              roll2 = roll1\<lparr>
                change_logs := (change_logs roll1)[unat (active_index roll1) :=
                  change_log_new root change_list (path_index rp)],
                rightmost_proof := rp\<lparr>path_proof := proof', path_index := path_index rp + 1,
                  path_leaf := node\<rparr>\<rparr>
          in Inr (root, roll2))"

definition fill_empty_or_append ::
  "hashv \<Rightarrow> nat \<Rightarrow> nat \<Rightarrow> node \<Rightarrow> node \<Rightarrow> node list \<Rightarrow> u32 \<Rightarrow> merkle_roll \<Rightarrow>
   (CMTError, node \<times> merkle_roll) result" where
  "fill_empty_or_append H max_depth max_buffer_size current_root leaf proof_vec index roll =
     and_then (check_bounds max_depth max_buffer_size) (\<lambda>_.
     and_then (fill_in_proof H max_depth proof_vec) (\<lambda>proof.
     case try_apply_proof H max_depth max_buffer_size current_root EMPTY leaf proof index False
            roll of
       Inr r \<Rightarrow> Inr r
     | Inl (Err LeafContentsModified) \<Rightarrow> append_node H max_depth max_buffer_size leaf roll
     | Inl e \<Rightarrow> Inl e))"

definition set_leaf ::
  "hashv \<Rightarrow> nat \<Rightarrow> nat \<Rightarrow> node \<Rightarrow> node \<Rightarrow> node \<Rightarrow> node list \<Rightarrow> u32 \<Rightarrow> merkle_roll \<Rightarrow>
   (CMTError, node \<times> merkle_roll) result" where
  "set_leaf H max_depth max_buffer_size current_root previous_leaf new_leaf proof_vec index roll =
     and_then (check_bounds max_depth max_buffer_size) (\<lambda>_.
     if index > path_index (rightmost_proof roll) then Inl (Err LeafIndexOutOfBounds)
     else and_then (fill_in_proof H max_depth proof_vec) (\<lambda>proof.
          try_apply_proof H max_depth max_buffer_size current_root previous_leaf new_leaf proof
            index True roll))"

end
