(* ===== verification/Gummyroll.thy ===== *)
theory Gummyroll
  imports Merkle_Roll
begin

text \<open>
  \<open>contracts/programs/gummyroll\<close>: the program that keeps a concurrent Merkle tree in an account.
  The account's bytes are the header, the tree and the canopy, a cache of the upper levels of the
  tree. \<open>gummyroll_account\<close> is the typed view of these bytes; the canopy bytes are split into whole
  nodes and the bytes left over. The slot of the clock, the account's key and the keys that signed
  are arguments of the handlers, as are the proof nodes passed as remaining accounts. An
  instruction that fails aborts its transaction, so an error carries no state.
\<close>

section \<open>State (state/mod.rs, error.rs)\<close>

datatype GummyrollError =
    IncorrectLeafLength
  | ConcurrentMerkleTreeError
  | ZeroCopyError
  | MerkleRollConstantsError
  | CanopyLengthMismatch
  | ConstraintZero

record path_node =
  pn_node :: node
  pn_index :: u32

definition path_node_new :: "node \<Rightarrow> u32 \<Rightarrow> path_node" where
  "path_node_new tree_node index = \<lparr>pn_node = tree_node, pn_index = index\<rparr>"

record change_log_event =
  ev_id :: pubkey
  ev_path :: "path_node list"
  ev_seq :: u64
  ev_index :: u32

text \<open>
  The index of a path node is its position in the tree numbered level by level from the root, which
  has number 1. A change log's index is at most \<open>2 ^ MAX_DEPTH\<close>, so the sums do not overflow.
\<close>

definition change_log_event_from :: "change_log \<Rightarrow> pubkey \<Rightarrow> u64 \<Rightarrow> change_log_event" where
  "change_log_event_from changelog tree_id seq =
     (let path_len = length (cl_path changelog);
          path = map (\<lambda>(lvl, n).
              path_node_new n (push_bit (path_len - lvl) 1 + drop_bit lvl (cl_index changelog)))
            (enumerate 0 (cl_path changelog))
      in \<lparr>ev_id = tree_id, ev_path = path @ [path_node_new (cl_root changelog) 1],
          ev_seq = seq, ev_index = cl_index changelog\<rparr>)"

record merkle_roll_header =
  hd_max_buffer_size :: u32
  hd_max_depth :: u32
  hd_authority :: pubkey
  hd_append_authority :: pubkey
  hd_creation_slot :: u64

definition zero_header :: merkle_roll_header where
  "zero_header = \<lparr>hd_max_buffer_size = 0, hd_max_depth = 0, hd_authority = replicate 32 0,
     hd_append_authority = replicate 32 0, hd_creation_slot = 0\<rparr>"

definition header_initialize ::
  "u32 \<Rightarrow> u32 \<Rightarrow> pubkey \<Rightarrow> pubkey \<Rightarrow> u64 \<Rightarrow> merkle_roll_header \<Rightarrow>
   ('e, merkle_roll_header) result" where
  "header_initialize max_depth max_buffer_size authority append_authority creation_slot header =
     and_then (ensure (hd_max_buffer_size header = 0) Panic) (\<lambda>_.
     and_then (ensure (hd_max_depth header = 0) Panic) (\<lambda>_.
     Inr (header\<lparr>hd_max_buffer_size := max_buffer_size, hd_max_depth := max_depth,
       hd_authority := authority, hd_append_authority := append_authority,
       hd_creation_slot := creation_slot\<rparr>)))"

record gummyroll_account =
  gr_header :: merkle_roll_header
  gr_roll :: merkle_roll
  gr_canopy :: "node list"
  gr_canopy_rest :: bytes

section \<open>The canopy\<close>

definition check_canopy_bytes :: "nat \<Rightarrow> (GummyrollError, unit) result" where
  "check_canopy_bytes len =
     (if len mod 32 \<noteq> 0 then Inl (Err CanopyLengthMismatch) else Inr ())"

definition canopy_bytes_len :: "node list \<Rightarrow> bytes \<Rightarrow> nat" where
  "canopy_bytes_len canopy rest = 32 * length canopy + length rest"

definition get_cached_path_length :: "node list \<Rightarrow> nat \<Rightarrow> (GummyrollError, nat) result" where
  "get_cached_path_length canopy max_depth =
     (let closest_power_of_2 = of_nat (length canopy + 2) :: u32
      in and_then (ok_or (checked_sub closest_power_of_2 1) Panic) (\<lambda>pred.
         if closest_power_of_2 AND pred = 0 then
           if closest_power_of_2 > push_bit (max_depth + 1) 1 then Inl (Err CanopyLengthMismatch)
           else if trailing_zeros closest_power_of_2 = 0 then Inl Panic
           else Inr (trailing_zeros closest_power_of_2 - 1)
         else Inl (Err CanopyLengthMismatch)))"

text \<open>The loop of \<open>update_canopy\<close>: each path node is stored at its index less 2.\<close>

fun canopy_writes :: "node list \<Rightarrow> path_node list \<Rightarrow> (GummyrollError, node list) result" where
  "canopy_writes canopy [] = Inr canopy"
| "canopy_writes canopy (p # ps) =
     and_then (ok_or (checked_sub (pn_index p) 2) Panic) (\<lambda>j.
     and_then (ensure (unat j < length canopy) Panic) (\<lambda>_.
     canopy_writes (canopy[unat j := pn_node p]) ps))"

definition update_canopy ::
  "node list \<Rightarrow> bytes \<Rightarrow> nat \<Rightarrow> change_log_event option \<Rightarrow> (GummyrollError, node list) result" where
  "update_canopy canopy rest max_depth change_log =
     and_then (check_canopy_bytes (canopy_bytes_len canopy rest)) (\<lambda>_.
     and_then (get_cached_path_length canopy max_depth) (\<lambda>path_len.
     case change_log of
       None \<Rightarrow> Inr canopy
     | Some cl \<Rightarrow> canopy_writes canopy (take path_len (drop 1 (rev (ev_path cl))))))"

text \<open>
  The loop of \<open>fill_in_proof_from_canopy\<close>. It returns the canopy, in which an empty sibling has been
  replaced by the hash of the empty subtree of its level, and the inferred nodes.
\<close>

function canopy_loop ::
  "hashv \<Rightarrow> nat \<Rightarrow> u32 \<Rightarrow> node list \<Rightarrow> node list \<Rightarrow>
   (GummyrollError, node list \<times> node list) result" where
  "canopy_loop H max_depth node_idx canopy inferred_nodes =
     (if node_idx > 1 then
        let shifted_index = unat node_idx - 2;
            cached_idx = (if shifted_index mod 2 = 0 then shifted_index + 1 else shifted_index - 1)
        in if cached_idx < length canopy then
             if canopy ! cached_idx = EMPTY then
               if 31 - leading_zeros node_idx \<le> max_depth then
                 let level = max_depth - (31 - leading_zeros node_idx);
                     empty = empty_node_cached H level (replicate 30 EMPTY)
                 in canopy_loop H max_depth (drop_bit 1 node_idx) (canopy[cached_idx := empty])
                      (inferred_nodes @ [empty])
               else Inl Panic
             else canopy_loop H max_depth (drop_bit 1 node_idx) canopy
                    (inferred_nodes @ [canopy ! cached_idx])
           else Inl Panic
      else Inr (canopy, inferred_nodes))"
  by pat_completeness auto
termination
  by (relation "measure (\<lambda>(H, d, w, c, ns). unat w)")
    (auto simp: unat_drop_bit word_less_nat_alt)

declare canopy_loop.simps [simp del]

definition fill_in_proof_from_canopy ::
  "hashv \<Rightarrow> node list \<Rightarrow> bytes \<Rightarrow> nat \<Rightarrow> u32 \<Rightarrow> node list \<Rightarrow>
   (GummyrollError, node list \<times> node list) result" where
  "fill_in_proof_from_canopy H canopy rest max_depth index proof =
     and_then (check_canopy_bytes (canopy_bytes_len canopy rest)) (\<lambda>_.
     and_then (get_cached_path_length canopy max_depth) (\<lambda>path_len.
     and_then (ok_or (checked_add (push_bit max_depth 1) index) Panic) (\<lambda>leaf_idx.
     and_then (ensure (path_len \<le> max_depth) Panic) (\<lambda>_.
     and_then (canopy_loop H max_depth (drop_bit (max_depth - path_len) leaf_idx) canopy [])
       (\<lambda>(canopy', inferred_nodes).
     Inr (canopy', proof @ inferred_nodes))))))"

section \<open>Dispatch on the tree's dimensions\<close>

definition supported_dims :: "(nat \<times> nat) list" where
  "supported_dims =
     [(3, 8), (5, 8), (14, 64), (14, 256), (14, 1024), (14, 2048), (20, 64), (20, 256),
      (20, 1024), (20, 2048), (24, 64), (24, 256), (24, 512), (24, 1024), (24, 2048), (26, 512),
      (26, 1024), (26, 2048), (30, 512), (30, 1024), (30, 2048)]"

text \<open>
  The size of \<open>MerkleRoll<d, n>\<close>: three \<open>u64\<close> counters, \<open>n\<close> change logs and the rightmost path, each
  of \<open>d + 1\<close> nodes and two \<open>u32\<close> fields.
\<close>

definition merkle_roll_size :: "nat \<Rightarrow> nat \<Rightarrow> nat" where
  "merkle_roll_size d n = 24 + (n + 1) * (32 * (d + 1) + 8)"

definition merkle_roll_get_size :: "merkle_roll_header \<Rightarrow> (GummyrollError, nat) result" where
  "merkle_roll_get_size header =
     (let d = unat (hd_max_depth header); n = unat (hd_max_buffer_size header)
      in if (d, n) \<in> set supported_dims then Inr (merkle_roll_size d n)
         else Inl (Err MerkleRollConstantsError))"

definition merkle_roll_depth_size_apply_fn ::
  "pubkey \<Rightarrow> merkle_roll \<Rightarrow> (merkle_roll \<Rightarrow> (CMTError, node \<times> merkle_roll) result) \<Rightarrow>
   (GummyrollError, change_log_event \<times> merkle_roll) result" where
  "merkle_roll_depth_size_apply_fn tree_id roll func =
     and_then (map_failure (\<lambda>_. ConcurrentMerkleTreeError) (func roll)) (\<lambda>(_, roll').
     Inr (change_log_event_from (get_change_log roll') tree_id (sequence_number roll'), roll'))"

definition merkle_roll_apply_fn ::
  "merkle_roll_header \<Rightarrow> pubkey \<Rightarrow> merkle_roll \<Rightarrow>
   (nat \<Rightarrow> nat \<Rightarrow> merkle_roll \<Rightarrow> (CMTError, node \<times> merkle_roll) result) \<Rightarrow>
   (GummyrollError, change_log_event \<times> merkle_roll) result" where
  "merkle_roll_apply_fn header tree_id roll func =
     (let d = unat (hd_max_depth header); n = unat (hd_max_buffer_size header)
      in if (d, n) \<in> set supported_dims
         then merkle_roll_depth_size_apply_fn tree_id roll (func d n)
         else Inl (Err MerkleRollConstantsError))"

section \<open>Instructions\<close>

text \<open>
  The account passed to an initialization is zeroed (constraint \<open>zero\<close>); \<open>data_len\<close> is its length.
  The bytes of a zeroed tree are \<open>merkle_roll_new\<close>, those of a zeroed header \<open>zero_header\<close> and
  those of a zeroed canopy node \<open>EMPTY\<close>.
\<close>

datatype account_data = Zeroed nat | Live gummyroll_account

definition zeroed_parts :: "nat \<Rightarrow> merkle_roll_header \<Rightarrow> (GummyrollError, gummyroll_account) result" where
  "zeroed_parts data_len header =
     and_then (merkle_roll_get_size header) (\<lambda>size.
     and_then (ensure (size \<le> data_len - 80) Panic) (\<lambda>_.
     let canopy_len = data_len - 80 - size
     in Inr \<lparr>gr_header = header,
             gr_roll = merkle_roll_new (unat (hd_max_depth header)) (unat (hd_max_buffer_size header)),
             gr_canopy = replicate (canopy_len div 32) EMPTY,
             gr_canopy_rest = replicate (canopy_len mod 32) 0\<rparr>))"

definition init_empty_gummyroll ::
  "hashv \<Rightarrow> pubkey \<Rightarrow> pubkey \<Rightarrow> pubkey \<Rightarrow> u64 \<Rightarrow> u32 \<Rightarrow> u32 \<Rightarrow> account_data \<Rightarrow>
   (GummyrollError, change_log_event \<times> gummyroll_account) result" where
  "init_empty_gummyroll H tree_id authority append_authority slot max_depth max_buffer_size data =
     (case data of
        Live _ \<Rightarrow> Inl (Err ConstraintZero)
      | Zeroed data_len \<Rightarrow>
          and_then (ensure (80 \<le> data_len) Panic) (\<lambda>_.
          and_then (header_initialize max_depth max_buffer_size authority append_authority slot
             zero_header) (\<lambda>header.
          and_then (zeroed_parts data_len header) (\<lambda>acc.
          and_then (merkle_roll_apply_fn header tree_id (gr_roll acc) (initialize H))
            (\<lambda>(change_log, roll).
          and_then (update_canopy (gr_canopy acc) (gr_canopy_rest acc)
             (unat (hd_max_depth header)) None) (\<lambda>canopy.
          Inr (change_log, acc\<lparr>gr_roll := roll, gr_canopy := canopy\<rparr>)))))))"

definition init_gummyroll_with_root ::
  "hashv \<Rightarrow> pubkey \<Rightarrow> pubkey \<Rightarrow> pubkey \<Rightarrow> u64 \<Rightarrow> u32 \<Rightarrow> u32 \<Rightarrow> node \<Rightarrow> node \<Rightarrow> u32 \<Rightarrow>
   node list \<Rightarrow> account_data \<Rightarrow> (GummyrollError, change_log_event \<times> gummyroll_account) result" where
  "init_gummyroll_with_root H tree_id authority append_authority slot max_depth max_buffer_size
     root leaf index remaining_accounts data =
     (case data of
        Live _ \<Rightarrow> Inl (Err ConstraintZero)
      | Zeroed data_len \<Rightarrow>
          and_then (ensure (80 \<le> data_len) Panic) (\<lambda>_.
          and_then (header_initialize max_depth max_buffer_size authority append_authority slot
             zero_header) (\<lambda>header.
          and_then (zeroed_parts data_len header) (\<lambda>acc.
          and_then (fill_in_proof_from_canopy H (gr_canopy acc) (gr_canopy_rest acc)
             (unat (hd_max_depth header)) index remaining_accounts) (\<lambda>(canopy, proof).
          and_then (ensure (length proof = unat max_depth) Panic) (\<lambda>_.
          and_then (merkle_roll_apply_fn header tree_id (gr_roll acc)
             (\<lambda>d n. initialize_with_root H d n root leaf proof index)) (\<lambda>(change_log, roll).
          and_then (update_canopy canopy (gr_canopy_rest acc) (unat (hd_max_depth header))
             (Some change_log)) (\<lambda>canopy'.
          Inr (change_log, acc\<lparr>gr_roll := roll, gr_canopy := canopy'\<rparr>)))))))))"

text \<open>
  The instructions on a live tree that take a proof complete it from the canopy, apply the tree
  operation and update the canopy from the emitted change log.
\<close>

definition replace_leaf ::
  "hashv \<Rightarrow> pubkey \<Rightarrow> pubkey \<Rightarrow> node \<Rightarrow> node \<Rightarrow> node \<Rightarrow> u32 \<Rightarrow> node list \<Rightarrow> gummyroll_account \<Rightarrow>
   (GummyrollError, change_log_event \<times> gummyroll_account) result" where
  "replace_leaf H tree_id authority root previous_leaf new_leaf index remaining_accounts acc =
     (let header = gr_header acc
      in and_then (ensure (hd_authority header = authority) Panic) (\<lambda>_.
         and_then (merkle_roll_get_size header) (\<lambda>_.
         and_then (fill_in_proof_from_canopy H (gr_canopy acc) (gr_canopy_rest acc)
            (unat (hd_max_depth header)) index remaining_accounts) (\<lambda>(canopy, proof).
         and_then (merkle_roll_apply_fn header tree_id (gr_roll acc)
            (\<lambda>d n. set_leaf H d n root previous_leaf new_leaf proof index)) (\<lambda>(change_log, roll).
         and_then (update_canopy canopy (gr_canopy_rest acc) (unat (hd_max_depth header))
            (Some change_log)) (\<lambda>canopy'.
         Inr (change_log, acc\<lparr>gr_roll := roll, gr_canopy := canopy'\<rparr>)))))))"

definition transfer_authority ::
  "pubkey \<Rightarrow> pubkey option \<Rightarrow> pubkey option \<Rightarrow> gummyroll_account \<Rightarrow>
   (GummyrollError, gummyroll_account) result" where
  "transfer_authority authority new_authority new_append_authority acc =
     (let header = gr_header acc
      in and_then (ensure (hd_authority header = authority) Panic) (\<lambda>_.
         let header1 = (case new_authority of
               Some new_auth \<Rightarrow> header\<lparr>hd_authority := new_auth\<rparr> | None \<Rightarrow> header);
             header2 = (case new_append_authority of
               Some new_append_auth \<Rightarrow> header1\<lparr>hd_append_authority := new_append_auth\<rparr>
             | None \<Rightarrow> header1)
         in Inr (acc\<lparr>gr_header := header2\<rparr>)))"

definition verify_leaf ::
  "hashv \<Rightarrow> pubkey \<Rightarrow> node \<Rightarrow> node \<Rightarrow> u32 \<Rightarrow> node list \<Rightarrow> gummyroll_account \<Rightarrow>
   (GummyrollError, gummyroll_account) result" where
  "verify_leaf H tree_id root leaf index remaining_accounts acc =
     (let header = gr_header acc
      in and_then (merkle_roll_get_size header) (\<lambda>_.
         and_then (fill_in_proof_from_canopy H (gr_canopy acc) (gr_canopy_rest acc)
            (unat (hd_max_depth header)) index remaining_accounts) (\<lambda>(canopy, proof).
         and_then (merkle_roll_apply_fn header tree_id (gr_roll acc)
            (\<lambda>d n. prove_leaf H d n root leaf proof index)) (\<lambda>(_, roll).
         Inr (acc\<lparr>gr_roll := roll, gr_canopy := canopy\<rparr>)))))"

definition gummyroll_append ::
  "hashv \<Rightarrow> pubkey \<Rightarrow> pubkey \<Rightarrow> pubkey \<Rightarrow> node \<Rightarrow> gummyroll_account \<Rightarrow>
   (GummyrollError, change_log_event \<times> gummyroll_account) result" where
  "gummyroll_append H tree_id authority append_authority leaf acc =
     (let header = gr_header acc
      in and_then (ensure (hd_authority header = authority) Panic) (\<lambda>_.
         and_then (ensure (hd_append_authority header = append_authority) Panic) (\<lambda>_.
         and_then (merkle_roll_get_size header) (\<lambda>_.
         and_then (merkle_roll_apply_fn header tree_id (gr_roll acc)
            (\<lambda>d n. append_node H d n leaf)) (\<lambda>(change_log, roll).
         and_then (update_canopy (gr_canopy acc) (gr_canopy_rest acc) (unat (hd_max_depth header))
            (Some change_log)) (\<lambda>canopy.
         Inr (change_log, acc\<lparr>gr_roll := roll, gr_canopy := canopy\<rparr>)))))))"

definition insert_or_append ::
  "hashv \<Rightarrow> pubkey \<Rightarrow> pubkey \<Rightarrow> node \<Rightarrow> node \<Rightarrow> u32 \<Rightarrow> node list \<Rightarrow> gummyroll_account \<Rightarrow>
   (GummyrollError, change_log_event \<times> gummyroll_account) result" where
  "insert_or_append H tree_id authority root leaf index remaining_accounts acc =
     (let header = gr_header acc
      in and_then (ensure (hd_authority header = authority) Panic) (\<lambda>_.
         and_then (merkle_roll_get_size header) (\<lambda>_.
         and_then (fill_in_proof_from_canopy H (gr_canopy acc) (gr_canopy_rest acc)
            (unat (hd_max_depth header)) index remaining_accounts) (\<lambda>(canopy, proof).
         and_then (merkle_roll_apply_fn header tree_id (gr_roll acc)
            (\<lambda>d n. fill_empty_or_append H d n root leaf proof index)) (\<lambda>(change_log, roll).
         and_then (update_canopy canopy (gr_canopy_rest acc) (unat (hd_max_depth header))
            (Some change_log)) (\<lambda>canopy'.
         Inr (change_log, acc\<lparr>gr_roll := roll, gr_canopy := canopy'\<rparr>)))))))"

end
