(* ===== verification/Bubblegum.thy ===== *)
theory Bubblegum
  imports Leaf_Schema Gummyroll
begin

text \<open>
  \<open>contracts/programs/bubblegum\<close>: compressed NFTs as leaves of Gummyroll trees. The state is the
  accounts the program and its trees live in: the tree accounts, the \<open>Nonce\<close> accounts (one per tree,
  at the tree's authority address) and the voucher accounts. A handler takes the keys of the
  accounts it is called with and says which of them signed; Anchor's constraints (seeds, init, zero,
  close, initialized) are guards. \<open>pda seeds\<close> is the program address that \<open>find_program_address\<close>
  derives for the program; the tree authority is \<open>pda [merkle_slab]\<close> and signs the calls to
  Gummyroll. A handler returns the events it emits, in order, and the new accounts; a failure aborts
  the transaction. Logging through the candy wrapper, a program that does nothing, is left out.
\<close>

section \<open>State\<close>

datatype BubblegumError =
    AssetOwnerMismatch
  | PublicKeyMismatch
  | HashingMismatch
  | UnsupportedSchemaVersion
  | AccountConstraint
  | InvalidArgument
  | CpiError
  | GummyrollCpi GummyrollError

record bubblegum_accounts =
  ba_trees :: "pubkey \<rightharpoonup> account_data"
  ba_nonces :: "pubkey \<rightharpoonup> u64"
  ba_vouchers :: "pubkey \<rightharpoonup> voucher"

datatype bubblegum_event =
    ChangeLogEvent change_log_event
  | NewNFTEvent new_nft_event
  | LeafSchemaEvent leaf_schema_event
  | NFTDecompressionEvent nft_decompression_event

type_synonym pda = "bytes list \<Rightarrow> pubkey"
type_synonym bubblegum_result =
  "(BubblegumError, bubblegum_event list \<times> bubblegum_accounts) result"

section \<open>Utilities (utils.rs)\<close>

definition cmp_pubkeys :: "pubkey \<Rightarrow> pubkey \<Rightarrow> bool" where
  "cmp_pubkeys a b \<longleftrightarrow> a = b"

definition cmp_bytes :: "bytes \<Rightarrow> bytes \<Rightarrow> nat \<Rightarrow> bool" where
  "cmp_bytes a b n \<longleftrightarrow> take n a = take n b"

definition assert_pubkey_equal ::
  "pubkey \<Rightarrow> pubkey \<Rightarrow> BubblegumError option \<Rightarrow> (BubblegumError, unit) result" where
  "assert_pubkey_equal a b error =
     (if \<not> cmp_pubkeys a b then
        case error of Some err \<Rightarrow> Inl (Err err) | None \<Rightarrow> Inl (Err PublicKeyMismatch)
      else Inr ())"

definition get_asset_id :: "pda \<Rightarrow> pubkey \<Rightarrow> u64 \<Rightarrow> pubkey" where
  "get_asset_id pda tree_id nonce = pda [ASSET_PREFIX, tree_id, le_bytes 8 nonce]"

text \<open>The call to \<open>gummyroll::replace_leaf\<close>, signed by the tree authority.\<close>

definition live_tree :: "pubkey \<Rightarrow> bubblegum_accounts \<Rightarrow> (BubblegumError, gummyroll_account) result" where
  "live_tree merkle_slab w =
     (case ba_trees w merkle_slab of Some (Live acc) \<Rightarrow> Inr acc | _ \<Rightarrow> Inl (Err AccountConstraint))"

definition replace_leaf_cpi ::
  "hashv \<Rightarrow> pda \<Rightarrow> pubkey \<Rightarrow> node list \<Rightarrow> node \<Rightarrow> node \<Rightarrow> node \<Rightarrow> u32 \<Rightarrow> bubblegum_accounts \<Rightarrow>
   (BubblegumError, bubblegum_event \<times> bubblegum_accounts) result" where
  "replace_leaf_cpi H pda merkle_slab remaining_accounts root previous_leaf new_leaf index w =
     and_then (live_tree merkle_slab w) (\<lambda>acc.
     and_then (map_failure GummyrollCpi (replace_leaf H merkle_slab (pda [merkle_slab]) root
        previous_leaf new_leaf index remaining_accounts acc)) (\<lambda>(ev, acc').
     Inr (ChangeLogEvent ev, w\<lparr>ba_trees := (ba_trees w)(merkle_slab \<mapsto> Live acc')\<rparr>)))"

definition append_leaf ::
  "hashv \<Rightarrow> pda \<Rightarrow> pubkey \<Rightarrow> pubkey \<Rightarrow> node \<Rightarrow> bubblegum_accounts \<Rightarrow>
   (BubblegumError, bubblegum_event \<times> bubblegum_accounts) result" where
  "append_leaf H pda merkle_slab append_authority leaf_node w =
     and_then (live_tree merkle_slab w) (\<lambda>acc.
     and_then (map_failure GummyrollCpi (gummyroll_append H merkle_slab (pda [merkle_slab])
        append_authority leaf_node acc)) (\<lambda>(ev, acc').
     Inr (ChangeLogEvent ev, w\<lparr>ba_trees := (ba_trees w)(merkle_slab \<mapsto> Live acc')\<rparr>)))"

section \<open>Hashing metadata (lib.rs)\<close>

definition hash_metadata :: "hashv \<Rightarrow> (metadata_args \<Rightarrow> bytes) \<Rightarrow> metadata_args \<Rightarrow> node" where
  "hash_metadata H ser metadata = H [ser metadata]"

definition hash_creators :: "hashv \<Rightarrow> creator list \<Rightarrow> node" where
  "hash_creators H creators = H (map (\<lambda>c. cr_address c @ [cr_share c]) creators)"

datatype InstructionName =
    UnknownInstruction | MintV1Ins | RedeemIns | CancelRedeemIns | TransferIns | DelegateIns
  | DecompressV1Ins | CompressIns | BurnIns

definition get_instruction_type :: "bytes \<Rightarrow> ('e, InstructionName) result" where
  "get_instruction_type full_bytes =
     and_then (ensure (8 \<le> length full_bytes) Panic) (\<lambda>_.
     let disc = take 8 full_bytes
     in Inr (if disc = [145, 98, 192, 118, 184, 147, 118, 104] then MintV1Ins
        else if disc = [111, 76, 232, 50, 39, 175, 48, 242] then CancelRedeemIns
        else if disc = [184, 12, 86, 149, 70, 196, 97, 225] then RedeemIns
        else if disc = [163, 52, 200, 231, 140, 3, 69, 186] then TransferIns
        else if disc = [90, 147, 75, 178, 85, 88, 4, 137] then DelegateIns
        else if disc = [54, 85, 76, 70, 228, 250, 164, 81] then DecompressV1Ins
        else if disc = [116, 110, 29, 56, 107, 219, 42, 93] then BurnIns
        else if disc = [82, 193, 176, 117, 176, 21, 115, 253] then CompressIns
        else UnknownInstruction))"

section \<open>Instructions\<close>

text \<open>The account constraint on \<open>authority\<close>: the initialized \<open>Nonce\<close> account of the tree.\<close>

definition authority_nonce :: "pda \<Rightarrow> pubkey \<Rightarrow> bubblegum_accounts \<Rightarrow> (BubblegumError, u64) result" where
  "authority_nonce pda merkle_slab w = ok_or (ba_nonces w (pda [merkle_slab])) (Err AccountConstraint)"

definition voucher_key :: "pda \<Rightarrow> pubkey \<Rightarrow> u64 \<Rightarrow> pubkey" where
  "voucher_key pda merkle_slab nonce = pda [VOUCHER_PREFIX, merkle_slab, le_bytes 8 nonce]"

definition create_tree ::
  "hashv \<Rightarrow> pda \<Rightarrow> u64 \<Rightarrow> pubkey \<Rightarrow> pubkey \<Rightarrow> u32 \<Rightarrow> u32 \<Rightarrow> bubblegum_accounts \<Rightarrow> bubblegum_result" where
  "create_tree H pda clock_slot merkle_slab tree_creator max_depth max_buffer_size w =
     and_then (ensure (ba_nonces w (pda [merkle_slab]) = None) (Err AccountConstraint)) (\<lambda>_.
     and_then (ok_or (ba_trees w merkle_slab) (Err AccountConstraint)) (\<lambda>data.
     and_then (map_failure GummyrollCpi (init_empty_gummyroll H merkle_slab (pda [merkle_slab])
        tree_creator clock_slot max_depth max_buffer_size data)) (\<lambda>(ev, acc).
     Inr ([ChangeLogEvent ev],
          w\<lparr>ba_trees := (ba_trees w)(merkle_slab \<mapsto> Live acc),
            ba_nonces := (ba_nonces w)(pda [merkle_slab] \<mapsto> 0)\<rparr>))))"

definition mint_v1 ::
  "hashv \<Rightarrow> pda \<Rightarrow> (metadata_args \<Rightarrow> bytes) \<Rightarrow> pubkey \<Rightarrow> pubkey \<Rightarrow> pubkey \<Rightarrow> pubkey \<Rightarrow>
   metadata_args \<Rightarrow> bubblegum_accounts \<Rightarrow> bubblegum_result" where
  "mint_v1 H pda ser merkle_slab mint_authority owner delegate message w =
     and_then (authority_nonce pda merkle_slab w) (\<lambda>count.
     let data_hash = H [ser message];
         creator_hash = hash_creators H (ma_creators message);
         asset_id = get_asset_id pda merkle_slab count;
         leaf = leaf_new_v0 asset_id owner delegate count data_hash creator_hash;
         new_nft = \<lparr>nn_version = V1, nn_metadata = message, nn_nonce = count\<rparr>;
         w1 = w\<lparr>ba_nonces := (ba_nonces w)(pda [merkle_slab] \<mapsto> saturating_add count 1)\<rparr>
     in and_then (append_leaf H pda merkle_slab mint_authority (leaf_to_node H leaf) w1) (\<lambda>(ev, w2).
        Inr ([NewNFTEvent new_nft, LeafSchemaEvent (leaf_to_event H leaf), ev], w2)))"

definition transfer ::
  "hashv \<Rightarrow> pda \<Rightarrow> pubkey \<Rightarrow> pubkey \<Rightarrow> bool \<Rightarrow> pubkey \<Rightarrow> bool \<Rightarrow> pubkey \<Rightarrow> node list \<Rightarrow> node \<Rightarrow> node \<Rightarrow>
   node \<Rightarrow> u64 \<Rightarrow> u32 \<Rightarrow> bubblegum_accounts \<Rightarrow> bubblegum_result" where
  "transfer H pda merkle_slab owner owner_signs delegate delegate_signs new_owner remaining_accounts
     root data_hash creator_hash nonce index w =
     and_then (authority_nonce pda merkle_slab w) (\<lambda>_.
     and_then (ensure (owner_signs \<or> delegate_signs) Panic) (\<lambda>_.
     let asset_id = get_asset_id pda merkle_slab nonce;
         previous_leaf = leaf_new_v0 asset_id owner delegate nonce data_hash creator_hash;
         new_leaf = leaf_new_v0 asset_id new_owner new_owner nonce data_hash creator_hash
     in and_then (replace_leaf_cpi H pda merkle_slab remaining_accounts root
          (leaf_to_node H previous_leaf) (leaf_to_node H new_leaf) index w) (\<lambda>(ev, w').
        Inr ([LeafSchemaEvent (leaf_to_event H new_leaf), ev], w'))))"

text \<open>The instruction \<open>delegate\<close>; its account \<open>owner\<close> is a signer.\<close>

definition delegate_leaf ::
  "hashv \<Rightarrow> pda \<Rightarrow> pubkey \<Rightarrow> pubkey \<Rightarrow> pubkey \<Rightarrow> pubkey \<Rightarrow> node list \<Rightarrow> node \<Rightarrow> node \<Rightarrow>
   node \<Rightarrow> u64 \<Rightarrow> u32 \<Rightarrow> bubblegum_accounts \<Rightarrow> bubblegum_result" where
  "delegate_leaf H pda merkle_slab owner previous_delegate new_delegate remaining_accounts
     root data_hash creator_hash nonce index w =
     and_then (authority_nonce pda merkle_slab w) (\<lambda>_.
     let asset_id = get_asset_id pda merkle_slab nonce;
         previous_leaf = leaf_new_v0 asset_id owner previous_delegate nonce data_hash creator_hash;
         new_leaf = leaf_new_v0 asset_id owner new_delegate nonce data_hash creator_hash
     in and_then (replace_leaf_cpi H pda merkle_slab remaining_accounts root
          (leaf_to_node H previous_leaf) (leaf_to_node H new_leaf) index w) (\<lambda>(ev, w').
        Inr ([LeafSchemaEvent (leaf_to_event H new_leaf), ev], w')))"

definition burn ::
  "hashv \<Rightarrow> pda \<Rightarrow> pubkey \<Rightarrow> pubkey \<Rightarrow> bool \<Rightarrow> pubkey \<Rightarrow> bool \<Rightarrow> node list \<Rightarrow> node \<Rightarrow> node \<Rightarrow>
   node \<Rightarrow> u64 \<Rightarrow> u32 \<Rightarrow> bubblegum_accounts \<Rightarrow> bubblegum_result" where
  "burn H pda merkle_slab owner owner_signs delegate delegate_signs remaining_accounts
     root data_hash creator_hash nonce index w =
     and_then (authority_nonce pda merkle_slab w) (\<lambda>_.
     and_then (ensure (owner_signs \<or> delegate_signs) Panic) (\<lambda>_.
     let asset_id = get_asset_id pda merkle_slab nonce;
         previous_leaf = leaf_new_v0 asset_id owner delegate nonce data_hash creator_hash
     in and_then (replace_leaf_cpi H pda merkle_slab remaining_accounts root
          (leaf_to_node H previous_leaf) EMPTY index w) (\<lambda>(ev, w').
        Inr ([LeafSchemaEvent (leaf_to_event H previous_leaf), ev], w'))))"

text \<open>The account \<open>owner\<close> of \<open>redeem\<close> is a signer; the voucher account must not exist yet.\<close>

definition redeem ::
  "hashv \<Rightarrow> pda \<Rightarrow> pubkey \<Rightarrow> pubkey \<Rightarrow> pubkey \<Rightarrow> node list \<Rightarrow> node \<Rightarrow> node \<Rightarrow>
   node \<Rightarrow> u64 \<Rightarrow> u32 \<Rightarrow> bubblegum_accounts \<Rightarrow> bubblegum_result" where
  "redeem H pda merkle_slab owner delegate remaining_accounts root data_hash creator_hash nonce
     index w =
     and_then (authority_nonce pda merkle_slab w) (\<lambda>_.
     and_then (ensure (ba_vouchers w (voucher_key pda merkle_slab nonce) = None)
        (Err AccountConstraint)) (\<lambda>_.
     let asset_id = get_asset_id pda merkle_slab nonce;
         previous_leaf = leaf_new_v0 asset_id owner delegate nonce data_hash creator_hash
     in and_then (replace_leaf_cpi H pda merkle_slab remaining_accounts root
          (leaf_to_node H previous_leaf) EMPTY index w) (\<lambda>(ev, w').
        Inr ([LeafSchemaEvent (leaf_to_event H previous_leaf), ev],
             w'\<lparr>ba_vouchers := (ba_vouchers w')(voucher_key pda merkle_slab nonce \<mapsto>
               voucher_new previous_leaf index merkle_slab)\<rparr>))))"

text \<open>
  The account \<open>owner\<close> of \<open>cancel_redeem\<close> is a signer; the voucher account \<open>voucher_id\<close> must be at
  the address derived from the tree passed in and the voucher's nonce, and is closed.
\<close>

definition cancel_redeem ::
  "hashv \<Rightarrow> pda \<Rightarrow> pubkey \<Rightarrow> pubkey \<Rightarrow> pubkey \<Rightarrow> node list \<Rightarrow> node \<Rightarrow> bubblegum_accounts \<Rightarrow>
   bubblegum_result" where
  "cancel_redeem H pda merkle_slab voucher_id owner remaining_accounts root w =
     and_then (authority_nonce pda merkle_slab w) (\<lambda>_.
     and_then (ok_or (ba_vouchers w voucher_id) (Err AccountConstraint)) (\<lambda>voucher.
     let schema = vo_leaf_schema voucher
     in and_then (ensure (voucher_id = voucher_key pda merkle_slab (ls_nonce schema))
          (Err AccountConstraint)) (\<lambda>_.
        and_then (assert_pubkey_equal owner (ls_owner schema) (Some AssetOwnerMismatch)) (\<lambda>_.
        and_then (replace_leaf_cpi H pda merkle_slab remaining_accounts root EMPTY
           (leaf_to_node H schema) (vo_index voucher) w) (\<lambda>(ev, w').
        Inr ([LeafSchemaEvent (leaf_to_event H schema), ev],
             w'\<lparr>ba_vouchers := (ba_vouchers w')(voucher_id := None)\<rparr>))))))"

definition compress :: "bubblegum_accounts \<Rightarrow> bubblegum_result" where
  "compress w = Inr ([], w)"

section \<open>Decompression\<close>

text \<open>
  The metadata in the types of the token metadata program, and the calls \<open>decompress_v1\<close> makes to
  the system, token, associated token and token metadata programs. These programs are not part of
  the sources: \<open>invoke\<close> is the effect of a call on their accounts (\<open>None\<close> if it fails), \<open>data_is_empty\<close>
  reads an account of theirs and \<open>rent\<close> is the rent exempt balance of a mint account.
\<close>

record mpl_creator =
  mc_address :: pubkey
  mc_verified :: bool
  mc_share :: u8

definition creator_adapt :: "creator \<Rightarrow> mpl_creator" where
  "creator_adapt c =
     \<lparr>mc_address = cr_address c, mc_verified = cr_verified c, mc_share = cr_share c\<rparr>"

datatype mpl_use_method = MplBurn | MplMultiple | MplSingle

record mpl_uses =
  mu_use_method :: mpl_use_method
  mu_remaining :: u64
  mu_total :: u64

definition uses_adapt :: "uses \<Rightarrow> mpl_uses" where
  "uses_adapt u =
     \<lparr>mu_use_method = (case us_use_method u of
        UseBurn \<Rightarrow> MplBurn | Multiple \<Rightarrow> MplMultiple | Single \<Rightarrow> MplSingle),
      mu_remaining = us_remaining u, mu_total = us_total u\<rparr>"

record mpl_collection =
  ml_verified :: bool
  ml_key :: pubkey

definition collection_adapt :: "collection \<Rightarrow> mpl_collection" where
  "collection_adapt c = \<lparr>ml_verified = co_verified c, ml_key = co_key c\<rparr>"

datatype token_cpi =
    CreateAccount pubkey pubkey u64 nat "bytes list"
  | InitializeMint2 pubkey pubkey "pubkey option" u8
  | CreateAssociatedTokenAccount pubkey pubkey pubkey
  | MintTo pubkey pubkey pubkey u64 "bytes list"
  | CreateMetadataAccountsV2 pubkey pubkey pubkey pubkey pubkey string string string
      "mpl_creator list option" u16 bool bool "mpl_collection option" "mpl_uses option" "bytes list"
  | CreateMasterEditionV3 pubkey pubkey pubkey pubkey pubkey pubkey "u64 option" "bytes list"

definition cpi :: "(token_cpi \<Rightarrow> 'x \<Rightarrow> 'x option) \<Rightarrow> token_cpi \<Rightarrow> 'x \<Rightarrow> (BubblegumError, 'x) result" where
  "cpi invoke c x = ok_or (invoke c x) (Err CpiError)"

text \<open>Creating the mint and the token account if they do not exist, and minting one token.\<close>

definition mint_original ::
  "(token_cpi \<Rightarrow> 'x \<Rightarrow> 'x option) \<Rightarrow> (pubkey \<Rightarrow> 'x \<Rightarrow> bool) \<Rightarrow> u64 \<Rightarrow> voucher \<Rightarrow> pubkey \<Rightarrow> pubkey \<Rightarrow>
   pubkey \<Rightarrow> pubkey \<Rightarrow> 'x \<Rightarrow> (BubblegumError, 'x) result" where
  "mint_original invoke data_is_empty rent voucher owner token_account mint mint_authority x =
     (let nonce = le_bytes 8 (ls_nonce (vo_leaf_schema voucher))
      in and_then
          (if data_is_empty mint x then
             and_then (cpi invoke (CreateAccount owner mint rent 82
               [ASSET_PREFIX, vo_merkle_slab voucher, nonce]) x) (\<lambda>x.
             cpi invoke (InitializeMint2 mint mint_authority None 0) x)
           else Inr x) (\<lambda>x.
         and_then
          (if data_is_empty token_account x
           then cpi invoke (CreateAssociatedTokenAccount owner owner mint) x else Inr x) (\<lambda>x.
         cpi invoke (MintTo mint token_account mint_authority 1 [mint]) x)))"

definition decompress_v1 ::
  "hashv \<Rightarrow> pda \<Rightarrow> (metadata_args \<Rightarrow> bytes) \<Rightarrow> (token_cpi \<Rightarrow> 'x \<Rightarrow> 'x option) \<Rightarrow>
   (pubkey \<Rightarrow> 'x \<Rightarrow> bool) \<Rightarrow> u64 \<Rightarrow> pubkey \<Rightarrow> pubkey \<Rightarrow> pubkey \<Rightarrow> pubkey \<Rightarrow> pubkey \<Rightarrow> pubkey \<Rightarrow>
   pubkey \<Rightarrow> metadata_args \<Rightarrow> bubblegum_accounts \<times> 'x \<Rightarrow>
   (BubblegumError, bubblegum_event list \<times> bubblegum_accounts \<times> 'x) result" where
  "decompress_v1 H pda ser invoke data_is_empty rent voucher_id owner token_account mint
     mint_authority metadata_id master_edition metadata wx =
     (let (w, x) = wx
      in and_then (ok_or (ba_vouchers w voucher_id) (Err AccountConstraint)) (\<lambda>voucher.
     let schema = vo_leaf_schema voucher; slab = vo_merkle_slab voucher; nonce = ls_nonce schema
     in and_then (ensure (voucher_id = voucher_key pda slab nonce) (Err AccountConstraint)) (\<lambda>_.
        and_then (ensure (mint = pda [ASSET_PREFIX, slab, le_bytes 8 nonce])
          (Err AccountConstraint)) (\<lambda>_.
        and_then (ensure (mint_authority = pda [mint]) (Err AccountConstraint)) (\<lambda>_.
        and_then (ensure (cmp_bytes (ls_data_hash schema) (hash_metadata H ser metadata) 32)
          (Err HashingMismatch)) (\<lambda>_.
        and_then (ensure (cmp_pubkeys (ls_owner schema) owner) (Err AssetOwnerMismatch)) (\<lambda>_.
        and_then (case ma_token_program_version metadata of
            Original \<Rightarrow> mint_original invoke data_is_empty rent voucher owner token_account mint
              mint_authority x
          | Token2022 \<Rightarrow> Inl (Err InvalidArgument)) (\<lambda>x.
        and_then (cpi invoke (CreateMetadataAccountsV2 metadata_id mint mint_authority owner
            mint_authority (ma_name metadata) (ma_symbol metadata) (ma_uri metadata)
            (if 0 < length (ma_creators metadata)
             then Some (map creator_adapt (ma_creators metadata)) else None)
            (ma_seller_fee_basis_points metadata) True (ma_is_mutable metadata)
            (map_option collection_adapt (ma_collection metadata))
            (map_option uses_adapt (ma_uses metadata)) [mint]) x) (\<lambda>x.
        and_then (cpi invoke (CreateMasterEditionV3 master_edition mint mint_authority mint_authority
            metadata_id owner (Some 0) [mint]) x) (\<lambda>x.
        Inr ([NFTDecompressionEvent \<lparr>nd_version = V1, nd_id = get_asset_id pda slab nonce,
                nd_tree_id = slab, nd_nonce = nonce\<rparr>],
             w\<lparr>ba_vouchers := (ba_vouchers w)(voucher_id := None)\<rparr>, x)))))))))))"

end
