(* ===== verification/Gumball_Machine.thy ===== *)
theory Gumball_Machine
  imports Gumball_State Bubblegum
begin

text \<open>
  \<open>contracts/programs/gumball-machine/src/lib.rs\<close>: a machine that sells randomly chosen items of a
  collection as compressed NFTs. Its account holds a header, the array of item indices and the
  config lines; minting goes through Bubblegum, whose accounts are part of the state of the
  handlers. A failed \<open>assert!\<close> is a panic. Lamports and the accounts of the token program belong to
  other programs: \<open>pay\<close> is the effect of a payment on them.
\<close>

section \<open>The environment\<close>

text \<open>
  What the program uses of other code: keccak, the program addresses of Bubblegum and of this
  program, the encoding of metadata, the id of this program and of the compute budget program, the
  reading of an instruction's program id from the instructions account, base 58 encoding and the
  mint of wrapped SOL.
\<close>

record gumball_env =
  ge_hashv :: hashv
  ge_bubblegum_pda :: pda
  ge_pda :: pda
  ge_ser :: "metadata_args \<Rightarrow> bytes"
  ge_id :: pubkey
  ge_compute_budget_id :: pubkey
  ge_load_instruction_at :: "nat \<Rightarrow> bytes \<Rightarrow> pubkey option"
  ge_bs58_encode :: "bytes \<Rightarrow> string"
  ge_native_mint :: pubkey

datatype GumballError =
    GumballAccountConstraint
  | InvalidInstructionData
  | InvalidAccountData
  | PaymentFailed
  | BubblegumCpi BubblegumError

text \<open>The address that signs for the machine: \<open>willy_wonka\<close>.\<close>

definition willy_wonka :: "gumball_env \<Rightarrow> pubkey \<Rightarrow> pubkey" where
  "willy_wonka E gumball_machine = ge_pda E [gumball_machine]"

definition MAX_NUM_INDICES_TO_INIT_FOR_CHUNK :: u32 where
  "MAX_NUM_INDICES_TO_INIT_FOR_CHUNK = 250000"

section \<open>Guards\<close>

definition assert_valid_single_instruction_transaction ::
  "gumball_env \<Rightarrow> bytes \<Rightarrow> (GumballError, unit) result" where
  "assert_valid_single_instruction_transaction E instruction_sysvar =
     and_then (slice_range instruction_sysvar 0 2) (\<lambda>fixed_data.
     let num_instructions = (of_nat (from_le_bytes fixed_data) :: u16)
     in if num_instructions > 2 then Inl Panic
        else if num_instructions = 2 then
          and_then (ok_or (ge_load_instruction_at E 0 instruction_sysvar) (Err InvalidInstructionData))
            (\<lambda>compute_budget_program.
          and_then (ensure (compute_budget_program = ge_compute_budget_id E) Panic) (\<lambda>_.
          and_then (ok_or (ge_load_instruction_at E 1 instruction_sysvar) (Err InvalidInstructionData))
            (\<lambda>current_program.
          ensure (current_program = ge_id E) Panic)))
        else if num_instructions = 1 then
          and_then (ok_or (ge_load_instruction_at E 0 instruction_sysvar) (Err InvalidInstructionData))
            (\<lambda>only_program.
          ensure (only_program = ge_id E) Panic)
        else Inr ())"

section \<open>Choosing an item\<close>

definition fisher_yates_shuffle_and_fetch_nft_metadata ::
  "gumball_env \<Rightarrow> bytes \<Rightarrow> gumball_machine_header \<Rightarrow> u32 list \<Rightarrow> nat \<Rightarrow> bytes \<Rightarrow>
   (GumballError, metadata_args \<times> gumball_machine_header \<times> u32 list) result" where
  "fisher_yates_shuffle_and_fetch_nft_metadata E recent_blockhashes gumball_header indices line_size
     config_lines_data =
     (let buf = take 4 (ge_hashv E [recent_blockhashes, le_bytes 4 (gh_remaining gumball_header)]);
          entropy = (of_nat (from_le_bytes buf) :: u32)
      in and_then (ensure (gh_remaining gumball_header \<noteq> 0) Panic) (\<lambda>_.
     let selected = entropy mod gh_remaining gumball_header;
         remaining = gh_remaining gumball_header - 1;
         gumball_header' = gumball_header\<lparr>gh_remaining := remaining\<rparr>
     in and_then (swap indices (unat selected) (unat remaining)) (\<lambda>indices'.
     let zero_nft_index = unat (indices' ! unat remaining);
         nft_index = zero_nft_index + 1
     in and_then (usize_mul zero_nft_index line_size) (\<lambda>random_config_index.
        and_then (if length config_lines_data > 0
            then slice_range config_lines_data random_config_index (random_config_index + line_size)
            else Inr (le_bytes 8 (of_nat nft_index :: u64))) (\<lambda>config_line.
        and_then (encode_method_from (gh_config_line_encode_method gumball_header')) (\<lambda>encode_method.
        and_then (get_metadata_args (ge_bs58_encode E) (gh_url_base gumball_header')
            (gh_name_base gumball_header') (gh_symbol gumball_header')
            (gh_seller_fee_basis_points gumball_header') (gh_is_mutable gumball_header' \<noteq> 0)
            (gh_collection_key gumball_header') None (gh_creators gumball_header') nft_index
            config_line encode_method) (\<lambda>message.
        Inr (message, gumball_header', indices'))))))))"

text \<open>The loop of \<open>find_and_mint_compressed_nfts\<close>: choose an item, then mint it for the payer.\<close>

fun mint_loop ::
  "nat \<Rightarrow> gumball_env \<Rightarrow> pubkey \<Rightarrow> pubkey \<Rightarrow> bytes \<Rightarrow> pubkey \<Rightarrow> nat \<Rightarrow> bytes \<Rightarrow>
   gumball_machine_header \<Rightarrow> u32 list \<Rightarrow> bubblegum_accounts \<Rightarrow>
   (GumballError, bubblegum_event list \<times> gumball_machine_header \<times> u32 list \<times> bubblegum_accounts) result"
where
  "mint_loop 0 E gumball_machine payer recent_blockhashes merkle_slab line_size config_lines_data
     h indices w = Inr ([], h, indices, w)"
| "mint_loop (Suc n) E gumball_machine payer recent_blockhashes merkle_slab line_size config_lines_data
     h indices w =
     and_then (fisher_yates_shuffle_and_fetch_nft_metadata E recent_blockhashes h indices line_size
        config_lines_data) (\<lambda>(message, h', indices').
     and_then (map_failure BubblegumCpi (mint_v1 (ge_hashv E) (ge_bubblegum_pda E) (ge_ser E)
        merkle_slab (willy_wonka E gumball_machine) payer payer message w)) (\<lambda>(evs, w').
     and_then (mint_loop n E gumball_machine payer recent_blockhashes merkle_slab line_size
        config_lines_data h' indices' w') (\<lambda>(evs', r).
     Inr (evs @ evs', r))))"

text \<open>
  The result has the events, the number of items minted, the machine and the accounts of Bubblegum.
\<close>

definition find_and_mint_compressed_nfts ::
  "gumball_env \<Rightarrow> pubkey \<Rightarrow> pubkey \<Rightarrow> bytes \<Rightarrow> bytes \<Rightarrow> u64 \<Rightarrow> pubkey \<Rightarrow> u32 \<Rightarrow>
   gumball_account \<times> bubblegum_accounts \<Rightarrow>
   (GumballError, bubblegum_event list \<times> u32 \<times> gumball_account \<times> bubblegum_accounts) result" where
  "find_and_mint_compressed_nfts E gumball_machine payer recent_blockhashes instruction_sysvar
     unix_timestamp merkle_slab num_items gw =
     (let (gm, w) = gw; h = gm_header gm; config_data = gm_config_data gm
      in and_then (assert_valid_single_instruction_transaction E instruction_sysvar) (\<lambda>_.
     and_then (ensure (gh_max_items h = gh_smallest_uninitialized_index h) Panic) (\<lambda>_.
     and_then (ensure (num_items \<le> gh_max_mint_size h) Panic) (\<lambda>_.
     and_then (ensure (sint unix_timestamp > sint (gh_go_live_date h)) Panic) (\<lambda>_.
     let size = unat (gh_max_items h)
     in and_then (usize_mul 4 size) (\<lambda>index_array_size.
        and_then (usize_mul (unat (gh_extension_len h)) size) (\<lambda>config_size.
        let line_size = unat (gh_extension_len h)
        in and_then (usize_add index_array_size config_size) (\<lambda>total.
           and_then (ensure (length config_data = total) Panic) (\<lambda>_.
           and_then (split_at config_data index_array_size) (\<lambda>(indices_data, config_lines_data).
           let indices = cast_u32 indices_data;
               num_nfts_to_mint = min (max num_items 1) (gh_remaining h)
           in and_then (ensure (num_nfts_to_mint > 0) Panic) (\<lambda>_.
              and_then (mint_loop (unat num_nfts_to_mint) E gumball_machine payer recent_blockhashes
                 merkle_slab line_size config_lines_data h indices w) (\<lambda>(evs, h', indices', w').
              Inr (evs, num_nfts_to_mint,
                \<lparr>gm_header = h', gm_config_data = uncast_u32 indices' @ config_lines_data\<rparr>,
                w')))))))))))))"

section \<open>Instructions\<close>

definition add_creators :: "pubkey list \<Rightarrow> u8 list \<Rightarrow> gumball_creator_adapter list" where
  "add_creators creator_keys creator_shares =
     map (\<lambda>(k, s). \<lparr>gc_address = k, gc_verified = 1, gc_share = s\<rparr>) (zip creator_keys creator_shares) @
     replicate (NUM_CREATORS - length creator_keys) gumball_creator_default"

text \<open>
  The \<open>zero\<close> constraint on the machine's account reads its first 8 bytes, where the header has its
  base URL. \<open>creator_shares.iter().sum::<u8>()\<close> panics on overflow, the assertion above 100.
\<close>

definition initialize_gumball_machine ::
  "gumball_env \<Rightarrow> u64 \<Rightarrow> pubkey \<Rightarrow> pubkey \<Rightarrow> pubkey \<Rightarrow> u32 \<Rightarrow> u32 \<Rightarrow> bytes \<Rightarrow> bytes \<Rightarrow> bytes \<Rightarrow>
   EncodeMethod option \<Rightarrow> u16 \<Rightarrow> bool \<Rightarrow> bool \<Rightarrow> u64 \<Rightarrow> u64 \<Rightarrow> pubkey \<Rightarrow> pubkey \<Rightarrow> pubkey \<Rightarrow>
   pubkey \<Rightarrow> u64 \<Rightarrow> u32 \<Rightarrow> u32 \<Rightarrow> pubkey list \<Rightarrow> u8 list \<Rightarrow>
   gumball_account \<times> bubblegum_accounts \<Rightarrow>
   (GumballError, bubblegum_event list \<times> gumball_account \<times> bubblegum_accounts) result" where
  "initialize_gumball_machine E clock_slot gumball_machine mint merkle_slab max_depth max_buffer_size
     url_base name_base symbol encode_method seller_fee_basis_points is_mutable retain_authority price
     go_live_date bot_wallet receiver authority collection_key extension_len max_mint_size max_items
     creator_keys creator_shares gw =
     (let (gm, w) = gw; config_data = gm_config_data gm; size = unat max_items
      in and_then (ensure (take 8 (gh_url_base (gm_header gm)) = replicate 8 0)
        (Err GumballAccountConstraint)) (\<lambda>_.
     and_then (ensure (length creator_keys = length creator_shares) Panic) (\<lambda>_.
     and_then (ensure (length creator_keys < NUM_CREATORS) Panic) (\<lambda>_.
     and_then (ensure (sum_list (map unat creator_shares) < 2 ^ 8) Panic) (\<lambda>_.
     and_then (ensure (sum_list (map unat creator_shares) \<le> 100) Panic) (\<lambda>_.
     let header = \<lparr>
         gh_url_base = url_base,
         gh_name_base = name_base,
         gh_symbol = symbol,
         gh_seller_fee_basis_points = seller_fee_basis_points,
         gh_is_mutable = of_bool is_mutable,
         gh_retain_authority = of_bool retain_authority,
         gh_config_line_encode_method = (case encode_method of
             Some e \<Rightarrow> encode_method_to_u8 e | None \<Rightarrow> encode_method_to_u8 UTF8),
         gh_creators = add_creators creator_keys creator_shares,
         gh_price = price,
         gh_go_live_date = go_live_date,
         gh_mint = mint,
         gh_bot_wallet = bot_wallet,
         gh_receiver = receiver,
         gh_authority = authority,
         gh_collection_key = collection_key,
         gh_extension_len = extension_len,
         gh_max_mint_size = min (max max_mint_size 1) max_items,
         gh_remaining = 0,
         gh_max_items = max_items,
         gh_total_items_added = 0,
         gh_smallest_uninitialized_index = 0\<rparr>
     in and_then (usize_mul 4 size) (\<lambda>index_array_size.
        and_then (usize_mul (unat extension_len) size) (\<lambda>config_size.
        and_then (usize_add index_array_size config_size) (\<lambda>total.
        and_then (ensure (length config_data = total) Panic) (\<lambda>_.
        and_then (map_failure BubblegumCpi (create_tree (ge_hashv E) (ge_bubblegum_pda E) clock_slot
           merkle_slab (willy_wonka E gumball_machine) max_depth max_buffer_size w)) (\<lambda>(evs, w').
        Inr (evs, gm\<lparr>gm_header := header\<rparr>, w'))))))))))))"

text \<open>Overwriting the indices \<open>first\<close> up to \<open>next\<close> with their positions.\<close>

definition write_indices :: "nat \<Rightarrow> nat \<Rightarrow> u32 list \<Rightarrow> (GumballError, u32 list) result" where
  "write_indices first next indices =
     (if first \<le> next \<and> next \<le> length indices
      then Inr (take first indices @ map of_nat [first..<next] @ drop next indices) else Inl Panic)"

definition initialize_indices_chunk ::
  "pubkey \<Rightarrow> gumball_account \<Rightarrow> (GumballError, gumball_account) result" where
  "initialize_indices_chunk authority gm =
     (let h = gm_header gm; size = unat (gh_max_items h)
      in and_then (ensure (gh_authority h = authority) Panic) (\<lambda>_.
     and_then (usize_mul 4 size) (\<lambda>index_array_size.
     and_then (split_at (gm_config_data gm) index_array_size) (\<lambda>(indices_data, config_lines_data).
     let indices = cast_u32 indices_data;
         first_index_to_initialize = unat (gh_smallest_uninitialized_index h)
     in and_then (ok_or (checked_add (gh_smallest_uninitialized_index h)
           MAX_NUM_INDICES_TO_INIT_FOR_CHUNK) Panic) (\<lambda>bound.
        let next_smallest_uninitialized_index = min bound (gh_max_items h)
        in and_then (write_indices first_index_to_initialize (unat next_smallest_uninitialized_index)
             indices) (\<lambda>indices'.
        let h1 = h\<lparr>gh_smallest_uninitialized_index := next_smallest_uninitialized_index\<rparr>;
            h2 = (if gh_extension_len h1 = 0 then h1\<lparr>gh_remaining := gh_max_items h1\<rparr> else h1)
        in Inr \<lparr>gm_header = h2, gm_config_data = uncast_u32 indices' @ config_lines_data\<rparr>))))))"

text \<open>
  Writing \<open>new\<close> over the bytes from \<open>start\<close> on, stopping at the end of the array: slicing from
  \<open>start\<close> panics out of range, \<open>iter_mut().take(..)\<close> writes at most the bytes that are there.
\<close>

definition overwrite :: "bytes \<Rightarrow> nat \<Rightarrow> bytes \<Rightarrow> (GumballError, bytes) result" where
  "overwrite old start new =
     (if start \<le> length old
      then Inr (take start old @ take (length old - start) new @ drop (start + length new) old)
      else Inl Panic)"

definition add_config_lines ::
  "pubkey \<Rightarrow> bytes \<Rightarrow> gumball_account \<Rightarrow> (GumballError, gumball_account) result" where
  "add_config_lines authority new_config_lines_data gm =
     (let h = gm_header gm; size = unat (gh_max_items h)
      in and_then (usize_mul 4 size) (\<lambda>index_array_size.
     let line_size = unat (gh_extension_len h)
     in and_then (ensure (line_size \<noteq> 0) Panic) (\<lambda>_.
     let num_lines = length new_config_lines_data div line_size;
         start_index = unat (gh_total_items_added h)
     in and_then (ensure (gh_authority h = authority) Panic) (\<lambda>_.
        and_then (ensure (length new_config_lines_data mod line_size = 0) Panic) (\<lambda>_.
        and_then (usize_add start_index num_lines) (\<lambda>end_index.
        and_then (ensure (end_index \<le> unat (gh_max_items h)) Panic) (\<lambda>_.
        and_then (split_at (gm_config_data gm) index_array_size) (\<lambda>(indices_data, config_lines_data).
        and_then (overwrite config_lines_data start_index new_config_lines_data) (\<lambda>config_lines_data'.
        and_then (ok_or (checked_add (gh_total_items_added h) (of_nat num_lines)) Panic) (\<lambda>total.
        and_then (ok_or (checked_add (gh_remaining h) (of_nat num_lines)) Panic) (\<lambda>remaining.
        Inr \<lparr>gm_header = h\<lparr>gh_total_items_added := total, gh_remaining := remaining\<rparr>,
             gm_config_data = indices_data @ config_lines_data'\<rparr>)))))))))))"

definition update_config_lines ::
  "pubkey \<Rightarrow> u64 \<Rightarrow> bytes \<Rightarrow> gumball_account \<Rightarrow> (GumballError, gumball_account) result" where
  "update_config_lines authority starting_line new_config_lines_data gm =
     (let h = gm_header gm; config_data = gm_config_data gm; size = unat (gh_max_items h)
      in and_then (usize_mul 4 size) (\<lambda>index_array_size.
     and_then (usize_mul (unat (gh_extension_len h)) size) (\<lambda>config_size.
     let line_size = unat (gh_extension_len h)
     in and_then (ensure (line_size \<noteq> 0) Panic) (\<lambda>_.
     let num_lines = length new_config_lines_data div line_size
     in and_then (ensure (gh_authority h = authority) Panic) (\<lambda>_.
        and_then (ensure (length new_config_lines_data mod line_size = 0) Panic) (\<lambda>_.
        and_then (usize_add index_array_size config_size) (\<lambda>total.
        and_then (ensure (length config_data = total) Panic) (\<lambda>_.
        and_then (usize_mul num_lines line_size) (\<lambda>new_size.
        and_then (ensure (length new_config_lines_data = new_size) Panic) (\<lambda>_.
        and_then (usize_add (unat starting_line) num_lines) (\<lambda>end_line.
        and_then (ensure (end_line \<le> unat (gh_total_items_added h)) Panic) (\<lambda>_.
        and_then (split_at config_data index_array_size) (\<lambda>(indices_data, config_lines_data).
        and_then (usize_mul (unat starting_line) line_size) (\<lambda>start.
        and_then (overwrite config_lines_data start new_config_lines_data) (\<lambda>config_lines_data'.
        Inr (gm\<lparr>gm_config_data := indices_data @ config_lines_data'\<rparr>))))))))))))))))"

text \<open>\<open>match x { Some(v) => .., None => {} }\<close> on a field of the header.\<close>

definition when_some :: "('a \<Rightarrow> 'h \<Rightarrow> 'h) \<Rightarrow> 'a option \<Rightarrow> 'h \<Rightarrow> 'h" where
  "when_some f x h = (case x of Some v \<Rightarrow> f v h | None \<Rightarrow> h)"

definition update_header_metadata ::
  "pubkey \<Rightarrow> bytes option \<Rightarrow> bytes option \<Rightarrow> bytes option \<Rightarrow> EncodeMethod option \<Rightarrow> u16 option \<Rightarrow>
   bool option \<Rightarrow> bool option \<Rightarrow> u64 option \<Rightarrow> u64 option \<Rightarrow> pubkey option \<Rightarrow> pubkey option \<Rightarrow>
   u32 option \<Rightarrow> gumball_account \<Rightarrow> (GumballError, gumball_account) result" where
  "update_header_metadata signer url_base name_base symbol encode_method seller_fee_basis_points
     is_mutable retain_authority price go_live_date bot_wallet authority max_mint_size gm =
     (let h = gm_header gm
      in and_then (ensure (gh_authority h = signer) Panic) (\<lambda>_.
     let h1 = when_some (\<lambda>ub h. h\<lparr>gh_url_base := ub\<rparr>) url_base h;
         h2 = when_some (\<lambda>nb h. h\<lparr>gh_name_base := nb\<rparr>) name_base h1;
         h3 = when_some (\<lambda>s h. h\<lparr>gh_symbol := s\<rparr>) symbol h2;
         h4 = when_some (\<lambda>e h. h\<lparr>gh_config_line_encode_method := encode_method_to_u8 e\<rparr>) encode_method h3;
         h5 = when_some (\<lambda>s h. h\<lparr>gh_seller_fee_basis_points := s\<rparr>) seller_fee_basis_points h4;
         h6 = when_some (\<lambda>im h. h\<lparr>gh_is_mutable := of_bool im\<rparr>) is_mutable h5;
         h7 = when_some (\<lambda>ra h. h\<lparr>gh_retain_authority := of_bool ra\<rparr>) retain_authority h6;
         h8 = when_some (\<lambda>p h. h\<lparr>gh_price := p\<rparr>) price h7;
         h9 = when_some (\<lambda>gld h. h\<lparr>gh_go_live_date := gld\<rparr>) go_live_date h8;
         h10 = when_some (\<lambda>a h. h\<lparr>gh_authority := a\<rparr>) authority h9;
         h11 = when_some (\<lambda>bw h. h\<lparr>gh_bot_wallet := bw\<rparr>) bot_wallet h10;
         h12 = when_some (\<lambda>mms h. h\<lparr>gh_max_mint_size := min (max mms 1) (gh_max_items h)\<rparr>)
             max_mint_size h11
     in Inr (gm\<lparr>gm_header := h12\<rparr>)))"

text \<open>
  Payment: \<open>pay payer receiver amount\<close> is the call to the system program, and \<open>pay from to
  authority amount\<close> the call to the token program, on the accounts \<open>x\<close> of those programs.
\<close>

definition dispense_nft_sol ::
  "gumball_env \<Rightarrow> (pubkey \<Rightarrow> pubkey \<Rightarrow> u64 \<Rightarrow> 'x \<Rightarrow> 'x option) \<Rightarrow> pubkey \<Rightarrow> pubkey \<Rightarrow> pubkey \<Rightarrow> bytes \<Rightarrow>
   bytes \<Rightarrow> u64 \<Rightarrow> pubkey \<Rightarrow> u32 \<Rightarrow> gumball_account \<times> bubblegum_accounts \<Rightarrow> 'x \<Rightarrow>
   (GumballError, bubblegum_event list \<times> (gumball_account \<times> bubblegum_accounts) \<times> 'x) result" where
  "dispense_nft_sol E pay gumball_machine payer receiver recent_blockhashes instruction_sysvar
     unix_timestamp merkle_slab num_items gw x =
     and_then (find_and_mint_compressed_nfts E gumball_machine payer recent_blockhashes
       instruction_sysvar unix_timestamp merkle_slab num_items gw) (\<lambda>(evs, num_nfts_minted, gm', w').
     let h = gm_header gm'
     in and_then (ensure (gh_receiver h = receiver) Panic) (\<lambda>_.
        and_then (ensure (gh_mint h = ge_native_mint E) Panic) (\<lambda>_.
        and_then (ok_or (checked_mul (gh_price h) (ucast num_nfts_minted)) Panic) (\<lambda>amount.
        and_then (ok_or (pay payer receiver amount x) (Err PaymentFailed)) (\<lambda>x'.
        Inr (evs, (gm', w'), x'))))))"

definition dispense_nft_token ::
  "gumball_env \<Rightarrow> (pubkey \<Rightarrow> pubkey \<Rightarrow> pubkey \<Rightarrow> u64 \<Rightarrow> 'x \<Rightarrow> 'x option) \<Rightarrow> pubkey \<Rightarrow> pubkey \<Rightarrow> pubkey \<Rightarrow>
   pubkey \<Rightarrow> pubkey \<Rightarrow> bytes \<Rightarrow> bytes \<Rightarrow> u64 \<Rightarrow> pubkey \<Rightarrow> u32 \<Rightarrow>
   gumball_account \<times> bubblegum_accounts \<Rightarrow> 'x \<Rightarrow>
   (GumballError, bubblegum_event list \<times> (gumball_account \<times> bubblegum_accounts) \<times> 'x) result" where
  "dispense_nft_token E pay gumball_machine payer payer_tokens payer_tokens_mint receiver
     recent_blockhashes instruction_sysvar unix_timestamp merkle_slab num_items gw x =
     and_then (find_and_mint_compressed_nfts E gumball_machine payer recent_blockhashes
       instruction_sysvar unix_timestamp merkle_slab num_items gw) (\<lambda>(evs, num_nfts_minted, gm', w').
     let h = gm_header gm'
     in and_then (ensure (gh_receiver h = receiver) Panic) (\<lambda>_.
        and_then (ensure (payer_tokens_mint = gh_mint h) Panic) (\<lambda>_.
        and_then (ok_or (checked_mul (gh_price h) (ucast num_nfts_minted)) Panic) (\<lambda>amount.
        and_then (ok_or (pay payer_tokens receiver payer amount x) (Err PaymentFailed)) (\<lambda>x'.
        Inr (evs, (gm', w'), x'))))))"

text \<open>The lamports are a store over account keys: the two accounts may be the same.\<close>

definition destroy ::
  "pubkey \<Rightarrow> pubkey \<Rightarrow> gumball_account \<Rightarrow> (pubkey \<Rightarrow> u64) \<Rightarrow> (GumballError, pubkey \<Rightarrow> u64) result" where
  "destroy gumball_machine authority gm lamports =
     and_then (ensure (gh_authority (gm_header gm) = authority) Panic) (\<lambda>_.
     let dest_starting_lamports = lamports authority
     in and_then (ok_or (checked_add dest_starting_lamports (lamports gumball_machine))
          (Err InvalidAccountData)) (\<lambda>total.
        Inr (lamports(authority := total, gumball_machine := 0))))"

end
