(* ===== verification/Gumball_Pool.thy ===== *)
theory Gumball_Pool
  imports Gumball_Machine "HOL-Library.Multiset"
begin

text \<open>
  The items a gumball machine can still dispense, as a multiset: the entries of the index array below
  \<open>remaining\<close>. Choosing an item takes one entry out of it and leaves the chosen entry behind the
  pool, so that a sequence of sales never sells an entry twice (\<open>item_pool\<close>).
\<close>

section \<open>The interface\<close>

text \<open>A sequence of steps, with the items they give out in order.\<close>

inductive sales :: "('s \<Rightarrow> 'i list \<Rightarrow> 's \<Rightarrow> bool) \<Rightarrow> 's \<Rightarrow> 'i list \<Rightarrow> 's \<Rightarrow> bool" for step where
  none: "sales step s [] s"
| sale: "step s xs s1 \<Longrightarrow> sales step s1 ys s' \<Longrightarrow> sales step s (xs @ ys) s'"

locale item_pool =
  fixes step :: "'s \<Rightarrow> 'i list \<Rightarrow> 's \<Rightarrow> bool" and pool :: "'s \<Rightarrow> 'i multiset"
  assumes step_pool: "step s xs s' \<Longrightarrow> pool s = pool s' + mset xs"
begin

lemma sales_pool:
  assumes "sales step s xs s'"
  shows "pool s = pool s' + mset xs"
  using assms
proof (induction rule: sales.induct)
  case (sale s xs s1 ys s')
  then show ?case
    using step_pool [of s xs s1] by (auto simp: ac_simps)
qed simp

lemma sales_distinct:
  assumes "sales step s xs s'" and "pool s = mset_set A" and "finite A"
  shows "distinct xs \<and> set xs \<subseteq> A \<and> pool s' = mset_set (A - set xs)"
proof -
  have eq: "mset_set A = pool s' + mset xs"
    using sales_pool [OF assms(1)] assms(2) by simp
  have sub: "mset xs \<subseteq># mset_set A"
    by (simp add: eq)
  have "set xs \<subseteq> A"
    using set_mset_mono [OF sub] assms(3) by simp
  moreover have "distinct xs"
  proof (unfold distinct_count_atmost_1, intro allI)
    fix x
    have "count (mset xs) x \<le> count (mset_set A) x"
      using sub by (rule mset_subset_eq_count)
    then show "count (mset xs) x = (if x \<in> set xs then 1 else 0)"
      using assms(3) \<open>set xs \<subseteq> A\<close> count_greater_zero_iff [of "mset xs" x]
      by (auto simp: count_mset_set' le_Suc_eq count_mset_0_iff split: if_splits)
  qed
  moreover from this have "pool s' = mset_set (A - set xs)"
    using eq assms(3) \<open>set xs \<subseteq> A\<close>
    by (metis add_diff_cancel_right' finite_set mset_set_Diff mset_set_set)
  ultimately show ?thesis by simp
qed

end

section \<open>The machine's data\<close>

definition indices_of :: "gumball_account \<Rightarrow> u32 list" where
  "indices_of gm = cast_u32 (take (4 * unat (gh_max_items (gm_header gm))) (gm_config_data gm))"

definition lines_of :: "gumball_account \<Rightarrow> bytes" where
  "lines_of gm = drop (4 * unat (gh_max_items (gm_header gm))) (gm_config_data gm)"

definition remaining_of :: "gumball_account \<Rightarrow> nat" where
  "remaining_of gm = unat (gh_remaining (gm_header gm))"

definition pool_of :: "gumball_account \<Rightarrow> u32 multiset" where
  "pool_of gm = mset (take (remaining_of gm) (indices_of gm))"

text \<open>The account has room for the indices and the lines, and no more items remain than it has.\<close>

definition machine_ok :: "gumball_account \<Rightarrow> bool" where
  "machine_ok gm \<longleftrightarrow>
     (let n = unat (gh_max_items (gm_header gm)); l = unat (gh_extension_len (gm_header gm))
      in length (gm_config_data gm) = 4 * n + l * n \<and> 4 * n + l * n < 2 ^ 64 \<and> remaining_of gm \<le> n)"

lemma machine_data:
  assumes "length idx = unat (gh_max_items h)"
  shows "indices_of \<lparr>gm_header = h, gm_config_data = uncast_u32 idx @ lines\<rparr> = idx"
    and "lines_of \<lparr>gm_header = h, gm_config_data = uncast_u32 idx @ lines\<rparr> = lines"
  using assms by (simp_all add: indices_of_def lines_of_def)

lemma length_indices_of: "machine_ok gm \<Longrightarrow> length (indices_of gm) = unat (gh_max_items (gm_header gm))"
  by (simp add: indices_of_def length_cast_u32 machine_ok_def Let_def)

lemma machine_eq:
  assumes "machine_ok gm"
  shows "gm = \<lparr>gm_header = gm_header gm, gm_config_data = uncast_u32 (indices_of gm) @ lines_of gm\<rparr>"
proof -
  have "uncast_u32 (indices_of gm) = take (4 * unat (gh_max_items (gm_header gm))) (gm_config_data gm)"
    unfolding indices_of_def
    by (rule uncast_cast [of _ "unat (gh_max_items (gm_header gm))"])
      (use assms in \<open>simp add: machine_ok_def Let_def\<close>)
  then show ?thesis
    by (simp add: lines_of_def)
qed

section \<open>Choosing an item\<close>

text \<open>The config line and the metadata of an item: what a machine sells under an index.\<close>

definition item_line :: "nat \<Rightarrow> bytes \<Rightarrow> nat \<Rightarrow> bytes" where
  "item_line line_size lines i =
     (if lines = [] then le_bytes 8 (of_nat (i + 1) :: u64)
      else take line_size (drop (i * line_size) lines))"

definition item_metadata ::
  "gumball_env \<Rightarrow> gumball_machine_header \<Rightarrow> nat \<Rightarrow> bytes \<Rightarrow> nat \<Rightarrow> (GumballError, metadata_args) result" where
  "item_metadata E h line_size lines i =
     and_then (encode_method_from (gh_config_line_encode_method h)) (\<lambda>m.
     get_metadata_args (ge_bs58_encode E) (gh_url_base h) (gh_name_base h) (gh_symbol h)
       (gh_seller_fee_basis_points h) (gh_is_mutable h \<noteq> 0) (gh_collection_key h) None
       (gh_creators h) (i + 1) (item_line line_size lines i) m)"

lemma item_metadata_remaining [simp]:
  "item_metadata E (h\<lparr>gh_remaining := r\<rparr>) line_size lines i = item_metadata E h line_size lines i"
  by (simp add: item_metadata_def)

text \<open>The chosen position and the index array after the swap.\<close>

definition chosen :: "gumball_env \<Rightarrow> bytes \<Rightarrow> u32 \<Rightarrow> nat" where
  "chosen E rb r = unat ((of_nat (from_le_bytes (take 4 (ge_hashv E [rb, le_bytes 4 r]))) :: u32) mod r)"

lemma chosen_less: "r \<noteq> 0 \<Longrightarrow> chosen E rb r < unat r"
  by (simp add: chosen_def unat_mod unat_gt_0)

definition swapped :: "'a list \<Rightarrow> nat \<Rightarrow> nat \<Rightarrow> 'a list" where
  "swapped xs a b = xs[a := xs ! b, b := xs ! a]"

lemma length_swapped [simp]: "length (swapped xs a b) = length xs"
  by (simp add: swapped_def)

lemma swapped_facts:
  assumes "s < r" and "r \<le> length xs"
  shows "mset (take r xs) = add_mset (swapped xs s (r - 1) ! (r - 1)) (mset (take (r - 1) (swapped xs s (r - 1))))"
    and "drop r (swapped xs s (r - 1)) = drop r xs"
proof -
  have "take r (swapped xs s (r - 1)) = swapped (take r xs) s (r - 1)"
    using assms by (simp add: swapped_def take_update_swap)
  then have "mset (take r xs) = mset (take r (swapped xs s (r - 1)))"
    using assms mset_swap [of "r - 1" "take r xs" s] by (simp add: swapped_def)
  also have "take r (swapped xs s (r - 1)) =
      take (r - 1) (swapped xs s (r - 1)) @ [swapped xs s (r - 1) ! (r - 1)]"
    using assms by (metis Suc_diff_1 gr0I length_swapped less_nat_zero_code less_or_eq_imp_le
        take_Suc_conv_app_nth Suc_le_eq)
  finally show "mset (take r xs) =
      add_mset (swapped xs s (r - 1) ! (r - 1)) (mset (take (r - 1) (swapped xs s (r - 1))))"
    by simp
  show "drop r (swapped xs s (r - 1)) = drop r xs"
    using assms by (simp add: swapped_def)
qed

lemma unat_pred: "r \<noteq> 0 \<Longrightarrow> unat (r - 1) = unat r - 1"
  for r :: "'a::len word"
  by (simp add: unat_minus_one)

lemma fisher_yates_eq:
  assumes "unat (gh_remaining h) \<le> length idx"
    and "idx' = swapped idx (chosen E rb (gh_remaining h)) (unat (gh_remaining h) - 1)"
    and "i = unat (idx' ! (unat (gh_remaining h) - 1))"
    and "length lines = line_size * length idx" and "line_size * length idx < 2 ^ 64"
    and "i < length idx"
  shows "fisher_yates_shuffle_and_fetch_nft_metadata E rb h idx line_size lines =
    (if gh_remaining h = 0 then Inl Panic
     else and_then (item_metadata E h line_size lines i) (\<lambda>msg.
       Inr (msg, h\<lparr>gh_remaining := gh_remaining h - 1\<rparr>, idx')))"
proof (cases "gh_remaining h = 0")
  case True
  then show ?thesis
    by (simp add: fisher_yates_shuffle_and_fetch_nft_metadata_def)
next
  case False
  then have pos: "0 < unat (gh_remaining h)"
    by (simp add: unat_gt_0)
  have sw: "swap idx (chosen E rb (gh_remaining h)) (unat (gh_remaining h) - 1) = Inr idx'"
    using chosen_less [OF False, of E rb] assms(1,2) by (simp add: swap_def swapped_def)
  have il: "i * line_size + line_size \<le> length lines"
  proof -
    have "Suc i * line_size \<le> length idx * line_size"
      by (rule mult_right_mono) (use assms(6) in auto)
    then show ?thesis
      by (simp add: assms(4) mult.commute)
  qed
  then have mul: "usize_mul i line_size = Inr (i * line_size)"
    using assms(4,5) by (simp add: usize_mul_def)
  have line: "slice_range lines (i * line_size) (i * line_size + line_size) =
      Inr (take line_size (drop (i * line_size) lines))"
    using il by (simp add: slice_range_def)
  show ?thesis
    unfolding fisher_yates_shuffle_and_fetch_nft_metadata_def Let_def unat_pred [OF False]
      chosen_def [symmetric]
    by (simp add: False sw assms(3) [symmetric] mul line item_metadata_def item_line_def and_then_assoc
        del: One_nat_def)
qed

lemma fisher_yates_inv:
  assumes "fisher_yates_shuffle_and_fetch_nft_metadata E rb h idx line_size lines = Inr (msg, h', idx')"
  shows "gh_remaining h \<noteq> 0" and "unat (gh_remaining h) \<le> length idx"
    and "h' = h\<lparr>gh_remaining := gh_remaining h - 1\<rparr>"
    and "idx' = swapped idx (chosen E rb (gh_remaining h)) (unat (gh_remaining h) - 1)"
    and "item_metadata E h line_size lines (unat (idx' ! (unat (gh_remaining h) - 1))) = Inr msg"
proof -
  show r: "gh_remaining h \<noteq> 0"
    using assms by (auto simp: fisher_yates_shuffle_and_fetch_nft_metadata_def Let_def result_simps)
  have "unat (gh_remaining h) - 1 < length idx \<and> h' = h\<lparr>gh_remaining := gh_remaining h - 1\<rparr> \<and>
    idx' = swapped idx (chosen E rb (gh_remaining h)) (unat (gh_remaining h) - 1) \<and>
    item_metadata E h line_size lines (unat (idx' ! (unat (gh_remaining h) - 1))) = Inr msg"
    using assms unfolding fisher_yates_shuffle_and_fetch_nft_metadata_def Let_def unat_pred [OF r]
      chosen_def [symmetric] swapped_def item_metadata_def item_line_def
    by (auto simp: result_simps split: if_splits)
  then show "unat (gh_remaining h) \<le> length idx" "h' = h\<lparr>gh_remaining := gh_remaining h - 1\<rparr>"
    "idx' = swapped idx (chosen E rb (gh_remaining h)) (unat (gh_remaining h) - 1)"
    "item_metadata E h line_size lines (unat (idx' ! (unat (gh_remaining h) - 1))) = Inr msg"
    by auto
qed

section \<open>Minting a batch\<close>

text \<open>Minting a list of items in order.\<close>

fun mint_all ::
  "gumball_env \<Rightarrow> pubkey \<Rightarrow> pubkey \<Rightarrow> pubkey \<Rightarrow> metadata_args list \<Rightarrow> bubblegum_accounts \<Rightarrow>
   bubblegum_result" where
  "mint_all E slab auth payer [] w = Inr ([], w)"
| "mint_all E slab auth payer (m # ms) w =
     and_then (mint_v1 (ge_hashv E) (ge_bubblegum_pda E) (ge_ser E) slab auth payer payer m w)
       (\<lambda>(evs, w').
     and_then (mint_all E slab auth payer ms w') (\<lambda>(evs', w''). Inr (evs @ evs', w'')))"

text \<open>
  What a batch of \<open>n\<close> sales does to the index array: the items sold are the \<open>n\<close> entries now just
  behind the pool, last one first.
\<close>

definition batch :: "nat \<Rightarrow> nat \<Rightarrow> u32 list \<Rightarrow> u32 list" where
  "batch r n idx = rev (take n (drop (r - n) idx))"

lemma batch_Suc:
  assumes "0 < r" and "n \<le> r - 1" and "r \<le> length idx"
  shows "batch r (Suc n) idx = idx ! (r - 1) # batch (r - 1) n idx"
proof -
  have "take (Suc n) (drop (r - Suc n) idx) = take n (drop (r - Suc n) idx) @ [idx ! (r - 1)]"
    using assms by (simp add: take_Suc_conv_app_nth)
  then show ?thesis
    by (simp add: batch_def)
qed

lemma mint_loop_inv:
  assumes "mint_loop n E machine payer rb slab line_size lines h idx w = Inr (evs, h', idx', w')"
  shows "n \<le> unat (gh_remaining h) \<and> (n = 0 \<or> unat (gh_remaining h) \<le> length idx) \<and>
    h' = h\<lparr>gh_remaining := gh_remaining h - of_nat n\<rparr> \<and> length idx' = length idx \<and>
    drop (unat (gh_remaining h)) idx' = drop (unat (gh_remaining h)) idx \<and>
    mset (take (unat (gh_remaining h)) idx) = mset (take (unat (gh_remaining h) - n) idx') +
      mset (batch (unat (gh_remaining h)) n idx') \<and>
    (\<exists>msgs. map (item_metadata E h line_size lines \<circ> unat) (batch (unat (gh_remaining h)) n idx') = map Inr msgs \<and>
      mint_all E slab (willy_wonka E machine) payer msgs w = Inr (evs, w'))"
  using assms
proof (induction n arbitrary: h idx w evs)
  case 0
  then show ?case by (auto simp: batch_def)
next
  case (Suc n)
  obtain msg h1 idx1 evs1 w1 evs2 where
    f: "fisher_yates_shuffle_and_fetch_nft_metadata E rb h idx line_size lines = Inr (msg, h1, idx1)"
    and m: "mint_v1 (ge_hashv E) (ge_bubblegum_pda E) (ge_ser E) slab (willy_wonka E machine) payer payer
      msg w = Inr (evs1, w1)"
    and l: "mint_loop n E machine payer rb slab line_size lines h1 idx1 w1 = Inr (evs2, h', idx', w')"
    and evs: "evs = evs1 @ evs2"
    using Suc.prems by (auto simp: result_simps)
  define r where "r = unat (gh_remaining h)"
  note fi = fisher_yates_inv [OF f]
  have r0: "0 < r" "r \<le> length idx"
    using fi(1,2) by (simp_all add: r_def unat_gt_0)
  have r1: "unat (gh_remaining h1) = r - 1"
    using fi(1,3) by (simp add: r_def unat_pred)
  note IH = Suc.IH [OF l, unfolded r1]
  have idx1: "idx1 = swapped idx (chosen E rb (gh_remaining h)) (r - 1)"
    and ch: "chosen E rb (gh_remaining h) < r"
    using fi(4) chosen_less [OF fi(1)] by (simp_all add: r_def)
  note sf = swapped_facts [OF ch r0(2), folded idx1]
  have len: "length idx1 = length idx"
    by (simp add: idx1)
  have at: "idx' ! (r - 1) = idx1 ! (r - 1)"
    using IH r0 len by (metis Cons_nth_drop_Suc One_nat_def Suc_le_eq diff_Suc_less le_Suc_eq
        length_drop list.inject not_less_eq Suc_pred)
  have d: "drop r idx' = drop r idx"
  proof -
    have "drop r idx' = drop 1 (drop (r - 1) idx')" "drop r idx1 = drop 1 (drop (r - 1) idx1)"
      using r0 by simp_all
    moreover have "drop (r - 1) idx' = drop (r - 1) idx1"
      using IH by blast
    ultimately show ?thesis
      using sf(2) by (simp only:)
  qed
  have b: "batch r (Suc n) idx' = idx1 ! (r - 1) # batch (r - 1) n idx'"
    using batch_Suc [of r n idx'] IH r0 len at by simp
  obtain msgs where msgs: "map (item_metadata E h1 line_size lines \<circ> unat) (batch (r - 1) n idx') = map Inr msgs"
    "mint_all E slab (willy_wonka E machine) payer msgs w1 = Inr (evs2, w')"
    using IH by blast
  have meta: "item_metadata E h line_size lines (unat (idx1 ! (r - 1))) = Inr msg"
    using fi(5) by (simp add: r_def)
  have "map (item_metadata E h line_size lines \<circ> unat) (batch r (Suc n) idx') = map Inr (msg # msgs)"
    unfolding b using meta msgs(1) by (simp add: fi(3) comp_def)
  moreover have "mint_all E slab (willy_wonka E machine) payer (msg # msgs) w = Inr (evs, w')"
    using m msgs(2) by (simp add: evs)
  moreover have "mset (take r idx) = mset (take (r - Suc n) idx') + mset (batch r (Suc n) idx')"
  proof -
    have "mset (take (r - 1) idx1) = mset (take (r - 1 - n) idx') + mset (batch (r - 1) n idx')"
      using IH by blast
    then show ?thesis
      using sf(1) unfolding b by simp
  qed
  moreover have "h' = h\<lparr>gh_remaining := gh_remaining h - of_nat (Suc n)\<rparr>"
    using IH fi(3) by (simp add: algebra_simps)
  moreover have "Suc n \<le> r" "length idx' = length idx"
    using IH r0(1) len by auto
  ultimately show ?case
    unfolding r_def [symmetric] using r0 d by blast
qed

end
