(* ===== verification/Merkle_Roll_Inv.thy ===== *)
theory Merkle_Roll_Inv
  imports Merkle_Roll
begin

text \<open>
  The invariant of the concurrent Merkle tree and the lemmas about its buffer. A state is related
  to the history of leaf assignments it still remembers: \<open>hist ! 0\<close> is the current tree and
  \<open>hist ! k\<close> the tree \<open>k\<close> writes ago. Slot \<open>k\<close> of the ring buffer (counted back from the active
  index) holds the root of \<open>hist ! k\<close> and, but for the oldest, the path written by the step from
  \<open>hist ! (k + 1)\<close> to \<open>hist ! k\<close>.
\<close>

section \<open>The ring buffer\<close>

definition dims :: "nat \<Rightarrow> nat \<Rightarrow> bool" where
  "dims d n \<longleftrightarrow> 0 < d \<and> d < 31 \<and> (\<exists>m<64. n = 2 ^ m)"

lemma dims_pos: "dims d n \<Longrightarrow> 0 < n"
  by (auto simp: dims_def)

lemma dims_bound: "dims d n \<Longrightarrow> n < 2 ^ 64"
  using power_strict_increasing [of _ 64 "2 :: nat"] by (auto simp: dims_def simp del: power_numeral)

lemma and_pred_pow2: "(2 :: nat) ^ m AND (2 ^ m - 1) = 0"
proof -
  have "(2 :: nat) ^ m AND mask m = take_bit m (2 ^ m)"
    by (simp only: take_bit_eq_mask)
  then show ?thesis
    by (simp add: mask_eq_exp_minus_1 take_bit_eq_mod)
qed

lemma check_bounds_ok: "dims d n \<Longrightarrow> check_bounds d n = Inr ()"
  by (auto simp: check_bounds_def dims_def and_pred_pow2 [simplified])

definition slot :: "nat \<Rightarrow> nat \<Rightarrow> nat \<Rightarrow> nat" where
  "slot n a k = (if k \<le> a then a - k else a + n - k)"

lemma slot_less: "a < n \<Longrightarrow> k \<le> n \<Longrightarrow> slot n a k < n"
  by (auto simp: slot_def)

lemma slot_0 [simp]: "slot n a 0 = a"
  by (simp add: slot_def)

lemma slot_full [simp]: "a < n \<Longrightarrow> slot n a n = a"
  by (simp add: slot_def)

lemma slot_inj: "a < n \<Longrightarrow> k < n \<Longrightarrow> l < n \<Longrightarrow> slot n a k = slot n a l \<longleftrightarrow> k = l"
  by (auto simp: slot_def)

lemma slot_Suc: "a < n \<Longrightarrow> k < n \<Longrightarrow> slot n (Suc a mod n) (Suc k) = slot n a k"
  by (cases "Suc a = n") (auto simp: slot_def)

lemma slot_pred:
  assumes "a < n" and "k < n"
  shows "Suc (slot n a (Suc k)) mod n = slot n a k"
proof -
  consider "Suc k \<le> a" | "k = a" | "a < k" by linarith
  then show ?thesis
  proof cases
    case 1
    then have "Suc (slot n a (Suc k)) = a - k" by (simp add: slot_def)
    then show ?thesis using 1 assms by (simp add: slot_def)
  next
    case 2
    then have "Suc (slot n a (Suc k)) = n" using assms by (simp add: slot_def)
    then show ?thesis using 2 by (simp add: slot_def)
  next
    case 3
    then have "Suc (slot n a (Suc k)) = a + n - k" using assms by (simp add: slot_def)
    then show ?thesis using 3 assms by (simp add: slot_def)
  qed
qed

lemma index_mask_eq: "unat (w AND index_mask n) = unat w mod n" if "dims d n"
  using that unat_and_mask [where 'a = 64] by (auto simp: dims_def index_mask_def)

lemma unat_slot:
  assumes "dims d n" and "unat a < n" and "k \<le> n"
  shows "unat ((a - of_nat k) AND index_mask n) = slot n (unat a) k"
proof -
  obtain m where m: "n = 2 ^ m" "m < 64"
    using assms(1) by (auto simp: dims_def)
  have k: "unat (of_nat k :: u64) = k"
    using dims_bound [OF assms(1)] assms(3) by (simp add: unat_of_nat)
  have pow: "(2 :: nat) ^ 64 = n * 2 ^ (64 - m)"
    using m by (simp flip: power_add)
  have "unat (a - of_nat k) mod n = slot n (unat a) k"
  proof (cases "k \<le> unat a")
    case True
    then show ?thesis
      using assms(2) k by (simp add: unat_sub_if' slot_def)
  next
    case False
    then have "unat (a - of_nat k) = n * (2 ^ (64 - m) - 1) + (unat a + n - k)"
      using k pow assms(3) dims_bound [OF assms(1)] by (simp add: unat_sub_if' diff_mult_distrib2)
    then have "unat (a - of_nat k) mod n = (unat a + n - k) mod n"
      by (simp only: mod_mult_self4)
    then show ?thesis
      using False assms(2,3) by (simp add: slot_def)
  qed
  then show ?thesis
    by (simp add: index_mask_eq [OF assms(1)])
qed

lemma unat_next:
  assumes "dims d n" and "unat a < n"
  shows "unat ((a + 1) AND index_mask n) = Suc (unat a) mod n"
proof -
  have "Suc (unat a) < 2 ^ 64"
    using dims_bound [OF assms(1)] assms(2) by linarith
  then have "unat (a + 1) = Suc (unat a)"
    by (simp add: unat_word_ariths)
  then show ?thesis
    by (simp add: index_mask_eq [OF assms(1)])
qed

lemma next_slot:
  assumes "dims d n" and "unat a < n" and "unat b = slot n (unat a) (Suc k)" and "k < n"
  shows "unat ((b + 1) AND index_mask n) = slot n (unat a) k"
proof -
  have "unat b < n"
    using assms(2-4) slot_less [of "unat a" n "Suc k"] by simp
  then have "unat ((b + 1) AND index_mask n) = Suc (slot n (unat a) (Suc k)) mod n"
    using unat_next [OF assms(1)] assms(3) by simp
  then show ?thesis
    using assms(2,4) by (simp add: slot_pred)
qed

definition log_at :: "nat \<Rightarrow> merkle_roll \<Rightarrow> nat \<Rightarrow> change_log" where
  "log_at n roll k = change_logs roll ! slot n (unat (active_index roll)) k"

section \<open>The invariant\<close>

definition buffer_inv :: "hashv \<Rightarrow> nat \<Rightarrow> nat \<Rightarrow> merkle_roll \<Rightarrow> leaves list \<Rightarrow> bool" where
  "buffer_inv H d n roll hist \<longleftrightarrow>
     length (change_logs roll) = n \<and> unat (active_index roll) < n \<and>
     hist \<noteq> [] \<and> length hist = unat (buffer_size roll) \<and> length hist \<le> n \<and>
     (\<forall>cl\<in>set (change_logs roll). unat (cl_index cl) < 2 ^ d \<and> length (cl_path cl) = d) \<and>
     (\<forall>k<length hist. cl_root (log_at n roll k) = tree_root H d (hist ! k)) \<and>
     (\<forall>k. Suc k < length hist \<longrightarrow>
        logs_step H d (log_at n roll k) (hist ! Suc k) (hist ! k))"

text \<open>
  The rightmost proof is the proof of the last appended leaf as long as the tree is not full, and
  all leaves from \<open>path_index\<close> on are empty.
\<close>

definition rightmost_inv :: "hashv \<Rightarrow> nat \<Rightarrow> path \<Rightarrow> leaves \<Rightarrow> bool" where
  "rightmost_inv H d rp L \<longleftrightarrow>
     unat (path_index rp) \<le> 2 ^ d \<and> length (path_proof rp) = d \<and>
     (\<forall>j\<ge>unat (path_index rp). L j = EMPTY) \<and>
     (unat (path_index rp) < 2 ^ d \<longrightarrow>
        path_proof rp = proof_at H d L (unat (path_index rp) - 1) \<and>
        (0 < unat (path_index rp) \<longrightarrow> path_leaf rp = L (unat (path_index rp) - 1)))"

definition roll_inv :: "hashv \<Rightarrow> nat \<Rightarrow> nat \<Rightarrow> merkle_roll \<Rightarrow> leaves list \<Rightarrow> bool" where
  "roll_inv H d n roll hist \<longleftrightarrow>
     dims d n \<and> buffer_inv H d n roll hist \<and> rightmost_inv H d (rightmost_proof roll) (hist ! 0)"

lemma buffer_invD:
  assumes "buffer_inv H d n roll hist"
  shows "length (change_logs roll) = n" "unat (active_index roll) < n" "hist \<noteq> []"
    "length hist = unat (buffer_size roll)" "length hist \<le> n"
    "\<And>cl. cl \<in> set (change_logs roll) \<Longrightarrow> unat (cl_index cl) < 2 ^ d"
    "\<And>cl. cl \<in> set (change_logs roll) \<Longrightarrow> length (cl_path cl) = d"
    "\<And>k. k < length hist \<Longrightarrow> cl_root (log_at n roll k) = tree_root H d (hist ! k)"
    "\<And>k. Suc k < length hist \<Longrightarrow> logs_step H d (log_at n roll k) (hist ! Suc k) (hist ! k)"
  using assms by (auto simp: buffer_inv_def)

lemma log_at_in_set:
  assumes "buffer_inv H d n roll hist" and "k \<le> n"
  shows "log_at n roll k \<in> set (change_logs roll)"
  unfolding log_at_def
  by (rule nth_mem) (use buffer_invD(1,2) [OF assms(1)] assms(2) slot_less in auto)

lemma get_change_log_eq: "get_change_log roll = log_at n roll 0"
  by (simp add: get_change_log_def log_at_def)

lemma current_root:
  assumes "buffer_inv H d n roll hist"
  shows "cl_root (get_change_log roll) = tree_root H d (hist ! 0)"
  unfolding get_change_log_eq [of roll n] using buffer_invD(3,8) [OF assms] by simp

section \<open>Replaying change logs\<close>

text \<open>
  A rule for the loop: if \<open>P (k)\<close> holds before it and each log \<open>j < k\<close> takes a state satisfying
  \<open>P (j + 1)\<close> to one satisfying \<open>P j\<close>, the loop ends in a state satisfying \<open>P 0\<close>.
\<close>

lemma fast_forward_loop_rule:
  assumes "dims d n" and "unat (active_index roll) < n"
    and step: "\<And>j ps x. j < k \<Longrightarrow> P (Suc j) ps x \<Longrightarrow>
      \<exists>ps' x'. update_proof_or_leaf d i ps x (log_at n roll j) = Inr (ps', x') \<and> P j ps' x'"
    and "P k ps x" and "unat b = slot n (unat (active_index roll)) k" and "k \<le> n"
    and "k \<le> fuel" and "use_full \<Longrightarrow> 0 < k" and "\<not> use_full \<Longrightarrow> k < n"
  shows "\<exists>ps' x'. fast_forward_loop fuel d n roll i use_full b ps x = Inr (ps', x') \<and> P 0 ps' x'"
  using assms(3-9)
proof (induction k arbitrary: ps x b fuel)
  case 0
  then have "b = active_index roll" and "\<not> use_full"
    by (auto simp: word_unat_eq_iff)
  with 0(2) show ?case
    by (simp add: fast_forward_loop.simps [of fuel])
next
  case (Suc k)
  let ?a = "unat (active_index roll)"
  let ?j = "(b + 1) AND index_mask n"
  from Suc.prems(5) obtain fuel' where fuel: "fuel = Suc fuel'" "k \<le> fuel'"
    by (cases fuel) auto
  have j: "unat ?j = slot n ?a k"
    by (rule next_slot [OF assms(1,2) Suc.prems(3)]) (use Suc.prems(4) in simp)
  obtain ps' x' where upd: "update_proof_or_leaf d i ps x (log_at n roll k) = Inr (ps', x')"
    "P k ps' x'"
    using Suc.prems(1) [OF lessI Suc.prems(2)] by blast
  have not_active: "\<not> (\<not> use_full \<and> b = active_index roll)"
    using Suc.prems(3,7) slot_inj [OF assms(2), of "Suc k" 0] by (auto simp: word_unat_eq_iff)
  have unfold: "fast_forward_loop fuel d n roll i use_full b ps x =
      (if use_full \<and> ?j = active_index roll then Inr (ps', x')
       else fast_forward_loop fuel' d n roll i use_full ?j ps' x')"
    unfolding fuel(1)
    by (subst fast_forward_loop.simps)
      (use not_active upd(1) j in \<open>auto simp: Let_def log_at_def\<close>)
  have active: "?j = active_index roll \<longleftrightarrow> k = 0"
    using j slot_inj [OF assms(2), of k 0] Suc.prems(4) by (simp add: word_unat_eq_iff)
  show ?case
  proof (cases "use_full \<and> k = 0")
    case True
    then show ?thesis
      using upd(2) unfold active by auto
  next
    case False
    then have "\<exists>ps'' x''. fast_forward_loop fuel' d n roll i use_full ?j ps' x' =
        Inr (ps'', x'') \<and> P 0 ps'' x''"
      using j upd(2) fuel(2) Suc.prems(1,4,7)
      by (intro Suc.IH) auto
    then show ?thesis
      using False unfold active by auto
  qed
qed

text \<open>No replay panics or runs forever, whatever the proof.\<close>

definition proof_sized :: "nat \<Rightarrow> nat \<Rightarrow> node list \<Rightarrow> node \<Rightarrow> bool" where
  "proof_sized d k ps x \<longleftrightarrow> length ps = d"

lemma replay_step_sized:
  assumes "buffer_inv H d n roll hist" and "d \<le> 32" and "unat i < 2 ^ d" and "j \<le> n"
    and "length ps = d"
  shows "\<exists>ps' x'. update_proof_or_leaf d i ps x (log_at n roll j) = Inr (ps', x') \<and> length ps' = d"
proof -
  have "unat (cl_index (log_at n roll j)) < 2 ^ d"
    using buffer_invD(6) [OF assms(1) log_at_in_set [OF assms(1,4)]] .
  from update_proof_or_leaf_spec [OF assms(3) this assms(2,5), of x] show ?thesis
    by metis
qed

text \<open>
  Every node of the proof, and the leaf, is right for some tree of the history not older than
  \<open>hist ! k\<close>. Replaying log \<open>k\<close> makes what was right for \<open>hist ! (k + 1)\<close> right for \<open>hist ! k\<close> and
  keeps what is right for a newer tree.
\<close>

definition right_for :: "hashv \<Rightarrow> nat \<Rightarrow> nat \<Rightarrow> leaves list \<Rightarrow> nat \<Rightarrow> node list \<Rightarrow> node \<Rightarrow> bool" where
  "right_for H d i hist k ps x \<longleftrightarrow>
     length ps = d \<and> (\<exists>t\<le>k. x = (hist ! t) i) \<and>
     (\<forall>l<d. \<exists>t\<le>k. ps ! l = proof_at H d (hist ! t) i ! l)"

lemma replay_step_right:
  assumes "buffer_inv H d n roll hist" and "0 < d" and "d \<le> 32" and "unat i < 2 ^ d"
    and "Suc j < length hist" and "right_for H d (unat i) hist (Suc j) ps x"
  shows "\<exists>ps' x'. update_proof_or_leaf d i ps x (log_at n roll j) = Inr (ps', x') \<and>
    right_for H d (unat i) hist j ps' x'"
proof -
  let ?cl = "log_at n roll j"
  let ?c = "unat (cl_index ?cl)"
  have step: "logs_step H d ?cl (hist ! Suc j) (hist ! j)"
    using buffer_invD(9) [OF assms(1,5)] .
  then have c: "?c < 2 ^ d" and path: "cl_path ?cl = path_at H d (hist ! j) ?c"
    by (auto simp: logs_step_def)
  have len: "length ps = d"
    using assms(6) by (simp add: right_for_def)
  obtain ps' where ps': "update_proof_or_leaf d i ps x ?cl =
      Inr (ps', if i = cl_index ?cl then get_leaf ?cl else x)" "length ps' = d"
    "\<And>k. k < d \<Longrightarrow> ps' ! k =
      (if sibling (unat i div 2 ^ k) = ?c div 2 ^ k then cl_path ?cl ! k else ps ! k)"
    by (rule update_proof_or_leaf_spec [OF assms(4) c assms(3) len, of x]) blast
  have slots: "\<exists>t\<le>j. ps' ! l = proof_at H d (hist ! t) (unat i) ! l" if l: "l < d" for l
  proof (cases "sibling (unat i div 2 ^ l) = ?c div 2 ^ l")
    case True
    then have "ps' ! l = proof_at H d (hist ! j) (unat i) ! l"
      using ps'(3) [OF l] l by (simp add: path nth_path_at nth_proof_at)
    then show ?thesis by blast
  next
    case False
    obtain t where t: "t \<le> Suc j" "ps ! l = proof_at H d (hist ! t) (unat i) ! l"
      using assms(6) l by (auto simp: right_for_def)
    have "proof_at H d (hist ! j) (unat i) ! l = proof_at H d (hist ! Suc j) (unat i) ! l"
      using logs_step_other [OF step False] l by (simp add: nth_proof_at)
    then show ?thesis
      using t ps'(3) [OF l] False by (metis le_Suc_eq order_refl)
  qed
  have leaf: "\<exists>t\<le>j. (if i = cl_index ?cl then get_leaf ?cl else x) = (hist ! t) (unat i)"
  proof (cases "i = cl_index ?cl")
    case True
    then have "get_leaf ?cl = (hist ! j) (unat i)"
      using assms(2) by (simp add: get_leaf_def path nth_path_at)
    then show ?thesis using True by auto
  next
    case False
    obtain t where t: "t \<le> Suc j" "x = (hist ! t) (unat i)"
      using assms(6) by (auto simp: right_for_def)
    have "(hist ! j) (unat i) = (hist ! Suc j) (unat i)"
      using step False by (auto simp: logs_step_def word_unat_eq_iff)
    then show ?thesis
      using t False by (metis le_Suc_eq order_refl)
  qed
  have "right_for H d (unat i) hist j ps' (if i = cl_index ?cl then get_leaf ?cl else x)"
    unfolding right_for_def using ps'(2) slots leaf by blast
  then show ?thesis
    using ps'(1) by blast
qed

lemma right_for_0:
  assumes "right_for H d i hist 0 ps x"
  shows "ps = proof_at H d (hist ! 0) i" and "x = (hist ! 0) i"
  using assms by (auto simp: right_for_def intro: nth_equalityI)

end
