(* ===== verification/Merkle_Roll_Steps.thy ===== *)
theory Merkle_Roll_Steps
  imports Merkle_Roll_Inv
begin

text \<open>
  How the private methods of \<open>MerkleRoll\<close> behave under the invariant: finding a root in the buffer,
  validating a leaf (completeness for proofs of remembered trees, soundness up to a collision,
  absence of panics) and writing a new tree into the buffer.
\<close>

section \<open>Finding a root\<close>

definition replay_depth :: "hashv \<Rightarrow> nat \<Rightarrow> leaves list \<Rightarrow> node \<Rightarrow> nat" where
  "replay_depth H d hist root =
     (case List.find (\<lambda>k. tree_root H d (hist ! k) = root) [0..<length hist] of
        Some k \<Rightarrow> k | None \<Rightarrow> length hist - 1)"

definition remembered :: "hashv \<Rightarrow> nat \<Rightarrow> leaves list \<Rightarrow> node \<Rightarrow> bool" where
  "remembered H d hist root \<longleftrightarrow> root \<in> tree_root H d ` set hist"

lemma find_map: "List.find P (map f xs) = map_option f (List.find (P \<circ> f) xs)"
  by (induction xs) auto

lemma find_cong_on: "(\<And>x. x \<in> set xs \<Longrightarrow> P x = Q x) \<Longrightarrow> List.find P xs = List.find Q xs"
  by (induction xs) auto

lemma find_root_in_changelog_eq:
  assumes "roll_inv H d n roll hist"
  shows "find_root_in_changelog n roll root =
    map_option (\<lambda>k. (active_index roll - of_nat k) AND index_mask n)
      (List.find (\<lambda>k. tree_root H d (hist ! k) = root) [0..<length hist])"
proof -
  have dims: "dims d n" and inv: "buffer_inv H d n roll hist"
    using assms by (auto simp: roll_inv_def)
  have "cl_root (change_logs roll ! unat ((active_index roll - of_nat k) AND index_mask n)) =
      tree_root H d (hist ! k)" if "k < length hist" for k
    using unat_slot [OF dims buffer_invD(2) [OF inv], of k] buffer_invD(5,8) [OF inv] that
    by (simp add: log_at_def)
  then show ?thesis
    unfolding find_root_in_changelog_def find_map buffer_invD(4) [OF inv, symmetric]
    by (intro arg_cong [where f = "map_option _"] find_cong_on) auto
qed

lemma find_hist:
  "List.find (\<lambda>k. tree_root H d (hist ! k) = root) [0..<length hist] =
   (if remembered H d hist root then Some (replay_depth H d hist root) else None)"
proof (cases "List.find (\<lambda>k. tree_root H d (hist ! k) = root) [0..<length hist]")
  case None
  then have "\<not> remembered H d hist root"
    by (auto simp: remembered_def find_None_iff in_set_conv_nth)
  then show ?thesis using None by simp
next
  case (Some k)
  then have "k < length hist" "tree_root H d (hist ! k) = root"
    by (auto simp: find_Some_iff)
  then have "remembered H d hist root"
    unfolding remembered_def by (metis imageI nth_mem)
  then show ?thesis using Some by (simp add: replay_depth_def)
qed

lemma replay_depth_less: "hist \<noteq> [] \<Longrightarrow> replay_depth H d hist root < length hist"
  by (auto simp: replay_depth_def find_Some_iff split: option.splits)

lemma replay_depth_current [simp]: "hist \<noteq> [] \<Longrightarrow> replay_depth H d hist (tree_root H d (hist ! 0)) = 0"
  by (cases "length hist") (auto simp: replay_depth_def upt_conv_Cons simp del: upt_Suc)

lemma remembered_current [simp]: "hist \<noteq> [] \<Longrightarrow> remembered H d hist (tree_root H d (hist ! 0))"
  by (simp add: remembered_def)

section \<open>Validating a leaf\<close>

text \<open>Where the replay starts, and whether it is a full pass.\<close>

definition replay_start ::
  "nat \<Rightarrow> merkle_roll \<Rightarrow> node \<Rightarrow> bool \<Rightarrow> (CMTError, u64 \<times> bool) result" where
  "replay_start n roll root allow =
     (case find_root_in_changelog n roll root of
        Some j \<Rightarrow> Inr (j, False)
      | None \<Rightarrow>
          if allow then and_then (ok_or (checked_sub (buffer_size roll) 1) Panic) (\<lambda>b.
            Inr ((active_index roll - b) AND index_mask n, True))
          else Inl (Err RootNotFound))"

lemma check_valid_leaf_eq:
  "check_valid_leaf H d n roll root leaf ps i allow =
     and_then (replay_start n roll root allow) (\<lambda>(b, full).
     and_then (fast_forward_loop n d n roll i full b ps leaf) (\<lambda>(ps', x).
     if x \<noteq> leaf then Inl (Err LeafContentsModified)
     else Inr (recompute H x ps' i = cl_root (get_change_log roll), ps')))"
  unfolding check_valid_leaf_def replay_start_def fast_forward_proof_def
  by (auto simp: and_then_assoc case_prod_beta intro!: and_then_cong split: option.splits)

lemma replay_start_eq:
  assumes "roll_inv H d n roll hist"
  shows "replay_start n roll root allow =
    (if remembered H d hist root \<or> allow
     then Inr ((active_index roll - of_nat (replay_depth H d hist root)) AND index_mask n,
               \<not> remembered H d hist root)
     else Inl (Err RootNotFound))"
proof -
  have inv: "buffer_inv H d n roll hist"
    using assms by (simp add: roll_inv_def)
  have "0 < unat (buffer_size roll)"
    using buffer_invD(3,4) [OF inv] by (metis length_greater_0_conv)
  then have "checked_sub (buffer_size roll) 1 = Some (buffer_size roll - 1)"
    and "buffer_size roll - 1 = of_nat (length hist - 1)"
    using buffer_invD(4) [OF inv]
    by (auto simp: checked_sub_def word_le_nat_alt of_nat_diff Suc_le_eq)
  moreover have "\<not> remembered H d hist root \<Longrightarrow> replay_depth H d hist root = length hist - 1"
    using find_hist [of H d hist root] by (simp add: replay_depth_def)
  ultimately show ?thesis
    by (auto simp: replay_start_def find_root_in_changelog_eq [OF assms] find_hist)
qed

lemma unat_replay_start:
  assumes "roll_inv H d n roll hist" and "k < length hist"
  shows "unat ((active_index roll - of_nat k) AND index_mask n) =
    slot n (unat (active_index roll)) k"
proof -
  have "dims d n" and buf: "buffer_inv H d n roll hist"
    using assms(1) by (auto simp: roll_inv_def)
  then show ?thesis
    using unat_slot [of d n "active_index roll" k] buffer_invD(2,5) [OF buf] assms(2) by simp
qed

text \<open>
  A proof that is right for remembered trees is fast-forwarded to the proof of the current tree.
  Its nodes may be right for different trees, as happens when the upper nodes come from a cache of
  the current tree.
\<close>

lemma fast_forward_right:
  assumes inv: "roll_inv H d n roll hist" and i: "unat i < 2 ^ d"
    and right: "right_for H d (unat i) hist k ps x" and k: "k < length hist"
    and full: "full \<Longrightarrow> 0 < k"
  shows "fast_forward_loop n d n roll i full ((active_index roll - of_nat k) AND index_mask n) ps x =
    Inr (proof_at H d (hist ! 0) (unat i), (hist ! 0) (unat i))"
proof -
  have dims: "dims d n" and buf: "buffer_inv H d n roll hist"
    using inv by (auto simp: roll_inv_def)
  have "\<exists>ps' x'. fast_forward_loop n d n roll i full
      ((active_index roll - of_nat k) AND index_mask n) ps x = Inr (ps', x') \<and>
      right_for H d (unat i) hist 0 ps' x'"
  proof (rule fast_forward_loop_rule [OF dims buffer_invD(2) [OF buf], where k = k
        and P = "right_for H d (unat i) hist"])
    fix j ps x
    assume "j < k" "right_for H d (unat i) hist (Suc j) ps x"
    then show "\<exists>ps' x'. update_proof_or_leaf d i ps x (log_at n roll j) = Inr (ps', x') \<and>
        right_for H d (unat i) hist j ps' x'"
      using k dims i by (intro replay_step_right [OF buf]) (auto simp: dims_def)
  qed (use right k full buffer_invD(5) [OF buf] unat_replay_start [OF inv k] in auto)
  then show ?thesis
    using right_for_0 by metis
qed

lemma check_valid_leaf_right:
  assumes inv: "roll_inv H d n roll hist" and i: "unat i < 2 ^ d"
    and right: "right_for H d (unat i) hist (replay_depth H d hist root) ps leaf"
    and known: "remembered H d hist root \<or> allow \<and> 1 < length hist"
  shows "check_valid_leaf H d n roll root leaf ps i allow =
    (if leaf = (hist ! 0) (unat i) then Inr (True, proof_at H d (hist ! 0) (unat i))
     else Inl (Err LeafContentsModified))"
proof -
  have buf: "buffer_inv H d n roll hist"
    using inv by (simp add: roll_inv_def)
  have k: "replay_depth H d hist root < length hist"
    using replay_depth_less buffer_invD(3) [OF buf] .
  have "0 < replay_depth H d hist root" if "\<not> remembered H d hist root"
    using that known find_hist [of H d hist root] by (simp add: replay_depth_def)
  then have "fast_forward_loop n d n roll i (\<not> remembered H d hist root)
      ((active_index roll - of_nat (replay_depth H d hist root)) AND index_mask n) ps leaf =
      Inr (proof_at H d (hist ! 0) (unat i), (hist ! 0) (unat i))"
    by (rule fast_forward_right [OF inv i right k])
  then show ?thesis
    using known current_root [OF buf] recompute_proof_at [OF i, of H "hist ! 0"]
    by (auto simp: check_valid_leaf_eq replay_start_eq [OF inv])
qed

text \<open>Whatever the proof, the replay returns.\<close>

lemma fast_forward_sized:
  assumes inv: "roll_inv H d n roll hist" and i: "unat i < 2 ^ d" and ps: "length ps = d"
    and start: "replay_start n roll root allow = Inr (b, full)"
  shows "\<exists>ps' x'. fast_forward_loop n d n roll i full b ps x = Inr (ps', x') \<and> length ps' = d"
proof -
  have dims: "dims d n" and buf: "buffer_inv H d n roll hist"
    using inv by (auto simp: roll_inv_def)
  define k where "k = replay_depth H d hist root"
  have k: "k < length hist" and kn: "k < n"
    using replay_depth_less [OF buffer_invD(3) [OF buf]] buffer_invD(5) [OF buf]
    by (auto simp: k_def intro: less_le_trans)
  have b: "b = (active_index roll - of_nat k) AND index_mask n"
    using start by (auto simp: replay_start_eq [OF inv] k_def split: if_splits)
  define k' where "k' = (if full \<and> k = 0 then n else k)"
  have "\<exists>ps' x'. fast_forward_loop n d n roll i full b ps x = Inr (ps', x') \<and>
      proof_sized d 0 ps' x'"
  proof (rule fast_forward_loop_rule [OF dims buffer_invD(2) [OF buf], where k = k'
        and P = "proof_sized d"])
    fix j ps x
    assume "j < k'" "proof_sized d (Suc j) ps x"
    then show "\<exists>ps' x'. update_proof_or_leaf d i ps x (log_at n roll j) = Inr (ps', x') \<and>
        proof_sized d j ps' x'"
      unfolding proof_sized_def using dims i kn
      by (intro replay_step_sized [OF buf]) (auto simp: dims_def k'_def split: if_splits)
  next
    show "unat b = slot n (unat (active_index roll)) k'"
      using unat_replay_start [OF inv k] buffer_invD(2) [OF buf] by (auto simp: b k'_def)
  qed (use kn ps dims_pos [OF dims] in \<open>auto simp: k'_def proof_sized_def\<close>)
  then show ?thesis
    by (simp add: proof_sized_def)
qed

lemma check_valid_leaf_cases:
  assumes "roll_inv H d n roll hist" and "unat i < 2 ^ d" and "length ps = d"
  shows "check_valid_leaf H d n roll root leaf ps i allow = Inl (Err RootNotFound) \<or>
    check_valid_leaf H d n roll root leaf ps i allow = Inl (Err LeafContentsModified) \<or>
    (\<exists>ps'. length ps' = d \<and> check_valid_leaf H d n roll root leaf ps i allow =
       Inr (recompute H leaf ps' i = tree_root H d (hist ! 0), ps'))"
proof (cases "replay_start n roll root allow")
  case (Inl e)
  then show ?thesis
    by (auto simp: check_valid_leaf_eq replay_start_eq [OF assms(1)] split: if_splits)
next
  case (Inr r)
  obtain b full where r: "r = (b, full)" by force
  obtain ps' x where "fast_forward_loop n d n roll i full b ps leaf = Inr (ps', x)" "length ps' = d"
    using fast_forward_sized [OF assms] Inr r by blast
  then show ?thesis
    using Inr r current_root [of H d n roll hist] assms(1)
    by (auto simp: check_valid_leaf_eq roll_inv_def)
qed

section \<open>Writing the buffer\<close>

lemma counters:
  assumes "roll_inv H d n roll hist"
  defines "roll' \<equiv> update_internal_counters n roll"
  shows "unat (active_index roll') = Suc (unat (active_index roll)) mod n"
    and "unat (buffer_size roll') = min (Suc (length hist)) n"
    and "change_logs roll' = change_logs roll"
    and "rightmost_proof roll' = rightmost_proof roll"
proof -
  have dims: "dims d n" and inv: "buffer_inv H d n roll hist"
    using assms by (auto simp: roll_inv_def)
  show "unat (active_index roll') = Suc (unat (active_index roll)) mod n"
    using unat_next [OF dims buffer_invD(2) [OF inv]]
    by (simp add: roll'_def update_internal_counters_def)
  have n: "unat (of_nat n :: u64) = n"
    using dims_bound [OF dims] by (simp add: unat_of_nat)
  have "unat (buffer_size roll + 1) = Suc (length hist)" if "length hist < n"
    using that dims_bound [OF dims] buffer_invD(4) [OF inv] by (simp add: unat_word_ariths)
  then show "unat (buffer_size roll') = min (Suc (length hist)) n"
    using buffer_invD(4,5) [OF inv] n
    by (auto simp: roll'_def update_internal_counters_def word_less_nat_alt)
qed (simp_all add: roll'_def update_internal_counters_def)

lemma buffer_inv_push:
  assumes inv: "roll_inv H d n roll hist"
    and cl: "unat (cl_index cl) < 2 ^ d" "cl_root cl = tree_root H d L"
      "cl_path cl = path_at H d L (unat (cl_index cl))"
      "\<And>j. j \<noteq> unat (cl_index cl) \<Longrightarrow> L j = (hist ! 0) j"
    and new: "active_index roll' = active_index (update_internal_counters n roll)"
      "buffer_size roll' = buffer_size (update_internal_counters n roll)"
      "change_logs roll' = (change_logs roll)[unat (active_index roll') := cl]"
  shows "buffer_inv H d n roll' (L # take (n - 1) hist)"
proof -
  have dims: "dims d n" and buf: "buffer_inv H d n roll hist"
    using inv by (auto simp: roll_inv_def)
  let ?a = "unat (active_index roll)"
  have a': "unat (active_index roll') = Suc ?a mod n"
    using counters(1) [OF inv] new(1) by simp
  have a'n: "Suc ?a mod n < n"
    using dims_pos [OF dims] by simp
  have log0: "log_at n roll' 0 = cl"
    using a' a'n buffer_invD(1) [OF buf] by (simp add: log_at_def new(3))
  have logS: "log_at n roll' (Suc k) = log_at n roll k" if k: "Suc k < n" for k
  proof -
    have "slot n (Suc ?a mod n) (Suc k) \<noteq> Suc ?a mod n"
      using slot_inj [OF a'n k, of 0] a'n by simp
    then show ?thesis
      using slot_Suc [OF buffer_invD(2) [OF buf], of k] k a' by (simp add: log_at_def new(3))
  qed
  have len: "length (L # take (n - 1) hist) = unat (buffer_size roll')"
    using counters(2) [OF inv] new(2) buffer_invD(5) [OF buf] dims_pos [OF dims] by simp
  have steps: "logs_step H d (log_at n roll' k) ((L # take (n - 1) hist) ! Suc k)
      ((L # take (n - 1) hist) ! k)" if k: "Suc k < length (L # take (n - 1) hist)" for k
  proof (cases k)
    case 0
    then show ?thesis
      using cl k log0 by (simp add: logs_step_def)
  next
    case (Suc l)
    then have "Suc l < n" "Suc l < length hist" "Suc l < n - 1"
      using k by auto
    then show ?thesis
      using Suc buffer_invD(9) [OF buf, of l] logS [of l] by simp
  qed
  have roots: "cl_root (log_at n roll' k) = tree_root H d ((L # take (n - 1) hist) ! k)"
    if k: "k < length (L # take (n - 1) hist)" for k
    using k cl(2) log0 logS [of "k - 1"] buffer_invD(8) [OF buf, of "k - 1"] by (cases k) auto
  have sizes: "\<forall>c\<in>set (change_logs roll'). unat (cl_index c) < 2 ^ d \<and> length (cl_path c) = d"
    using cl(1,3) buffer_invD(6,7) [OF buf] set_update_subset_insert [of "change_logs roll"]
    by (fastforce simp: new(3))
  show ?thesis
    unfolding buffer_inv_def
    using a' a'n len steps roots sizes buffer_invD(1) [OF buf] dims_pos [OF dims]
    by (auto simp: new(3) simp del: nth_Cons_Suc)
qed

end
