(* ===== verification/Merkle_Roll_Proofs.thy ===== *)
theory Merkle_Roll_Proofs
  imports Merkle_Roll_Steps
begin

text \<open>
  The public operations of \<open>MerkleRoll\<close> against the hash tree: what each returns, which tree the new
  state stands for, and that the invariant holds again.
\<close>

section \<open>Writing a leaf\<close>

text \<open>
  \<open>wrote H d n hist i x roll roll'\<close>: from a state remembering \<open>hist\<close>, leaf \<open>i\<close> of the current tree
  was set to \<open>x\<close> and the active change log describes this step.
\<close>

definition wrote ::
  "hashv \<Rightarrow> nat \<Rightarrow> nat \<Rightarrow> leaves list \<Rightarrow> nat \<Rightarrow> node \<Rightarrow> merkle_roll \<Rightarrow> merkle_roll \<Rightarrow> bool" where
  "wrote H d n hist i x roll roll' \<longleftrightarrow>
     roll_inv H d n roll' ((hist ! 0)(i := x) # take (n - 1) hist) \<and>
     unat (path_index (rightmost_proof roll')) =
       max (unat (path_index (rightmost_proof roll))) (Suc i) \<and>
     sequence_number roll' = saturating_add (sequence_number roll) 1 \<and>
     unat (cl_index (get_change_log roll')) = i \<and>
     cl_path (get_change_log roll') = path_at H d ((hist ! 0)(i := x)) i \<and>
     cl_root (get_change_log roll') = tree_root H d ((hist ! 0)(i := x))"

lemma rightmost_invD:
  assumes "rightmost_inv H d rp L"
  shows "unat (path_index rp) \<le> 2 ^ d" "length (path_proof rp) = d"
    "\<And>j. unat (path_index rp) \<le> j \<Longrightarrow> L j = EMPTY"
    "unat (path_index rp) < 2 ^ d \<Longrightarrow> path_proof rp = proof_at H d L (unat (path_index rp) - 1)"
    "unat (path_index rp) < 2 ^ d \<Longrightarrow> 0 < unat (path_index rp) \<Longrightarrow>
       path_leaf rp = L (unat (path_index rp) - 1)"
  using assms by (auto simp: rightmost_inv_def)

lemma pow_depth_less: "dims d n \<Longrightarrow> (2 :: nat) ^ d < 2 ^ 31"
  by (rule power_strict_increasing) (auto simp: dims_def)

lemma unat_full:
  assumes "dims d n"
  shows "unat (2 ^ d :: u32) = 2 ^ d"
  using assms unat_push_bit_one [of d, where 'a = 32] by (simp add: push_bit_eq_mult dims_def)

lemma wroteI:
  assumes inv: "roll_inv H d n roll hist"
    and cl: "cl_index cl = i" "cl_path cl = path_at H d ((hist ! 0)(unat i := x)) (unat i)"
      "cl_root cl = tree_root H d ((hist ! 0)(unat i := x))"
    and i: "unat i < 2 ^ d"
    and roll': "roll' = (update_internal_counters n roll)\<lparr>change_logs := (change_logs roll)
        [unat (active_index (update_internal_counters n roll)) := cl], rightmost_proof := rp\<rparr>"
    and rp: "rightmost_inv H d rp ((hist ! 0)(unat i := x))"
      "unat (path_index rp) = max (unat (path_index (rightmost_proof roll))) (Suc (unat i))"
  shows "wrote H d n hist (unat i) x roll roll'"
proof -
  have dims: "dims d n" and buf: "buffer_inv H d n roll hist"
    using inv by (auto simp: roll_inv_def)
  have "buffer_inv H d n roll' ((hist ! 0)(unat i := x) # take (n - 1) hist)"
    by (rule buffer_inv_push [OF inv, where cl = cl]) (use cl i roll' in auto)
  moreover have "get_change_log roll' = cl"
    using counters(1) [OF inv] buffer_invD(1) [OF buf] dims_pos [OF dims]
    by (simp add: get_change_log_def roll')
  ultimately show ?thesis
    using cl rp dims unfolding wrote_def roll_inv_def
    by (simp add: roll' update_internal_counters_def)
qed

lemma update_buffers_spec:
  assumes inv: "roll_inv H d n roll hist" and i: "unat i < 2 ^ d"
    and ix: "unat i \<le> unat (path_index (rightmost_proof roll))"
  shows "\<exists>roll'. update_buffers_from_proof H d x (proof_at H d (hist ! 0) (unat i)) i
      (update_internal_counters n roll) =
        Inr (tree_root H d ((hist ! 0)(unat i := x)), roll') \<and>
      wrote H d n hist (unat i) x roll roll'"
proof -
  let ?L = "hist ! 0" and ?L' = "(hist ! 0)(unat i := x)"
  let ?r1 = "update_internal_counters n roll" and ?rp = "rightmost_proof roll"
  let ?ix = "unat (path_index ?rp)"
  have dims: "dims d n" and buf: "buffer_inv H d n roll hist" and rp: "rightmost_inv H d ?rp ?L"
    using inv by (auto simp: roll_inv_def)
  have d: "0 < d" "d \<le> 32" using dims by (auto simp: dims_def)
  note rpD = rightmost_invD [OF rp]
  have len: "length (cl_path (get_change_log ?r1)) = d"
    using counters(1,3) [OF inv] buffer_invD(1,7) [OF buf] dims_pos [OF dims]
    by (simp add: get_change_log_def)
  define cl where "cl = (get_change_log ?r1)\<lparr>cl_index := i, cl_path := path_at H d ?L' (unat i),
      cl_root := tree_root H d ?L'\<rparr>"
  have replace: "replace_and_recompute_path H i x (proof_at H d ?L (unat i)) (get_change_log ?r1) =
      (tree_root H d ?L', cl)"
    unfolding cl_def by (rule replace_and_recompute_path_spec [OF len i])
  have cl: "cl_index cl = i" "cl_path cl = path_at H d ?L' (unat i)" "cl_root cl = tree_root H d ?L'"
    by (simp_all add: cl_def)
  have step: "logs_step H d cl ?L ?L'"
    using i by (simp add: logs_step_def cl)
  have r1: "rightmost_proof ?r1 = ?rp" "change_logs ?r1 = change_logs roll"
    using counters(3,4) [OF inv] by auto
  let ?roll' = "\<lambda>rp'. ?r1\<lparr>change_logs := (change_logs roll)[unat (active_index ?r1) := cl],
      rightmost_proof := rp'\<rparr>"
  note wrote = wroteI [OF inv cl i refl]
  consider (old) "?ix < 2 ^ d" "unat i < ?ix" | (new) "?ix < 2 ^ d" "unat i = ?ix"
    | (full) "?ix = 2 ^ d"
    using rpD(1) ix by linarith
  then show ?thesis
  proof cases
    case old
    have pred: "unat (path_index ?rp - 1) = ?ix - 1"
      using old by (simp add: unat_sub_if')
    have upd: "update_proof_or_leaf d (path_index ?rp - 1) (path_proof ?rp) (path_leaf ?rp) cl =
        Inr (proof_at H d ?L' (?ix - 1), ?L' (?ix - 1))"
      using update_proof_or_leaf_step [OF step, of "path_index ?rp - 1"] d old rpD(4,5) pred
      by (simp del: fun_upd_apply)
    let ?rp' = "?rp\<lparr>path_proof := proof_at H d ?L' (?ix - 1), path_leaf := ?L' (?ix - 1)\<rparr>"
    have "wrote H d n hist (unat i) x roll (?roll' ?rp')"
      by (rule wrote) (use old rpD(3) in \<open>auto simp: rightmost_inv_def\<close>)
    then show ?thesis
      using old upd unfolding update_buffers_from_proof_def replace
      by (auto simp: Let_def r1 unat_full [OF dims] word_less_nat_alt)
  next
    case new
    have suc: "unat (i + 1) = Suc (unat i)"
      using i pow_depth_less [OF dims] by (simp add: unat_word_ariths)
    have leaf: "get_leaf cl = x"
      using d by (simp add: get_leaf_def cl nth_path_at)
    let ?rp' = "?rp\<lparr>path_proof := proof_at H d ?L (unat i), path_index := i + 1, path_leaf := x\<rparr>"
    have "wrote H d n hist (unat i) x roll (?roll' ?rp')"
      by (rule wrote) (use new rpD(3) suc in \<open>auto simp: rightmost_inv_def proof_at_upd_same\<close>)
    then show ?thesis
      using new leaf unfolding update_buffers_from_proof_def replace
      by (auto simp: Let_def r1 unat_full [OF dims] word_less_nat_alt word_unat_eq_iff)
  next
    case full
    have "wrote H d n hist (unat i) x roll (?roll' ?rp)"
      by (rule wrote) (use full rpD(2,3) i in \<open>auto simp: rightmost_inv_def\<close>)
    then show ?thesis
      using full unfolding update_buffers_from_proof_def replace r1(1) [symmetric]
      by (auto simp: Let_def r1(2) unat_full [OF dims] word_less_nat_alt)
  qed
qed

end
