(* ===== verification/Merkle_Append.thy ===== *)
theory Merkle_Append
  imports Merkle_Roll_Proofs
begin

text \<open>
  \<open>MerkleRoll::append\<close> and \<open>MerkleRoll::initialize\<close>. An append hashes the new leaf with empty
  subtrees up to the level where its path meets the path of the last leaf, given by the number of
  trailing zeros of the new index, and turns the rightmost proof into the proof of the new leaf on
  the way. The lemmas show that the loop computes the path, the root and the proof of the new leaf
  in the tree with that leaf set.
\<close>

section \<open>Neighbouring paths\<close>

lemma lowest_bit:
  fixes w :: "'a::len word"
  assumes "w \<noteq> 0"
  obtains q where "unat w = 2 ^ trailing_zeros w * (2 * q + 1)"
proof -
  define t where "t = (LEAST k. bit w k)"
  obtain k where "bit w k"
    using assms by (auto simp: bit_eq_iff)
  then have t: "bit w t" and low: "\<And>k. k < t \<Longrightarrow> \<not> bit w k"
    by (auto simp: t_def intro: LeastI dest: not_less_Least)
  have "2 ^ l dvd unat w" if "l \<le> t" for l
    using that
  proof (induction l)
    case (Suc l)
    then have "2 ^ l dvd unat w" "even (unat w div 2 ^ l)"
      using low [of l] by (auto simp: bit_word_odd)
    then show ?case
      by (metis dvd_mult_div_cancel mult_dvd_mono dvd_refl power_Suc2)
  qed simp
  then have "unat w = 2 ^ t * (unat w div 2 ^ t)"
    by simp
  moreover obtain q where q: "unat w div 2 ^ t = 2 * q + 1"
    using t by (auto simp: bit_word_odd elim: oddE)
  moreover have "trailing_zeros w = t"
    by (rule trailing_zeros_eqI) (use t low in auto)
  ultimately show thesis
    by (intro that [of q]) simp
qed

text \<open>The paths of \<open>m - 1\<close> and \<open>m\<close> below, at and above the level \<open>t\<close> of their meeting.\<close>

lemma paths_meet:
  fixes m q t :: nat
  assumes m: "m = 2 ^ t * (2 * q + 1)"
  shows "l < t \<Longrightarrow> even (m div 2 ^ l)"
    and "l < t \<Longrightarrow> j div 2 ^ l = sibling (m div 2 ^ l) \<Longrightarrow> m < j"
    and "odd (m div 2 ^ t)" and "(m - 1) div 2 ^ t = sibling (m div 2 ^ t)"
    and "t < l \<Longrightarrow> (m - 1) div 2 ^ l = m div 2 ^ l"
proof -
  have div_t: "m div 2 ^ t = 2 * q + 1"
    using m by simp
  show "odd (m div 2 ^ t)"
    using div_t by simp
  have pos: "0 < (2 :: nat) ^ t" by simp
  have pred: "(m - 1) div 2 ^ t = 2 * q"
  proof -
    have "m - 1 = (2 ^ t - 1) + 2 ^ t * (2 * q)"
      using m pos by (simp add: algebra_simps)
    then have "(m - 1) div 2 ^ t = 2 * q + (2 ^ t - 1) div 2 ^ t"
      by (simp only: div_mult_self2 [OF less_imp_neq [OF pos, symmetric]])
    then show ?thesis using pos by simp
  qed
  then show "(m - 1) div 2 ^ t = sibling (m div 2 ^ t)"
    by (simp add: div_t sibling_def)
  show even: "even (m div 2 ^ l)" if "l < t" for l
  proof -
    from that obtain e where "t = Suc (l + e)"
      using less_imp_Suc_add by blast
    then have "m = 2 ^ l * (2 * (2 ^ e * (2 * q + 1)))"
      using m by (simp add: power_add algebra_simps)
    then show ?thesis by simp
  qed
  show "m < j" if "l < t" "j div 2 ^ l = sibling (m div 2 ^ l)"
  proof -
    have "m div 2 ^ l < j div 2 ^ l"
      using even [OF that(1)] that(2) by (simp add: sibling_def)
    then show ?thesis
      by (metis div_le_mono not_le)
  qed
  show "(m - 1) div 2 ^ l = m div 2 ^ l" if tl: "t < l"
  proof -
    from tl obtain e where "l = t + Suc e"
      using less_imp_Suc_add by fastforce
    then show ?thesis
      by (simp only: div_pow_add div_t pred) (simp add: div_mult2_eq)
  qed
qed

section \<open>The loop of append\<close>

definition append_proof :: "hashv \<Rightarrow> nat \<Rightarrow> leaves \<Rightarrow> leaves \<Rightarrow> nat \<Rightarrow> nat \<Rightarrow> node list" where
  "append_proof H d L L' m k = map (\<lambda>l.
     if l < k then node_at H l (sibling (m div 2 ^ l)) L'
     else node_at H l (sibling ((m - 1) div 2 ^ l)) L) [0..<d]"

lemma append_proof_step:
  "k < d \<Longrightarrow> (append_proof H d L L' m k)[k := node_at H k (sibling (m div 2 ^ k)) L'] =
    append_proof H d L L' m (Suc k)"
  by (rule nth_equalityI) (auto simp: append_proof_def nth_list_update less_Suc_eq)

lemma append_proof_ends:
  "append_proof H d L L' m 0 = proof_at H d L (m - 1)"
  "append_proof H d L L' m d = proof_at H d L' m"
  by (auto simp: append_proof_def proof_at_def)

lemma path_at_extend:
  "k < d \<Longrightarrow> (path_at H k L i @ replicate (d - k) z)[k := node_at H k (i div 2 ^ k) L] =
    path_at H (Suc k) L i @ replicate (d - Suc k) z"
  by (cases "d - k") (auto simp: list_update_append path_at_def Suc_diff_Suc)

lemma fold_upt_Suc: "fold f [0..<Suc k] s = f k (fold f [0..<k] s)"
  by simp

lemma append_fold:
  fixes index :: u32 and L :: leaves and x :: node
  assumes index: "index \<noteq> 0" and empty: "\<And>j. unat index \<le> j \<Longrightarrow> L j = EMPTY" and k: "k \<le> d"
  defines "m \<equiv> unat index" and "t \<equiv> trailing_zeros index"
  defines "L' \<equiv> L(m := x)"
  shows "fold (append_step H d index t) [0..<k]
      (x, L (m - 1), replicate d EMPTY, proof_at H d L (m - 1)) =
    (node_at H k (m div 2 ^ k) L', node_at H (min k t) ((m - 1) div 2 ^ min k t) L,
     path_at H k L' m @ replicate (d - k) EMPTY, append_proof H d L L' m k)"
  using k
proof (induction k)
  case 0
  then show ?case
    by (simp add: L'_def path_at_def append_proof_ends)
next
  case (Suc k)
  obtain q where q: "m = 2 ^ t * (2 * q + 1)"
    using lowest_bit [OF index] by (auto simp: m_def t_def)
  note meet = paths_meet [OF q]
  have pred: "unat (index - 1) = m - 1"
    using index by (simp add: m_def unat_gt_0 unat_minus_one)
  have off: "node_at H k p L' = node_at H k p L" if "p \<noteq> m div 2 ^ k" for p
    using that by (simp add: L'_def node_at_upd_other)
  have parent: "hash_to_parent H (node_at H k (m div 2 ^ k) L')
      (node_at H k (sibling (m div 2 ^ k)) L') (even (m div 2 ^ k)) =
      node_at H (Suc k) (m div 2 ^ Suc k) L'"
    by (simp add: hash_to_parent_def node_at_parent del: node_at.simps power_Suc)
  have parent': "hash_to_parent H (node_at H k ((m - 1) div 2 ^ k) L)
      (node_at H k (sibling ((m - 1) div 2 ^ k)) L) (drop_bit k (index - 1) AND 1 = 0) =
      node_at H (Suc k) ((m - 1) div 2 ^ Suc k) L"
    using hash_to_parent_node_at [of H k "index - 1" L] pred by simp
  have old: "append_proof H d L L' m k ! k = node_at H k (sibling ((m - 1) div 2 ^ k)) L"
    using Suc.prems by (simp add: append_proof_def)
  have IH: "fold (append_step H d index t) [0..<k]
      (x, L (m - 1), replicate d EMPTY, proof_at H d L (m - 1)) =
    (node_at H k (m div 2 ^ k) L', node_at H (min k t) ((m - 1) div 2 ^ min k t) L,
     path_at H k L' m @ replicate (d - k) EMPTY, append_proof H d L L' m k)"
    using Suc by simp
  note common = append_step_def Let_def path_at_extend append_proof_step
  consider "k < t" | "k = t" | "t < k" by linarith
  then have "append_step H d index t k
      (node_at H k (m div 2 ^ k) L', node_at H (min k t) ((m - 1) div 2 ^ min k t) L,
       path_at H k L' m @ replicate (d - k) EMPTY, append_proof H d L L' m k) =
    (node_at H (Suc k) (m div 2 ^ Suc k) L',
     node_at H (min (Suc k) t) ((m - 1) div 2 ^ min (Suc k) t) L,
     path_at H (Suc k) L' m @ replicate (d - Suc k) EMPTY, append_proof H d L L' m (Suc k))"
  proof cases
    case 1
    have "node_at H k (sibling (m div 2 ^ k)) L' = node_at H k 0 no_leaves"
      by (rule node_at_empty) (use meet(2) [OF 1] empty in \<open>force simp: L'_def m_def\<close>)
    then have "empty_node_cached H k (replicate d EMPTY) =
        node_at H k (sibling (m div 2 ^ k)) L'"
      by (simp add: empty_node_cached_eq empty_node_eq [of H k 0])
    then show ?thesis
      using 1 Suc.prems meet(1) [OF 1] parent parent' old
      by (simp add: common min_def del: node_at.simps power_Suc)
  next
    case 2
    have "node_at H k ((m - 1) div 2 ^ k) L = node_at H k (sibling (m div 2 ^ k)) L'"
      using off [of "sibling (m div 2 ^ k)"] meet(4) 2 by simp
    then show ?thesis
      using 2 Suc.prems meet(3) parent by (simp add: common min_def del: node_at.simps power_Suc)
  next
    case 3
    have same: "append_proof H d L L' m k ! k = node_at H k (sibling (m div 2 ^ k)) L'"
      using off [of "sibling (m div 2 ^ k)"] meet(5) [OF 3] old by simp
    then have "append_proof H d L L' m (Suc k) = append_proof H d L L' m k"
      using append_proof_step [of k d H L L' m] Suc.prems by (metis Suc_le_lessD list_update_id)
    then show ?thesis
      using 3 Suc.prems parent same meet(5) [OF 3] pred
      by (simp add: common min_def shift_and_one del: node_at.simps power_Suc)
  qed
  then show ?case
    by (simp only: fold_upt_Suc IH)
qed

section \<open>Append and initialize\<close>

lemma full_iff:
  assumes "dims d n"
  shows "push_bit d 1 \<le> (w :: u32) \<longleftrightarrow> 2 ^ d \<le> unat w"
  using unat_push_bit_one [of d, where 'a = 32] assms by (simp add: word_le_nat_alt dims_def)

lemma try_apply_proof_right:
  assumes inv: "roll_inv H d n roll hist" and i: "unat i < 2 ^ d"
    and ix: "unat i \<le> unat (path_index (rightmost_proof roll))"
    and right: "right_for H d (unat i) hist (replay_depth H d hist root) ps leaf"
    and known: "remembered H d hist root \<or> allow \<and> 1 < length hist"
    and leaf: "leaf = (hist ! 0) (unat i)"
  shows "\<exists>roll'. try_apply_proof H d n root leaf x ps i allow roll =
      Inr (tree_root H d ((hist ! 0)(unat i := x)), roll') \<and>
      wrote H d n hist (unat i) x roll roll'"
  using update_buffers_spec [OF inv i ix, of x] check_valid_leaf_right [OF inv i right known] leaf
  by (simp add: try_apply_proof_def)

lemma initialize_tree_from_append_spec:
  assumes inv: "roll_inv H d n roll hist" and zero: "path_index (rightmost_proof roll) = 0"
  shows "\<exists>roll'. initialize_tree_from_append H d n x (path_proof (rightmost_proof roll)) roll =
      Inr (tree_root H d ((hist ! 0)(0 := x)), roll') \<and> wrote H d n hist 0 x roll roll'"
proof -
  let ?L = "hist ! 0"
  have dims: "dims d n" and buf: "buffer_inv H d n roll hist"
    and rp: "rightmost_inv H d (rightmost_proof roll) ?L"
    using inv by (auto simp: roll_inv_def)
  note rpD = rightmost_invD [OF rp]
  have empty: "?L = no_leaves"
    using rpD(3) zero by auto
  have ps: "path_proof (rightmost_proof roll) = proof_at H d ?L (unat (0 :: u32))"
    using rpD(4) zero by simp
  have root: "recompute H EMPTY (path_proof (rightmost_proof roll)) 0 = tree_root H d ?L"
    using recompute_proof_at [of "0 :: u32" d H ?L] unfolding ps by (simp add: empty)
  have empty_root: "tree_root H d ?L = empty_node H d"
    by (simp add: empty tree_root_def empty_node_eq [of H d 0])
  have right: "right_for H d (unat (0 :: u32)) hist (replay_depth H d hist (tree_root H d ?L))
      (proof_at H d ?L (unat (0 :: u32))) EMPTY"
    unfolding right_for_def using empty by auto
  have "remembered H d hist (tree_root H d ?L) \<or> False \<and> 1 < length hist"
    using buffer_invD(3) [OF buf] by simp
  from try_apply_proof_right [OF inv _ _ right this, of x] show ?thesis
    using empty_root root by (simp add: initialize_tree_from_append_def Let_def ps empty)
qed

lemma append_node_spec:
  assumes inv: "roll_inv H d n roll hist" and x: "x \<noteq> EMPTY"
    and room: "unat (path_index (rightmost_proof roll)) < 2 ^ d"
  defines "m \<equiv> unat (path_index (rightmost_proof roll))"
  shows "\<exists>roll'. append_node H d n x roll = Inr (tree_root H d ((hist ! 0)(m := x)), roll') \<and>
      wrote H d n hist m x roll roll'"
proof -
  let ?rp = "rightmost_proof roll" and ?L = "hist ! 0" and ?L' = "(hist ! 0)(m := x)"
  have dims: "dims d n" and rp: "rightmost_inv H d ?rp ?L"
    using inv by (auto simp: roll_inv_def)
  note rpD = rightmost_invD [OF rp]
  have not_full: "\<not> push_bit d 1 \<le> path_index ?rp"
    using room full_iff [OF dims] by simp
  show ?thesis
  proof (cases "path_index ?rp = 0")
    case True
    then show ?thesis
      using initialize_tree_from_append_spec [OF inv True, of x] x not_full
      by (simp add: append_node_def check_bounds_ok [OF dims] Let_def m_def)
  next
    case False
    let ?i = "path_index ?rp"
    have m: "0 < m"
      using False by (simp add: m_def unat_gt_0)
    have suc: "unat (?i + 1) = Suc m"
      using room pow_depth_less [OF dims] by (simp add: unat_word_ariths m_def)
    have fold: "fold (append_step H d ?i (trailing_zeros ?i)) [0..<d]
        (x, path_leaf ?rp, replicate d EMPTY, path_proof ?rp) =
      (tree_root H d ?L',
       node_at H (min d (trailing_zeros ?i)) ((m - 1) div 2 ^ min d (trailing_zeros ?i)) ?L,
       path_at H d ?L' m, proof_at H d ?L' m)"
      using append_fold [OF False, of ?L d d H x] rpD(3,4,5) room m
      by (simp add: append_proof_ends tree_root_def m_def)
    let ?rp' = "?rp\<lparr>path_proof := proof_at H d ?L' m, path_index := ?i + 1, path_leaf := x\<rparr>"
    define roll' where "roll' = (update_internal_counters n roll)\<lparr>change_logs := (change_logs roll)
        [unat (active_index (update_internal_counters n roll)) :=
          change_log_new (tree_root H d ?L') (path_at H d ?L' m) ?i], rightmost_proof := ?rp'\<rparr>"
    have "append_node H d n x roll = Inr (tree_root H d ?L', roll')"
      using x not_full False counters(3) [OF inv]
      by (simp add: append_node_def check_bounds_ok [OF dims] Let_def fold roll'_def)
    moreover have "wrote H d n hist (unat ?i) x roll roll'"
      by (rule wroteI [OF inv _ _ _ _ roll'_def])
        (use room rpD(3) suc in \<open>auto simp: change_log_new_def m_def rightmost_inv_def\<close>)
    ultimately show ?thesis
      by (simp add: m_def)
  qed
qed

lemma initialize_spec:
  assumes dims: "dims d n"
  shows "\<exists>roll. initialize H d n (merkle_roll_new d n) = Inr (tree_root H d no_leaves, roll) \<and>
      roll_inv H d n roll [no_leaves] \<and> path_index (rightmost_proof roll) = 0 \<and>
      sequence_number roll = 0"
proof -
  let ?root = "tree_root H d no_leaves" and ?nodes = "map (empty_node H) [0..<d]"
  let ?logs = "change_logs (merkle_roll_new d n)"
  define roll where "roll = (merkle_roll_new d n)\<lparr>
      change_logs := ?logs[0 := (?logs ! 0)\<lparr>cl_root := ?root, cl_path := ?nodes\<rparr>],
      sequence_number := 0, active_index := 0, buffer_size := 1,
      rightmost_proof := (path_default d)\<lparr>path_proof := ?nodes\<rparr>\<rparr>"
  have root: "empty_node H d = ?root"
    by (simp add: tree_root_def empty_node_eq [of H d 0])
  have init: "initialize H d n (merkle_roll_new d n) = Inr (?root, roll)"
    by (simp add: initialize_def check_bounds_ok [OF dims] Let_def empty_node_cached_eq root roll_def)
  have logs: "?logs = replicate n (change_log_default d)"
    by (simp add: merkle_roll_new_def)
  have nodes: "?nodes = proof_at H d no_leaves 0"
    by (simp add: proof_at_def empty_node_eq)
  have "set (change_logs roll) \<subseteq> {(?logs ! 0)\<lparr>cl_root := ?root, cl_path := ?nodes\<rparr>,
      change_log_default d}"
    by (auto simp: roll_def logs dest: in_set_replicate [THEN iffD1] set_update_subset_insert [THEN subsetD])
  then have "\<forall>cl\<in>set (change_logs roll). unat (cl_index cl) < 2 ^ d \<and> length (cl_path cl) = d"
    using dims_pos [OF dims] by (auto simp: logs change_log_default_def)
  then have "buffer_inv H d n roll [no_leaves]"
    using dims_pos [OF dims] by (simp add: buffer_inv_def log_at_def roll_def logs Suc_le_eq)
  moreover have "rightmost_inv H d (rightmost_proof roll) no_leaves"
    by (simp add: rightmost_inv_def roll_def path_default_def nodes)
  ultimately show ?thesis
    using init dims by (simp add: roll_inv_def roll_def path_default_def)
qed

end
