(* ===== verification/Leaf_Store.thy ===== *)
theory Leaf_Store
  imports Merkle_Roll_Laws
begin

text \<open>
  The contract between the concurrent Merkle tree and the programs that keep their state in its
  leaves, as the interface \<open>leaf_store\<close>: appending and replacing leaves under proofs against any
  remembered root. The consequences a client relies on are proved from the contract alone: a
  sequence of appends stores the given leaves, writers of different leaves that read the same root
  do not disturb each other, and of two writers of the same leaf only one succeeds. The library
  \<open>MerkleRoll\<close> is shown to provide the contract.
\<close>

text \<open>Applying \<open>app\<close> to a list of leaves, stopping at the first failure.\<close>

fun append_all :: "(node \<Rightarrow> 's \<Rightarrow> 'e + node \<times> 's) \<Rightarrow> node list \<Rightarrow> 's \<Rightarrow> 'e + 's" where
  "append_all app [] s = Inr s"
| "append_all app (x # xs) s = and_then (app x s) (\<lambda>(_, s'). append_all app xs s')"

definition store_at :: "leaves \<Rightarrow> nat \<Rightarrow> node list \<Rightarrow> leaves" where
  "store_at L m xs = (\<lambda>j. if m \<le> j \<and> j < m + length xs then xs ! (j - m) else L j)"

lemma store_at_Nil [simp]: "store_at L m [] = L"
  by (rule ext) (auto simp: store_at_def)

lemma store_at_Cons: "store_at (L(m := x)) (Suc m) xs = store_at L m (x # xs)"
  by (rule ext) (auto simp: store_at_def nth_Cons' not_less_eq_eq)

text \<open>The most recent remembered tree with its root.\<close>

definition latest :: "hashv \<Rightarrow> nat \<Rightarrow> leaves list \<Rightarrow> nat \<Rightarrow> bool" where
  "latest H d hist t \<longleftrightarrow>
     t < length hist \<and> (\<forall>s<t. tree_root H d (hist ! s) \<noteq> tree_root H d (hist ! t))"

lemma latest_0: "hist \<noteq> [] \<Longrightarrow> latest H d hist 0"
  by (simp add: latest_def)

locale leaf_store =
  fixes H :: hashv and d n :: nat
    and represents :: "'s \<Rightarrow> leaves list \<Rightarrow> bool"
    and next_index :: "'s \<Rightarrow> nat"
    and app :: "node \<Rightarrow> 's \<Rightarrow> ('e, node \<times> 's) result"
    and put :: "node \<Rightarrow> node \<Rightarrow> node \<Rightarrow> node list \<Rightarrow> u32 \<Rightarrow> 's \<Rightarrow> ('e, node \<times> 's) result"
    and collides :: "'s \<Rightarrow> leaves \<Rightarrow> node \<Rightarrow> node \<Rightarrow> node list \<Rightarrow> u32 \<Rightarrow> bool"
  assumes history: "represents s hist \<Longrightarrow>
      hist \<noteq> [] \<and> length hist \<le> n \<and> next_index s \<le> 2 ^ d"
    and app_ok: "represents s hist \<Longrightarrow> x \<noteq> EMPTY \<Longrightarrow> next_index s < 2 ^ d \<Longrightarrow>
      \<exists>s'. app x s = Inr (tree_root H d ((hist ! 0)(next_index s := x)), s') \<and>
        represents s' ((hist ! 0)(next_index s := x) # take (n - 1) hist) \<and>
        next_index s' = Suc (next_index s)"
    and put_ok: "represents s hist \<Longrightarrow> unat i < 2 ^ d \<Longrightarrow> unat i \<le> next_index s \<Longrightarrow>
      latest H d hist t \<Longrightarrow> (hist ! t) (unat i) = (hist ! 0) (unat i) \<Longrightarrow>
      \<exists>s'. put (tree_root H d (hist ! t)) ((hist ! t) (unat i)) x
            (proof_at H d (hist ! t) (unat i)) i s =
          Inr (tree_root H d ((hist ! 0)(unat i := x)), s') \<and>
        represents s' ((hist ! 0)(unat i := x) # take (n - 1) hist) \<and>
        next_index s' = max (next_index s) (Suc (unat i))"
    and put_modified: "represents s hist \<Longrightarrow> unat i < 2 ^ d \<Longrightarrow> unat i \<le> next_index s \<Longrightarrow>
      latest H d hist t \<Longrightarrow> (hist ! t) (unat i) \<noteq> (hist ! 0) (unat i) \<Longrightarrow>
      \<exists>e. put (tree_root H d (hist ! t)) ((hist ! t) (unat i)) x
            (proof_at H d (hist ! t) (unat i)) i s = Inl (Err e)"
    and put_sound: "represents s hist \<Longrightarrow> unat i < 2 ^ d \<Longrightarrow>
      put root leaf x pv i s = Inr (r, s') \<Longrightarrow> \<not> collides s (hist ! 0) root leaf pv i \<Longrightarrow>
      leaf = (hist ! 0) (unat i) \<and> unat i \<le> next_index s \<and>
      r = tree_root H d ((hist ! 0)(unat i := x)) \<and>
      represents s' ((hist ! 0)(unat i := x) # take (n - 1) hist) \<and>
      next_index s' = max (next_index s) (Suc (unat i))"
begin

lemma append_all_ok:
  assumes "represents s hist" and "EMPTY \<notin> set xs" and "next_index s + length xs \<le> 2 ^ d"
  shows "\<exists>s' hist'. append_all app xs s = Inr s' \<and> represents s' hist' \<and>
    hist' ! 0 = store_at (hist ! 0) (next_index s) xs \<and>
    next_index s' = next_index s + length xs"
  using assms
proof (induction xs arbitrary: s hist)
  case (Cons x xs)
  obtain s1 where s1: "app x s = Inr (tree_root H d ((hist ! 0)(next_index s := x)), s1)"
    "represents s1 ((hist ! 0)(next_index s := x) # take (n - 1) hist)"
    "next_index s1 = Suc (next_index s)"
    using app_ok [OF Cons.prems(1), of x] Cons.prems by auto
  have "\<exists>s' hist'. append_all app xs s1 = Inr s' \<and> represents s' hist' \<and>
      hist' ! 0 = store_at (((hist ! 0)(next_index s := x) # take (n - 1) hist) ! 0)
        (next_index s1) xs \<and> next_index s' = next_index s1 + length xs"
    by (rule Cons.IH [OF s1(2)]) (use Cons.prems s1(3) in auto)
  then show ?case
    using s1 by (simp add: store_at_Cons del: fun_upd_apply)
qed auto

text \<open>The root read before one write of another leaf.\<close>

lemma second_writer:
  assumes s: "represents s ((hist ! 0)(unat i := x) # take (n - 1) hist)"
    and hist: "hist \<noteq> []" and n: "2 \<le> n"
    and j: "unat j < 2 ^ d" "unat j \<le> next_index s" "i \<noteq> j"
    and new: "tree_root H d ((hist ! 0)(unat i := x)) \<noteq> tree_root H d (hist ! 0)"
  shows "\<exists>s'. put (tree_root H d (hist ! 0)) ((hist ! 0) (unat j)) y
      (proof_at H d (hist ! 0) (unat j)) j s =
      Inr (tree_root H d ((hist ! 0)(unat i := x, unat j := y)), s')"
proof -
  let ?h = "(hist ! 0)(unat i := x) # take (n - 1) hist"
  have h1: "?h ! 1 = hist ! 0" and "1 < length ?h"
    using hist n by auto
  then have "latest H d ?h 1"
    using new by (simp add: latest_def)
  from put_ok [OF s j(1,2) this, of y] show ?thesis
    using h1 j(3) by (auto simp: word_unat_eq_iff)
qed

lemma writers_commute:
  assumes s: "represents s hist" and n: "2 \<le> n" and ij: "i \<noteq> j"
    and i: "unat i < 2 ^ d" "unat i \<le> next_index s"
    and j: "unat j < 2 ^ d" "unat j \<le> next_index s"
    and new: "tree_root H d ((hist ! 0)(unat i := x)) \<noteq> tree_root H d (hist ! 0)"
      "tree_root H d ((hist ! 0)(unat j := y)) \<noteq> tree_root H d (hist ! 0)"
  defines "root \<equiv> tree_root H d (hist ! 0)"
    and "put_i \<equiv> put (tree_root H d (hist ! 0)) ((hist ! 0) (unat i)) x
      (proof_at H d (hist ! 0) (unat i)) i"
    and "put_j \<equiv> put (tree_root H d (hist ! 0)) ((hist ! 0) (unat j)) y
      (proof_at H d (hist ! 0) (unat j)) j"
  shows "\<exists>ri si sij rj sj sji.
    put_i s = Inr (ri, si) \<and>
    put_j si = Inr (tree_root H d ((hist ! 0)(unat i := x, unat j := y)), sij) \<and>
    put_j s = Inr (rj, sj) \<and>
    put_i sj = Inr (tree_root H d ((hist ! 0)(unat i := x, unat j := y)), sji)"
proof -
  have ne: "hist \<noteq> []" using history [OF s] by simp
  note first = put_ok [OF s _ _ latest_0 [OF ne] refl]
  from first [OF i, of x] obtain si where si: "put_i s = Inr (tree_root H d ((hist ! 0)(unat i := x)), si)"
    "represents si ((hist ! 0)(unat i := x) # take (n - 1) hist)"
    "next_index si = max (next_index s) (Suc (unat i))"
    unfolding put_i_def by blast
  from first [OF j, of y] obtain sj where sj: "put_j s = Inr (tree_root H d ((hist ! 0)(unat j := y)), sj)"
    "represents sj ((hist ! 0)(unat j := y) # take (n - 1) hist)"
    "next_index sj = max (next_index s) (Suc (unat j))"
    unfolding put_j_def by blast
  have "\<exists>sij. put_j si = Inr (tree_root H d ((hist ! 0)(unat i := x, unat j := y)), sij)"
    unfolding put_j_def by (rule second_writer [OF si(2) ne n _ _ ij new(1)]) (use si(3) j in auto)
  moreover have "\<exists>sji. put_i sj = Inr (tree_root H d ((hist ! 0)(unat j := y, unat i := x)), sji)"
    unfolding put_i_def
    by (rule second_writer [OF sj(2) ne n _ _ _ new(2)]) (use sj(3) i ij in auto)
  moreover have "(hist ! 0)(unat j := y, unat i := x) = (hist ! 0)(unat i := x, unat j := y)"
    using ij by (intro fun_upd_twist) (simp add: word_unat_eq_iff)
  ultimately show ?thesis
    using si(1) sj(1) by metis
qed

text \<open>A writer whose leaf was overwritten after the root was read fails.\<close>

lemma no_lost_update:
  assumes s: "represents s hist" and n: "2 \<le> n"
    and i: "unat i < 2 ^ d" "unat i \<le> next_index s"
    and new: "x \<noteq> (hist ! 0) (unat i)"
      "tree_root H d ((hist ! 0)(unat i := x)) \<noteq> tree_root H d (hist ! 0)"
  shows "\<exists>r s' e. put (tree_root H d (hist ! 0)) ((hist ! 0) (unat i)) x
      (proof_at H d (hist ! 0) (unat i)) i s = Inr (r, s') \<and>
    put (tree_root H d (hist ! 0)) ((hist ! 0) (unat i)) y
      (proof_at H d (hist ! 0) (unat i)) i s' = Inl (Err e)"
proof -
  have ne: "hist \<noteq> []" using history [OF s] by simp
  obtain r s' where s': "put (tree_root H d (hist ! 0)) ((hist ! 0) (unat i)) x
      (proof_at H d (hist ! 0) (unat i)) i s = Inr (r, s')"
    "represents s' ((hist ! 0)(unat i := x) # take (n - 1) hist)"
    "next_index s' = max (next_index s) (Suc (unat i))"
    using put_ok [OF s i latest_0 [OF ne] refl, of x] by blast
  let ?h = "(hist ! 0)(unat i := x) # take (n - 1) hist"
  have h1: "?h ! 1 = hist ! 0" and "1 < length ?h"
    using ne n by auto
  then have "latest H d ?h 1"
    using new(2) by (simp add: latest_def)
  from put_modified [OF s'(2) i(1) _ this, of y] show ?thesis
    using s'(1,3) i(2) h1 new(1) by auto
qed

end

section \<open>The concurrent Merkle tree provides the contract\<close>

definition next_leaf :: "merkle_roll \<Rightarrow> nat" where
  "next_leaf roll = unat (path_index (rightmost_proof roll))"

lemma wroteD:
  assumes "wrote H d n hist i x roll roll'"
  shows "roll_inv H d n roll' ((hist ! 0)(i := x) # take (n - 1) hist)"
    and "next_leaf roll' = max (next_leaf roll) (Suc i)"
    and "sequence_number roll' = saturating_add (sequence_number roll) 1"
    and "unat (cl_index (get_change_log roll')) = i"
    and "cl_path (get_change_log roll') = path_at H d ((hist ! 0)(i := x)) i"
    and "cl_root (get_change_log roll') = tree_root H d ((hist ! 0)(i := x))"
  using assms by (auto simp: wrote_def next_leaf_def)

lemma roll_inv_history:
  assumes "roll_inv H d n roll hist"
  shows "hist \<noteq> [] \<and> length hist \<le> n \<and> next_leaf roll \<le> 2 ^ d"
  using assms buffer_invD(3,5) [of H d n roll hist] rightmost_invD(1) [of H d "rightmost_proof roll"]
  by (auto simp: roll_inv_def next_leaf_def)

interpretation roll: leaf_store H d n "roll_inv H d n" next_leaf "append_node H d n"
  "set_leaf H d n" "replay_collides H d n"
  for H d n
proof (unfold_locales, goal_cases)
  case (1 s hist)
  then show ?case by (rule roll_inv_history)
next
  case (2 s hist x)
  then obtain s' where "append_node H d n x s = Inr (tree_root H d ((hist ! 0)(next_leaf s := x)), s')"
    "wrote H d n hist (next_leaf s) x s s'"
    using append_node_spec [OF 2(1,2)] by (auto simp: next_leaf_def)
  then show ?case using wroteD(1,2) by auto
next
  case (3 s hist i t x)
  have t: "right_for H d (unat i) hist (replay_depth H d hist (tree_root H d (hist ! t)))
      (filled H d (proof_at H d (hist ! t) (unat i))) ((hist ! t) (unat i))"
    "remembered H d hist (tree_root H d (hist ! t)) \<or> 1 < length hist"
    using 3(4) right_for_history [of t hist H d] by (auto simp: latest_def)
  obtain s' where "set_leaf H d n (tree_root H d (hist ! t)) ((hist ! t) (unat i)) x
      (proof_at H d (hist ! t) (unat i)) i s = Inr (tree_root H d ((hist ! 0)(unat i := x)), s')"
    "wrote H d n hist (unat i) x s s'"
    using set_leaf_complete_aux [OF 3(1,2) _ _ t, of x] 3(3,5) by (auto simp: next_leaf_def)
  then show ?case using wroteD(1,2) by auto
next
  case (4 s hist i t x)
  have t: "right_for H d (unat i) hist (replay_depth H d hist (tree_root H d (hist ! t)))
      (filled H d (proof_at H d (hist ! t) (unat i))) ((hist ! t) (unat i))"
    "remembered H d hist (tree_root H d (hist ! t)) \<or> 1 < length hist"
    using 4(4) right_for_history [of t hist H d] by (auto simp: latest_def)
  show ?case
    using set_leaf_complete_aux [OF 4(1,2) _ _ t, of x] 4(3,5) by (auto simp: next_leaf_def)
next
  case (5 s hist i root leaf x pv r s')
  then show ?case
    using set_leaf_sound_aux [OF 5] wroteD(1,2) by (auto simp: next_leaf_def)
qed

end
