(* ===== verification/Merkle_Run.thy ===== *)
theory Merkle_Run
  imports Leaf_Store
begin

text \<open>
  Sequences of operations on one tree. A run starts with \<open>initialize\<close>; an operation that fails
  aborts its transaction and leaves the state alone; an operation that writes emits its change log,
  and \<open>indexed\<close> is the leaf assignment that an indexer rebuilds from the emitted change logs. The
  abstract specification \<open>spec_step\<close> describes the same operations on leaf assignments without
  hashes, buffers or proofs.
\<close>

section \<open>Operations and runs\<close>

datatype tree_op =
    Append node
  | SetLeaf node node node "node list" u32
  | FillEmptyOrAppend node node "node list" u32
  | ProveLeaf node node "node list" u32

fun tree_exec ::
  "hashv \<Rightarrow> nat \<Rightarrow> nat \<Rightarrow> tree_op \<Rightarrow> merkle_roll \<Rightarrow> (CMTError, node \<times> merkle_roll) result" where
  "tree_exec H d n (Append x) roll = append_node H d n x roll"
| "tree_exec H d n (SetLeaf root prev new pv i) roll = set_leaf H d n root prev new pv i roll"
| "tree_exec H d n (FillEmptyOrAppend root leaf pv i) roll =
     fill_empty_or_append H d n root leaf pv i roll"
| "tree_exec H d n (ProveLeaf root leaf pv i) roll = prove_leaf H d n root leaf pv i roll"

fun op_index :: "tree_op \<Rightarrow> u32" where
  "op_index (Append x) = 0"
| "op_index (SetLeaf root prev new pv i) = i"
| "op_index (FillEmptyOrAppend root leaf pv i) = i"
| "op_index (ProveLeaf root leaf pv i) = i"

fun op_collides :: "hashv \<Rightarrow> nat \<Rightarrow> nat \<Rightarrow> merkle_roll \<Rightarrow> leaves \<Rightarrow> tree_op \<Rightarrow> bool" where
  "op_collides H d n roll L (Append x) = False"
| "op_collides H d n roll L (SetLeaf root prev new pv i) =
     replay_collides H d n roll L root prev pv i"
| "op_collides H d n roll L (FillEmptyOrAppend root leaf pv i) =
     replay_collides H d n roll L root EMPTY pv i"
| "op_collides H d n roll L (ProveLeaf root leaf pv i) =
     replay_collides H d n roll L root leaf pv i"

fun indexed :: "tree_op \<Rightarrow> merkle_roll \<Rightarrow> leaves \<Rightarrow> leaves" where
  "indexed (ProveLeaf root leaf pv i) roll L = L"
| "indexed op roll L = L(unat (cl_index (get_change_log roll)) := get_leaf (get_change_log roll))"

inductive tree_run :: "hashv \<Rightarrow> nat \<Rightarrow> nat \<Rightarrow> tree_op list \<Rightarrow> merkle_roll \<Rightarrow> leaves \<Rightarrow> bool"
  for H d n where
  start: "initialize H d n (merkle_roll_new d n) = Inr (r, roll) \<Longrightarrow>
    tree_run H d n [] roll no_leaves"
| step: "tree_run H d n ops roll L \<Longrightarrow> tree_exec H d n op roll = Inr (r, roll') \<Longrightarrow>
    unat (op_index op) < 2 ^ d \<Longrightarrow> \<not> op_collides H d n roll L op \<Longrightarrow>
    tree_run H d n (ops @ [op]) roll' (indexed op roll' L)"
| abort: "tree_run H d n ops roll L \<Longrightarrow> tree_exec H d n op roll = Inl e \<Longrightarrow>
    tree_run H d n (ops @ [op]) roll L"

inductive_cases tree_run_snocE: "tree_run H d n (ops @ [op]) roll L"

section \<open>The abstract specification\<close>

text \<open>
  The state is the leaf assignment and the number of leaves handed out. Appending is
  deterministic; the other operations may be refused, and may happen under their guard only.
\<close>

inductive spec_step :: "nat \<Rightarrow> tree_op \<Rightarrow> leaves \<times> nat \<Rightarrow> leaves \<times> nat \<Rightarrow> bool" for d where
  append: "x \<noteq> EMPTY \<Longrightarrow> m < 2 ^ d \<Longrightarrow> spec_step d (Append x) (L, m) (L(m := x), Suc m)"
| set_leaf: "L (unat i) = prev \<Longrightarrow> unat i \<le> m \<Longrightarrow> unat i < 2 ^ d \<Longrightarrow>
    spec_step d (SetLeaf root prev new pv i) (L, m) (L(unat i := new), max m (Suc (unat i)))"
| fill: "L (unat i) = EMPTY \<Longrightarrow> unat i \<le> m \<Longrightarrow> unat i < 2 ^ d \<Longrightarrow>
    spec_step d (FillEmptyOrAppend root leaf pv i) (L, m)
      (L(unat i := leaf), max m (Suc (unat i)))"
| fill_append: "leaf \<noteq> EMPTY \<Longrightarrow> m < 2 ^ d \<Longrightarrow>
    spec_step d (FillEmptyOrAppend root leaf pv i) (L, m) (L(m := leaf), Suc m)"
| prove: "L (unat i) = leaf \<Longrightarrow> unat i \<le> m \<Longrightarrow>
    spec_step d (ProveLeaf root leaf pv i) (L, m) (L, m)"

inductive_cases spec_step_AppendE: "spec_step d (Append x) s s'"

section \<open>Simulation\<close>

lemma try_apply_proof_index:
  assumes inv: "roll_inv H d n roll hist" and i: "unat i < 2 ^ d"
    and ok: "try_apply_proof H d n root leaf x ps i allow roll = Inr r"
  shows "unat i \<le> next_leaf roll"
proof -
  have dims: "dims d n"
    using inv by (simp add: roll_inv_def)
  obtain ps' where "update_buffers_from_proof H d x ps' i (update_internal_counters n roll) = Inr r"
    using ok by (auto simp: try_apply_proof_def result_simps split: if_splits)
  then show ?thesis
    using i counters(4) [OF inv] full_iff [OF dims, of "path_index (rightmost_proof roll)"]
    by (auto simp: update_buffers_from_proof_def Let_def result_simps next_leaf_def
        word_less_nat_alt not_le split: if_splits prod.splits)
qed

lemma indexed_wrote:
  assumes "wrote H d n hist i x roll roll'" and "0 < d"
  shows "(hist ! 0)(unat (cl_index (get_change_log roll')) := get_leaf (get_change_log roll')) =
    (hist ! 0)(i := x)"
  using wroteD(4,5) [OF assms(1)] assms(2) by (simp add: get_leaf_def nth_path_at)

text \<open>A step that writes leaf \<open>i\<close>: the histories, the indexed leaves and the abstract step.\<close>

definition simulates ::
  "hashv \<Rightarrow> nat \<Rightarrow> nat \<Rightarrow> leaves list \<Rightarrow> tree_op \<Rightarrow> merkle_roll \<Rightarrow> merkle_roll \<Rightarrow> bool" where
  "simulates H d n hist op roll roll' \<longleftrightarrow>
     (\<exists>hist'. roll_inv H d n roll' hist' \<and> hist' ! 0 = indexed op roll' (hist ! 0)) \<and>
     spec_step d op (hist ! 0, next_leaf roll) (indexed op roll' (hist ! 0), next_leaf roll')"

lemma simulatesI:
  assumes w: "wrote H d n hist i x roll roll'" and inv: "roll_inv H d n roll hist"
    and spec: "spec_step d op (hist ! 0, next_leaf roll)
      ((hist ! 0)(i := x), max (next_leaf roll) (Suc i))"
    and op: "\<And>L. indexed op roll' L =
      L(unat (cl_index (get_change_log roll')) := get_leaf (get_change_log roll'))"
  shows "simulates H d n hist op roll roll'"
proof -
  have "0 < d"
    using inv by (simp add: roll_inv_def dims_def)
  then have ix: "indexed op roll' (hist ! 0) = (hist ! 0)(i := x)"
    using indexed_wrote [OF w] op by simp
  have "((hist ! 0)(i := x) # take (n - 1) hist) ! 0 = (hist ! 0)(i := x)"
    by simp
  then show ?thesis
    unfolding simulates_def ix wroteD(2) [OF w] using wroteD(1) [OF w] spec by blast
qed

lemma append_simulates:
  assumes inv: "roll_inv H d n roll hist" and ok: "append_node H d n x roll = Inr (r, roll')"
  shows "wrote H d n hist (next_leaf roll) x roll roll'" and "x \<noteq> EMPTY" and "next_leaf roll < 2 ^ d"
  using append_node_eq [OF inv, of x] ok by (auto simp: next_leaf_def not_le split: if_splits)

lemma fill_empty_or_append_wrote:
  assumes inv: "roll_inv H d n roll hist" and i: "unat i < 2 ^ d"
    and ok: "fill_empty_or_append H d n root leaf pv i roll = Inr (r, roll')"
    and coll: "\<not> replay_collides H d n roll (hist ! 0) root EMPTY pv i"
  shows "(hist ! 0) (unat i) = EMPTY \<and> unat i \<le> next_leaf roll \<and>
      wrote H d n hist (unat i) leaf roll roll' \<or>
    leaf \<noteq> EMPTY \<and> next_leaf roll < 2 ^ d \<and> wrote H d n hist (next_leaf roll) leaf roll roll'"
proof -
  have len: "length pv \<le> d"
    using ok by (auto simp: fill_empty_or_append_eq [OF inv] split: if_splits)
  consider (filled) "try_apply_proof H d n root EMPTY leaf (filled H d pv) i False roll = Inr (r, roll')"
    | (appended) "append_node H d n leaf roll = Inr (r, roll')"
    using ok by (auto simp: fill_empty_or_append_eq [OF inv]
        split: if_splits sum.splits failure.splits CMTError.splits)
  then show ?thesis
  proof cases
    case filled
    have ix: "unat i \<le> next_leaf roll"
      by (rule try_apply_proof_index [OF inv i filled])
    then show ?thesis
      using try_apply_proof_sound [OF inv i _ len filled coll] by (simp add: next_leaf_def)
  next
    case appended
    then show ?thesis
      using append_simulates [OF inv appended] by blast
  qed
qed

lemma tree_exec_simulates:
  assumes inv: "roll_inv H d n roll hist" and ok: "tree_exec H d n op roll = Inr (r, roll')"
    and i: "unat (op_index op) < 2 ^ d" and coll: "\<not> op_collides H d n roll (hist ! 0) op"
  shows "simulates H d n hist op roll roll'"
proof (cases op)
  case (Append x)
  note app = append_simulates [OF inv, of x r roll']
  show ?thesis
    by (rule simulatesI [OF app(1) inv]) (use Append ok app in \<open>auto simp: max_def intro: spec_step.append\<close>)
next
  case (SetLeaf root prev new pv i)
  have "prev = (hist ! 0) (unat i) \<and> unat i \<le> next_leaf roll \<and> wrote H d n hist (unat i) new roll roll'"
    using set_leaf_sound_aux [OF inv, of i root prev new pv r roll'] SetLeaf ok i coll
    by (simp add: next_leaf_def)
  then show ?thesis
    using SetLeaf i by (intro simulatesI [OF _ inv, of "unat i" new]) (auto intro: spec_step.set_leaf)
next
  case (FillEmptyOrAppend root leaf pv i)
  have eq: "fill_empty_or_append H d n root leaf pv i roll = Inr (r, roll')"
    and "unat i < 2 ^ d" and "\<not> replay_collides H d n roll (hist ! 0) root EMPTY pv i"
    using ok i coll FillEmptyOrAppend by auto
  from fill_empty_or_append_wrote [OF inv this(2,1,3)] consider
    (filled) "(hist ! 0) (unat i) = EMPTY" "unat i \<le> next_leaf roll"
      "wrote H d n hist (unat i) leaf roll roll'"
    | (appended) "leaf \<noteq> EMPTY" "next_leaf roll < 2 ^ d" "wrote H d n hist (next_leaf roll) leaf roll roll'"
    by blast
  then show ?thesis
  proof cases
    case filled
    then show ?thesis
      using FillEmptyOrAppend i by (intro simulatesI [OF filled(3) inv]) (auto intro: spec_step.fill)
  next
    case appended
    then show ?thesis
      using FillEmptyOrAppend
      by (intro simulatesI [OF appended(3) inv]) (auto simp: max_def intro: spec_step.fill_append)
  qed
next
  case (ProveLeaf root leaf pv i)
  have ix: "unat i \<le> next_leaf roll" and len: "length pv \<le> d" and roll': "roll' = roll"
    and v: "\<exists>ps. check_valid_leaf H d n roll root leaf (filled H d pv) i True = Inr (True, ps)"
    using ok ProveLeaf by (auto simp: prove_leaf_eq [OF inv] result_simps next_leaf_def
        word_less_nat_alt not_less split: if_splits)
  from v obtain ps where ps: "check_valid_leaf H d n roll root leaf (filled H d pv) i True =
      Inr (True, ps)" ..
  have "leaf = (hist ! 0) (unat i)"
    by (rule check_valid_leaf_sound(1) [OF inv _ length_filled [OF len] ps])
      (use i coll ProveLeaf ps in \<open>auto simp: replay_collides_def\<close>)
  then show ?thesis
    using inv ix by (auto simp: simulates_def ProveLeaf roll' intro: spec_step.prove)
qed

lemma tree_run_inv:
  assumes "tree_run H d n ops roll L" and "dims d n"
  shows "\<exists>hist. roll_inv H d n roll hist \<and> hist ! 0 = L"
  using assms
proof (induction rule: tree_run.induct)
  case (start r roll)
  then show ?case
    using initialize_spec [of d n H] by auto
next
  case (step ops roll L op r roll')
  then obtain hist where "roll_inv H d n roll hist" "hist ! 0 = L" by blast
  then have "simulates H d n hist op roll roll'" "hist ! 0 = L"
    using tree_exec_simulates step.hyps by auto
  then show ?case
    by (auto simp: simulates_def)
qed auto

end
