(* ===== verification/Canopy.thy ===== *)
theory Canopy
  imports Gummyroll Merkle_Run
begin

text \<open>
  The canopy caches the nodes of the tree at depths 1 to \<open>p\<close>; a node that was never written is
  \<open>EMPTY\<close> and stands for an empty subtree. The lemmas show that completing a proof from the canopy
  appends exactly the upper nodes of the leaf's proof in the current tree, and that the canopy
  written from an emitted change log caches the new tree.
\<close>

section \<open>Numbering of the nodes\<close>

lemma heap_inj:
  fixes l l' m m' :: nat
  assumes "2 ^ l + m = 2 ^ l' + m'" and "m < 2 ^ l" and "m' < 2 ^ l'"
  shows "l = l' \<and> m = m'"
proof -
  have "l = l'" if "2 ^ l + m = (2 :: nat) ^ l' + m'" "m < 2 ^ l" "m' < 2 ^ l'" for l l' m m' :: nat
  proof (rule ccontr)
    assume "l \<noteq> l'"
    then consider "Suc l \<le> l'" | "Suc l' \<le> l" by linarith
    then show False
    proof cases
      case 1
      then have "(2 :: nat) ^ Suc l \<le> 2 ^ l'" by (rule power_increasing) simp
      then show False using that by simp
    next
      case 2
      then have "(2 :: nat) ^ Suc l' \<le> 2 ^ l" by (rule power_increasing) simp
      then show False using that by simp
    qed
  qed
  from this [OF assms] show ?thesis
    using assms(1) by simp
qed

lemma heap_bound:
  assumes "l \<le> p" and "m < (2 :: nat) ^ l"
  shows "2 ^ l + m < 2 ^ Suc p"
proof -
  have "(2 :: nat) ^ Suc l \<le> 2 ^ Suc p"
    by (rule power_increasing) (use assms in auto)
  moreover have "2 ^ l + m < 2 ^ Suc l"
    using assms(2) by simp
  ultimately show ?thesis by (rule less_le_trans [rotated])
qed

lemma heap_two: "0 < l \<Longrightarrow> 2 \<le> (2 :: nat) ^ l + m"
  by (cases l) (auto simp: add_increasing2)

lemma path_pos_less:
  assumes "i < (2 :: nat) ^ d" and "l \<le> d"
  shows "i div 2 ^ (d - l) < 2 ^ l"
  using assms by (simp add: less_mult_imp_div_less flip: power_add)

lemma sibling_less: "m < 2 ^ l \<Longrightarrow> 0 < l \<Longrightarrow> sibling m < 2 ^ l"
  by (cases l) (auto simp: sibling_def elim!: evenE oddE)

lemma heap_sibling: "0 < l \<Longrightarrow> sibling (2 ^ l + m) = 2 ^ l + sibling m"
  by (cases l) (auto simp: sibling_def elim!: oddE)

lemma heap_leading_zeros:
  fixes w :: u32
  assumes "unat w = 2 ^ l + m" and "m < 2 ^ l"
  shows "leading_zeros w = 31 - l"
proof -
  have lt: "unat w < 2 ^ Suc l"
    using assms by simp
  have "unat w div 2 ^ l = 1"
    by (rule div_nat_eqI) (use assms in auto)
  then have bit: "bit w l"
    by (simp add: bit_word_odd)
  then have "l < LENGTH(32)"
    by (rule bit_imp_le_length)
  moreover have "\<not> bit w k" if "l < k" for k
  proof -
    have "(2 :: nat) ^ Suc l \<le> 2 ^ k"
      by (rule power_increasing) (use that in auto)
    then have "unat w div 2 ^ k = 0"
      using lt by simp
    then show ?thesis
      by (simp add: bit_word_odd)
  qed
  ultimately show ?thesis
    using leading_zeros_eqI [of l w] bit by simp
qed

section \<open>The cached path length\<close>

lemma power_of_two_word:
  fixes w :: "'a::len word"
  assumes "w \<noteq> 0" and "w AND (w - 1) = 0"
  shows "unat w = 2 ^ trailing_zeros w"
proof -
  obtain q where q: "unat w = 2 ^ trailing_zeros w * (2 * q + 1)"
    using lowest_bit [OF assms(1)] by blast
  define t where "t = trailing_zeros w"
  have "(unat w - 1) div 2 ^ Suc t = unat w div 2 ^ Suc t"
    using paths_meet(5) [OF q, of "Suc t"] by (simp add: t_def)
  moreover have "unat w div 2 ^ Suc t = q"
    unfolding div_pow_Suc using q by (simp add: t_def)
  moreover have "unat (w - 1) = unat w - 1"
    using assms(1) by (simp add: unat_minus_one)
  ultimately have dw: "drop_bit (Suc t) (unat w) = q" "drop_bit (Suc t) (unat (w - 1)) = q"
    by (simp_all only: drop_bit_eq_div)
  have "unat w AND unat (w - 1) = 0"
    using assms(2) by (metis unsigned_0 unsigned_and_eq)
  then have "drop_bit (Suc t) (unat w) AND drop_bit (Suc t) (unat (w - 1)) = 0"
    by (simp only: drop_bit_and [symmetric] drop_bit_of_0)
  then have "q = 0"
    by (simp only: dw and.idem)
  then show ?thesis
    using q by simp
qed

lemma trailing_zeros_pow:
  assumes "q < LENGTH('a)"
  shows "trailing_zeros (2 ^ q :: 'a::len word) = q"
  by (rule trailing_zeros_eqI) (use assms in \<open>auto simp: bit_exp_iff\<close>)

lemma and_pred_pow2_word: "(2 ^ q :: 'a::len word) AND (2 ^ q - 1) = 0"
proof -
  have "(2 ^ q :: 'a word) AND mask q = take_bit q (2 ^ q)"
    by (simp only: take_bit_eq_mask)
  also have "\<dots> = 0"
    by (rule bit_eqI) (auto simp: bit_take_bit_iff bit_exp_iff)
  finally show ?thesis
    by (simp only: mask_eq_exp_minus_1)
qed

lemma get_cached_path_length_eq:
  assumes len: "length canopy = 2 ^ Suc p - 2" and p: "p \<le> d" "d < 31"
  shows "get_cached_path_length canopy d = Inr p"
proof -
  have "2 \<le> (2 :: nat) ^ Suc p"
    by (simp add: self_le_power)
  then have c: "of_nat (length canopy + 2) = (2 ^ Suc p :: u32)"
    by (simp add: len del: power_Suc)
  have u: "unat (2 ^ Suc p :: u32) = 2 ^ Suc p" "unat (2 ^ Suc d :: u32) = 2 ^ Suc d"
    using p unat_push_bit_one [of "Suc p", where 'a = 32] unat_push_bit_one [of "Suc d", where 'a = 32]
    by (simp_all add: push_bit_eq_mult del: power_Suc)
  have nz: "(2 ^ Suc p :: u32) \<noteq> 0"
    using u(1) by (metis power_eq_0_iff unat_0 zero_neq_numeral)
  have and0: "(2 ^ Suc p :: u32) AND (2 ^ Suc p - 1) = 0"
    by (rule and_pred_pow2_word)
  have "checked_sub (2 ^ Suc p :: u32) 1 = Some (2 ^ Suc p - 1)"
    using nz by (simp add: checked_sub_def word_le_nat_alt u unat_gt_0 Suc_le_eq del: power_Suc)
  moreover have "\<not> push_bit (d + 1) 1 < (2 ^ Suc p :: u32)"
  proof -
    have "(2 :: nat) ^ Suc p \<le> 2 ^ Suc d"
      by (rule power_increasing) (use p in auto)
    then show ?thesis
      by (simp add: push_bit_eq_mult word_less_nat_alt u del: power_Suc)
  qed
  moreover have "trailing_zeros (2 ^ Suc p :: u32) = Suc p"
    by (rule trailing_zeros_pow) (use p in simp)
  ultimately show ?thesis
    unfolding get_cached_path_length_def Let_def c by (simp add: and0 del: power_Suc)
qed

lemma get_cached_path_length_inv:
  assumes ok: "get_cached_path_length canopy d = Inr p" and d: "d < 31"
    and small: "length canopy + 2 < 2 ^ 32"
  shows "length canopy = 2 ^ Suc p - 2 \<and> p \<le> d"
proof -
  define c where "c = (of_nat (length canopy + 2) :: u32)"
  have c: "unat c = length canopy + 2"
    using small unfolding c_def by (simp only: unat_of_nat) simp
  then have nz: "c \<noteq> 0" by auto
  have "checked_sub c 1 = Some (c - 1)"
    by (simp add: checked_sub_def word_le_nat_alt c)
  with ok have and0: "c AND (c - 1) = 0" and le: "\<not> push_bit (d + 1) 1 < c"
    and p: "p = trailing_zeros c - 1" "trailing_zeros c \<noteq> 0"
    unfolding get_cached_path_length_def Let_def c_def [symmetric]
    by (auto split: if_splits)
  have pow: "unat c = 2 ^ Suc p"
    using power_of_two_word [OF nz and0] p by simp
  have "unat c \<le> 2 ^ Suc d"
    using le d unat_push_bit_one [of "d + 1", where 'a = 32] by (simp add: word_less_nat_alt)
  then have "p \<le> d"
    unfolding pow by (simp add: power_le_imp_le_exp)
  then show ?thesis
    using c pow by simp
qed

section \<open>The invariant of the canopy\<close>

definition hash_nonzero :: "hashv \<Rightarrow> bool" where
  "hash_nonzero H \<longleftrightarrow> (\<forall>a b. H [a, b] \<noteq> EMPTY)"

definition caches :: "hashv \<Rightarrow> nat \<Rightarrow> node \<Rightarrow> node \<Rightarrow> bool" where
  "caches H level e v \<longleftrightarrow> (if e = EMPTY then v = empty_node H level else e = v)"

definition canopy_inv :: "hashv \<Rightarrow> nat \<Rightarrow> nat \<Rightarrow> node list \<Rightarrow> leaves \<Rightarrow> bool" where
  "canopy_inv H d p canopy L \<longleftrightarrow>
     p \<le> d \<and> length canopy = 2 ^ Suc p - 2 \<and>
     (\<forall>l m. 0 < l \<longrightarrow> l \<le> p \<longrightarrow> m < 2 ^ l \<longrightarrow>
        caches H (d - l) (canopy ! (2 ^ l + m - 2)) (node_at H (d - l) m L))"

lemma canopy_invD:
  assumes "canopy_inv H d p canopy L"
  shows "p \<le> d" "length canopy = 2 ^ Suc p - 2"
    "\<And>l m. 0 < l \<Longrightarrow> l \<le> p \<Longrightarrow> m < 2 ^ l \<Longrightarrow>
      caches H (d - l) (canopy ! (2 ^ l + m - 2)) (node_at H (d - l) m L)"
  using assms by (auto simp: canopy_inv_def)

lemma caches_node:
  assumes "hash_nonzero H"
  shows "caches H k (node_at H k m L) (node_at H k m L)"
  using assms by (cases k) (auto simp: caches_def hash_nonzero_def empty_node_eq [of H 0 0])

lemma canopy_inv_empty:
  assumes "p \<le> d"
  shows "canopy_inv H d p (replicate (2 ^ Suc p - 2) EMPTY) no_leaves"
proof -
  have "2 ^ l + m - 2 < (2 :: nat) ^ Suc p - 2" if "0 < l" "l \<le> p" "m < 2 ^ l" for l m
    using heap_bound [OF that(2,3)] heap_two [OF that(1), of m] by (simp del: power_Suc)
  then show ?thesis
    using assms empty_node_eq [of H]
    by (auto simp: canopy_inv_def caches_def simp del: power_Suc)
qed

lemma canopy_inv_update:
  assumes inv: "canopy_inv H d p canopy L" and l: "0 < l" "l \<le> p" "m < 2 ^ l"
    and e: "caches H (d - l) e (node_at H (d - l) m L)"
  shows "canopy_inv H d p (canopy[2 ^ l + m - 2 := e]) L"
proof -
  have "caches H (d - l') (canopy[2 ^ l + m - 2 := e] ! (2 ^ l' + m' - 2)) (node_at H (d - l') m' L)"
    if l': "0 < l'" "l' \<le> p" "m' < 2 ^ l'" for l' m'
  proof (cases "2 ^ l + m - 2 = (2 :: nat) ^ l' + m' - 2")
    case True
    then have "l = l' \<and> m = m'"
      using heap_inj [of l m l' m'] heap_two [OF l(1), of m] heap_two [OF l'(1), of m'] l(3) l'(3)
      by linarith
    moreover have "2 ^ l + m - 2 < length canopy"
      using heap_bound [OF l(2,3)] heap_two [OF l(1), of m] canopy_invD(2) [OF inv]
      by (simp del: power_Suc)
    ultimately show ?thesis
      using e by simp
  next
    case False
    then show ?thesis
      using canopy_invD(3) [OF inv l'] by simp
  qed
  then show ?thesis
    using canopy_invD(1,2) [OF inv] by (simp add: canopy_inv_def)
qed

section \<open>Completing a proof\<close>

lemma canopy_loop_spec:
  fixes w :: u32
  assumes "canopy_inv H d p canopy L" and "l \<le> p" and "d < 31" and "i < 2 ^ d"
    and "unat w = 2 ^ l + i div 2 ^ (d - l)"
  shows "\<exists>canopy'. canopy_loop H d w canopy ns =
      Inr (canopy', ns @ drop (d - l) (proof_at H d L i)) \<and> canopy_inv H d p canopy' L"
  using assms
proof (induction l arbitrary: w canopy ns)
  case 0
  then have "unat w = 1"
    by simp
  then show ?case
    using 0(1) by (auto simp: canopy_loop.simps [of H d w] word_less_nat_alt)
next
  case (Suc l)
  let ?l = "Suc l" and ?m = "i div 2 ^ (d - Suc l)"
  note inv = Suc.prems(1)
  have ld: "Suc l \<le> d"
    using Suc.prems(2) canopy_invD(1) [OF inv] by simp
  have m: "?m < 2 ^ ?l"
    by (rule path_pos_less [OF Suc.prems(4) ld])
  have sm: "sibling ?m < 2 ^ ?l"
    by (rule sibling_less [OF m]) simp
  have w2: "2 \<le> unat w"
    using heap_two [of ?l ?m] Suc.prems(5) by simp
  let ?c = "if (unat w - 2) mod 2 = 0 then unat w - 2 + 1 else unat w - 2 - 1"
  have "even (unat w - 2) = even (unat w)"
    using w2 by simp
  then have "?c = sibling (unat w) - 2"
    using w2 unfolding sibling_def by (auto simp: even_iff_mod_2_eq_zero [symmetric])
  also have "sibling (unat w) = 2 ^ ?l + sibling ?m"
    unfolding Suc.prems(5) by (rule heap_sibling) simp
  finally have c: "?c = 2 ^ ?l + sibling ?m - 2" .
  have bound: "?c < length canopy"
    unfolding c using heap_bound [OF Suc.prems(2) sm] heap_two [of ?l "sibling ?m"]
      canopy_invD(2) [OF inv] by (simp del: power_Suc)
  have lz: "31 - leading_zeros w = ?l"
    using heap_leading_zeros [OF Suc.prems(5) m] ld Suc.prems(3) by simp
  let ?v = "node_at H (d - ?l) (sibling ?m) L"
  have cache: "caches H (d - ?l) (canopy ! ?c) ?v"
    unfolding c using canopy_invD(3) [OF inv, of ?l "sibling ?m"] Suc.prems(2) sm by simp
  have half: "unat (drop_bit 1 w) = 2 ^ l + i div 2 ^ (d - l)"
  proof -
    have dl: "d - l = Suc (d - ?l)"
      using ld by simp
    have "unat (drop_bit 1 w) = (2 ^ ?l + ?m) div 2"
      by (simp only: unat_drop_bit Suc.prems(5) power_one_right)
    also have "\<dots> = 2 ^ l + ?m div 2"
      by simp
    finally show ?thesis
      unfolding dl div_pow_Suc .
  qed
  let ?canopy = "if canopy ! ?c = EMPTY then canopy[?c := ?v] else canopy"
  have inv': "canopy_inv H d p ?canopy L"
  proof (cases "canopy ! ?c = EMPTY")
    case True
    then have "caches H (d - ?l) ?v ?v"
      using cache by (auto simp: caches_def)
    then show ?thesis
      using canopy_inv_update [OF inv _ Suc.prems(2) sm] inv c by simp
  qed (use inv in simp)
  have "drop (d - ?l) (proof_at H d L i) = ?v # drop (d - l) (proof_at H d L i)"
    using ld Cons_nth_drop_Suc [of "d - ?l" "proof_at H d L i"]
    by (simp add: nth_proof_at Suc_diff_Suc)
  moreover have "canopy_loop H d w canopy ns =
      canopy_loop H d (drop_bit 1 w) ?canopy (ns @ [?v])"
  proof (cases "canopy ! ?c = EMPTY")
    case True
    then have "empty_node_cached H (d - ?l) (replicate 30 EMPTY) = ?v"
      using cache by (simp add: caches_def empty_node_cached_eq)
    then show ?thesis
      using True w2 bound lz ld
      by (subst canopy_loop.simps) (simp add: Let_def word_less_nat_alt)
  next
    case False
    then have "canopy ! ?c = ?v"
      using cache by (simp add: caches_def)
    then show ?thesis
      using False w2 bound
      by (subst canopy_loop.simps) (simp add: Let_def word_less_nat_alt)
  qed
  ultimately show ?case
    using Suc.IH [OF inv' _ Suc.prems(3,4) half, of "ns @ [?v]"] Suc.prems(2) by simp
qed

lemma fill_in_proof_from_canopy_spec:
  assumes inv: "canopy_inv H d p canopy L" and d: "d < 31" and i: "unat i < 2 ^ d"
    and rest: "length rest mod 32 = 0"
  shows "\<exists>canopy'. fill_in_proof_from_canopy H canopy rest d i ps =
      Inr (canopy', ps @ drop (d - p) (proof_at H d L (unat i))) \<and> canopy_inv H d p canopy' L"
proof -
  note invD = canopy_invD [OF inv]
  have pow: "unat (push_bit d 1 :: u32) = 2 ^ d"
    by (rule unat_push_bit_one) (use d in simp)
  have "(2 :: nat) ^ Suc d \<le> 2 ^ 31"
    by (rule power_increasing) (use d in auto)
  then have sum: "unat (push_bit d 1 :: u32) + unat i < 2 ^ LENGTH(32)"
    using i pow by simp
  then have add: "checked_add (push_bit d 1) i = Some (push_bit d 1 + i)"
    by (simp add: checked_add_def)
  have "unat (push_bit d 1 + i) = 2 ^ d + unat i"
    using sum pow by (simp add: unat_word_ariths)
  moreover have "(2 ^ d + unat i) div 2 ^ (d - p) = 2 ^ p + unat i div 2 ^ (d - p)"
  proof -
    have "(2 :: nat) ^ d = 2 ^ p * 2 ^ (d - p)"
      using invD(1) by (simp flip: power_add)
    then show ?thesis by simp
  qed
  ultimately have start: "unat (drop_bit (d - p) (push_bit d 1 + i)) =
      2 ^ p + unat i div 2 ^ (d - p)"
    by (simp only: unat_drop_bit)
  show ?thesis
    using canopy_loop_spec [OF inv order_refl d i start, of "[]"] rest invD(1)
    by (auto simp: fill_in_proof_from_canopy_def check_canopy_bytes_def canopy_bytes_len_def
        get_cached_path_length_eq [OF invD(2,1) d] add simp del: push_bit_of_1)
qed

text \<open>An index outside the tree makes the completion panic, whatever the canopy.\<close>

lemma canopy_loop_outside:
  assumes "length canopy = 2 ^ Suc p - 2" and "2 ^ Suc p \<le> unat w"
  shows "canopy_loop H d w canopy ns = Inl Panic"
proof -
  have "2 \<le> (2 :: nat) ^ Suc p"
    by (simp add: self_le_power)
  moreover have "2 ^ Suc p < unat w" if "odd (unat w)"
    using assms(2) that by (metis even_power even_numeral le_neq_implies_less zero_less_Suc)
  ultimately show ?thesis
    using assms
    by (subst canopy_loop.simps)
      (auto simp: Let_def word_less_nat_alt even_iff_mod_2_eq_zero [symmetric] simp del: power_Suc)
qed

lemma fill_in_proof_from_canopy_index:
  assumes ok: "fill_in_proof_from_canopy H canopy rest d i ps = Inr r" and d: "d < 31"
    and small: "length canopy + 2 < 2 ^ 32"
  shows "unat i < 2 ^ d"
proof (rule ccontr)
  assume i: "\<not> unat i < 2 ^ d"
  obtain p leaf_idx where p: "get_cached_path_length canopy d = Inr p"
    and leaf: "checked_add (push_bit d 1) i = Some leaf_idx"
    and loop: "\<exists>r. canopy_loop H d (drop_bit (d - p) leaf_idx) canopy [] = Inr r"
    using ok by (auto simp: fill_in_proof_from_canopy_def result_simps)
  note len = get_cached_path_length_inv [OF p d small]
  have "2 ^ Suc d \<le> unat leaf_idx"
    using checked_add_Some [OF leaf, THEN conjunct1] i unat_push_bit_one [of d, where 'a = 32] d
    by simp
  then have "2 ^ Suc d div 2 ^ (d - p) \<le> unat leaf_idx div 2 ^ (d - p)"
    by (rule div_le_mono)
  moreover have "(2 :: nat) ^ Suc d div 2 ^ (d - p) = 2 ^ Suc p"
    using len by (simp only: power_diff [symmetric]) (simp add: power_diff [symmetric] Suc_diff_le)
  ultimately have "2 ^ Suc p \<le> unat (drop_bit (d - p) leaf_idx)"
    by (simp only: unat_drop_bit)
  then show False
    using canopy_loop_outside len loop by fastforce
qed

section \<open>Updating the canopy\<close>

lemma canopy_writes_append:
  "canopy_writes c (ps @ qs) = and_then (canopy_writes c ps) (\<lambda>c'. canopy_writes c' qs)"
  by (induction c ps rule: canopy_writes.induct) (auto simp: and_then_assoc intro!: and_then_cong)

definition heap_node :: "hashv \<Rightarrow> nat \<Rightarrow> leaves \<Rightarrow> nat \<Rightarrow> nat \<Rightarrow> path_node \<Rightarrow> bool" where
  "heap_node H d L i l p \<longleftrightarrow>
     unat (pn_index p) = 2 ^ l + i div 2 ^ (d - l) \<and>
     pn_node p = node_at H (d - l) (i div 2 ^ (d - l)) L"

lemma event_path_node:
  assumes d: "d < 31" and cl: "cl_path cl = path_at H d L (unat (cl_index cl))"
      "unat (cl_index cl) < 2 ^ d" and l: "0 < l" "l \<le> d"
  shows "heap_node H d L (unat (cl_index cl)) l (ev_path (change_log_event_from cl tree seq) ! (d - l))"
proof -
  let ?i = "unat (cl_index cl)"
  have lt: "d - l < d" using l by simp
  have pow: "unat (push_bit l 1 :: u32) = 2 ^ l"
    by (rule unat_push_bit_one) (use d l in simp)
  have "?i div 2 ^ (d - l) < 2 ^ l"
    by (rule path_pos_less [OF cl(2) l(2)])
  moreover have "(2 :: nat) ^ Suc l \<le> 2 ^ 31"
    by (rule power_increasing) (use d l in auto)
  ultimately have "2 ^ l + ?i div 2 ^ (d - l) < 2 ^ 32"
    by simp
  then have "unat (push_bit l 1 + drop_bit (d - l) (cl_index cl)) = 2 ^ l + ?i div 2 ^ (d - l)"
    using pow by (simp add: unat_word_ariths unat_drop_bit)
  then show ?thesis
    using lt l cl(1)
    by (simp add: heap_node_def change_log_event_from_def Let_def nth_append nth_enumerate_eq
        path_node_new_def nth_path_at)
qed

lemma event_path_top:
  assumes "length (cl_path cl) = d" and "q \<le> d"
  shows "take q (drop 1 (rev (ev_path (change_log_event_from cl tree seq)))) =
    map (\<lambda>l. ev_path (change_log_event_from cl tree seq) ! (d - l)) [1..<Suc q]"
  using assms
  by (intro nth_equalityI)
    (auto simp: change_log_event_from_def Let_def rev_nth nth_append simp del: upt_Suc)

lemma canopy_writes_spec:
  assumes len: "length canopy = 2 ^ Suc p - 2" and i: "i < 2 ^ d" and q: "q \<le> p" and p: "p \<le> d"
    and f: "\<And>l. 0 < l \<Longrightarrow> l \<le> q \<Longrightarrow> heap_node H d L i l (f l)"
  shows "\<exists>canopy'. canopy_writes canopy (map f [1..<Suc q]) = Inr canopy' \<and>
    length canopy' = length canopy \<and>
    (\<forall>l m. 0 < l \<longrightarrow> l \<le> p \<longrightarrow> m < 2 ^ l \<longrightarrow>
      canopy' ! (2 ^ l + m - 2) =
        (if l \<le> q \<and> m = i div 2 ^ (d - l) then node_at H (d - l) m L
         else canopy ! (2 ^ l + m - 2)))"
  using q f
proof (induction q)
  case (Suc q)
  then obtain c where c: "canopy_writes canopy (map f [1..<Suc q]) = Inr c"
    "length c = length canopy"
    "\<And>l m. 0 < l \<Longrightarrow> l \<le> p \<Longrightarrow> m < 2 ^ l \<Longrightarrow> c ! (2 ^ l + m - 2) =
        (if l \<le> q \<and> m = i div 2 ^ (d - l) then node_at H (d - l) m L
         else canopy ! (2 ^ l + m - 2))"
    by auto
  let ?l = "Suc q" and ?m = "i div 2 ^ (d - Suc q)"
  have m: "?m < 2 ^ ?l"
    by (rule path_pos_less [OF i]) (use Suc.prems(1) p in simp)
  have fl: "unat (pn_index (f ?l)) = 2 ^ ?l + ?m" "pn_node (f ?l) = node_at H (d - ?l) ?m L"
    using Suc.prems(2) [of ?l] by (auto simp: heap_node_def)
  have two: "2 \<le> 2 ^ ?l + ?m"
    by (rule heap_two) simp
  then have sub: "checked_sub (pn_index (f ?l)) 2 = Some (pn_index (f ?l) - 2)"
    "unat (pn_index (f ?l) - 2) = 2 ^ ?l + ?m - 2"
    using fl(1) by (auto simp: checked_sub_def word_le_nat_alt unat_sub)
  have bound: "2 ^ ?l + ?m - 2 < length c"
    using heap_bound [OF Suc.prems(1) m] two c(2) len by (simp del: power_Suc)
  have step: "canopy_writes canopy (map f [1..<Suc ?l]) =
      Inr (c[2 ^ ?l + ?m - 2 := node_at H (d - ?l) ?m L])"
    using c(1) sub bound fl(2) by (simp add: canopy_writes_append del: power_Suc)
  have "c[2 ^ ?l + ?m - 2 := node_at H (d - ?l) ?m L] ! (2 ^ l + m - 2) =
      (if l \<le> ?l \<and> m = i div 2 ^ (d - l) then node_at H (d - l) m L
       else canopy ! (2 ^ l + m - 2))" if l: "0 < l" "l \<le> p" "m < 2 ^ l" for l m
  proof (cases "l = ?l \<and> m = ?m")
    case True
    then show ?thesis
      using bound by (simp del: power_Suc)
  next
    case False
    then have "2 ^ ?l + ?m - 2 \<noteq> 2 ^ l + m - 2"
      using heap_inj [of ?l ?m l m] two heap_two [OF l(1), of m] m l(3) by linarith
    then show ?thesis
      using c(3) [OF l] False by (auto simp: le_Suc_eq simp del: power_Suc)
  qed
  then show ?case
    using step c(2) by (metis length_list_update)
qed auto

lemma update_canopy_spec:
  assumes inv: "canopy_inv H d p canopy L" and d: "d < 31" and rest: "length rest mod 32 = 0"
    and step: "logs_step H d cl L L'" and nz: "hash_nonzero H"
  shows "\<exists>canopy'. update_canopy canopy rest d (Some (change_log_event_from cl tree seq)) =
      Inr canopy' \<and> canopy_inv H d p canopy' L'"
proof -
  note invD = canopy_invD [OF inv]
  let ?i = "unat (cl_index cl)" and ?ev = "change_log_event_from cl tree seq"
  have cl: "cl_path cl = path_at H d L' ?i" "?i < 2 ^ d"
    using step by (auto simp: logs_step_def)
  obtain c where c: "canopy_writes canopy (map (\<lambda>l. ev_path ?ev ! (d - l)) [1..<Suc p]) = Inr c"
    "length c = length canopy"
    "\<And>l m. 0 < l \<Longrightarrow> l \<le> p \<Longrightarrow> m < 2 ^ l \<Longrightarrow> c ! (2 ^ l + m - 2) =
        (if l \<le> p \<and> m = ?i div 2 ^ (d - l) then node_at H (d - l) m L'
         else canopy ! (2 ^ l + m - 2))"
    using canopy_writes_spec [OF invD(2) cl(2) order_refl invD(1), of H L'
        "\<lambda>l. ev_path ?ev ! (d - l)"] event_path_node [OF d cl] invD(1) by fastforce
  have "caches H (d - l) (c ! (2 ^ l + m - 2)) (node_at H (d - l) m L')"
    if l: "0 < l" "l \<le> p" "m < 2 ^ l" for l m
    using c(3) [OF l] invD(3) [OF l] caches_node [OF nz] logs_step_other [OF step, of m "d - l"] l
    by auto
  then have "canopy_inv H d p c L'"
    using c(2) invD(1,2) by (simp add: canopy_inv_def)
  moreover have "update_canopy canopy rest d (Some ?ev) = Inr c"
    using event_path_top [of cl d p tree seq] cl(1) invD(1) c(1) rest
    by (simp add: update_canopy_def check_canopy_bytes_def canopy_bytes_len_def
        get_cached_path_length_eq [OF invD(2,1) d] del: upt_Suc)
  ultimately show ?thesis by blast
qed

end
