(* ===== verification/Gummyroll_Inv.thy ===== *)
theory Gummyroll_Inv
  imports Canopy
begin

text \<open>
  The invariant of a Gummyroll account: supported dimensions, a tree in a good state, and a canopy
  that caches the current tree. Every instruction keeps it. The program is a second provider of the
  interface \<open>leaf_store\<close>: its clients submit proofs without the nodes the canopy holds.
\<close>

section \<open>The invariant\<close>

definition gr_depth :: "gummyroll_account \<Rightarrow> nat" where
  "gr_depth acc = unat (hd_max_depth (gr_header acc))"

definition gr_buffer :: "gummyroll_account \<Rightarrow> nat" where
  "gr_buffer acc = unat (hd_max_buffer_size (gr_header acc))"

definition cached_len :: "gummyroll_account \<Rightarrow> nat" where
  "cached_len acc =
     (case get_cached_path_length (gr_canopy acc) (gr_depth acc) of Inr p \<Rightarrow> p | Inl _ \<Rightarrow> 0)"

definition gummyroll_inv :: "hashv \<Rightarrow> gummyroll_account \<Rightarrow> leaves list \<Rightarrow> bool" where
  "gummyroll_inv H acc hist \<longleftrightarrow>
     (gr_depth acc, gr_buffer acc) \<in> set supported_dims \<and> hash_nonzero H \<and>
     roll_inv H (gr_depth acc) (gr_buffer acc) (gr_roll acc) hist \<and>
     canopy_inv H (gr_depth acc) (cached_len acc) (gr_canopy acc) (hist ! 0) \<and>
     length (gr_canopy_rest acc) mod 32 = 0"

lemma supported_dims_dims: "(d, n) \<in> set supported_dims \<Longrightarrow> dims d n"
proof -
  have pows: "{8, 64, 256, 512, 1024, 2048} = (\<lambda>m. (2 :: nat) ^ m) ` {3, 6, 8, 9, 10, 11}"
    by simp
  have "\<exists>m<64. n = 2 ^ m" if n: "n \<in> {8, 64, 256, 512, 1024, 2048}" for n :: nat
  proof -
    obtain m where "n = 2 ^ m" "m \<in> {3, 6, 8, 9, 10, 11}"
      using n unfolding pows by blast
    moreover from this(2) have "m < 64" by auto
    ultimately show ?thesis by blast
  qed
  moreover assume "(d, n) \<in> set supported_dims"
  then have "n \<in> {8, 64, 256, 512, 1024, 2048}" "0 < d" "d < 31"
    by (auto simp: supported_dims_def)
  ultimately show ?thesis
    by (simp only: dims_def)
qed

lemma gummyroll_invD:
  assumes "gummyroll_inv H acc hist"
  shows "(gr_depth acc, gr_buffer acc) \<in> set supported_dims" "hash_nonzero H"
    "roll_inv H (gr_depth acc) (gr_buffer acc) (gr_roll acc) hist"
    "canopy_inv H (gr_depth acc) (cached_len acc) (gr_canopy acc) (hist ! 0)"
    "length (gr_canopy_rest acc) mod 32 = 0" "gr_depth acc < 31"
    "dims (gr_depth acc) (gr_buffer acc)"
  using assms supported_dims_dims by (auto simp: gummyroll_inv_def dims_def)

lemma cached_lenI:
  assumes "canopy_inv H (gr_depth acc) p (gr_canopy acc) L" and "gr_depth acc < 31"
  shows "cached_len acc = p"
  using get_cached_path_length_eq [OF canopy_invD(2,1) [OF assms(1)] assms(2)]
  by (simp add: cached_len_def)

lemma get_size_ok:
  assumes "gummyroll_inv H acc hist"
  shows "merkle_roll_get_size (gr_header acc) =
    Inr (merkle_roll_size (gr_depth acc) (gr_buffer acc))"
  using gummyroll_invD(1) [OF assms]
  by (simp add: merkle_roll_get_size_def Let_def gr_depth_def gr_buffer_def)

lemma apply_fn_eq:
  assumes "gummyroll_inv H acc hist"
  shows "merkle_roll_apply_fn (gr_header acc) tree_id roll func =
    merkle_roll_depth_size_apply_fn tree_id roll (func (gr_depth acc) (gr_buffer acc))"
  using gummyroll_invD(1) [OF assms]
  by (simp add: merkle_roll_apply_fn_def Let_def gr_depth_def gr_buffer_def)

lemma fill_from_canopy_ok:
  assumes "gummyroll_inv H acc hist" and "unat i < 2 ^ gr_depth acc"
  obtains canopy where "fill_in_proof_from_canopy H (gr_canopy acc) (gr_canopy_rest acc)
      (gr_depth acc) i ps =
      Inr (canopy, ps @ drop (gr_depth acc - cached_len acc)
        (proof_at H (gr_depth acc) (hist ! 0) (unat i)))"
    and "canopy_inv H (gr_depth acc) (cached_len acc) canopy (hist ! 0)"
  using fill_in_proof_from_canopy_spec [OF gummyroll_invD(4,6) [OF assms(1)] assms(2)
      gummyroll_invD(5) [OF assms(1)], of ps] by blast

section \<open>Committing a write\<close>

text \<open>After a tree operation wrote leaf \<open>i\<close>, the canopy update succeeds and the invariant holds.\<close>

definition committed ::
  "hashv \<Rightarrow> pubkey \<Rightarrow> leaves list \<Rightarrow> nat \<Rightarrow> node \<Rightarrow> gummyroll_account \<Rightarrow> change_log_event \<Rightarrow>
   gummyroll_account \<Rightarrow> bool" where
  "committed H tree_id hist i x acc ev acc' \<longleftrightarrow>
     gummyroll_inv H acc' ((hist ! 0)(i := x) # take (gr_buffer acc - 1) hist) \<and>
     gr_header acc' = gr_header acc \<and> cached_len acc' = cached_len acc \<and>
     next_leaf (gr_roll acc') = max (next_leaf (gr_roll acc)) (Suc i) \<and>
     ev = change_log_event_from (get_change_log (gr_roll acc')) tree_id
            (sequence_number (gr_roll acc')) \<and>
     wrote H (gr_depth acc) (gr_buffer acc) hist i x (gr_roll acc) (gr_roll acc')"

lemma commit:
  fixes tree_id :: pubkey
  assumes inv: "gummyroll_inv H acc hist"
    and canopy: "canopy_inv H (gr_depth acc) (cached_len acc) canopy (hist ! 0)"
    and w: "wrote H (gr_depth acc) (gr_buffer acc) hist i x (gr_roll acc) roll'"
    and i: "i < 2 ^ gr_depth acc"
  defines "ev \<equiv> change_log_event_from (get_change_log roll') tree_id (sequence_number roll')"
  shows "\<exists>canopy'. update_canopy canopy (gr_canopy_rest acc) (gr_depth acc) (Some ev) = Inr canopy' \<and>
    committed H tree_id hist i x acc ev (acc\<lparr>gr_roll := roll', gr_canopy := canopy'\<rparr>)"
proof -
  note invD = gummyroll_invD [OF inv]
  let ?d = "gr_depth acc" and ?L' = "(hist ! 0)(i := x)"
  have "logs_step H ?d (get_change_log roll') (hist ! 0) ?L'"
    using wroteD(4,5) [OF w] i by (auto simp: logs_step_def)
  then obtain canopy' where c: "update_canopy canopy (gr_canopy_rest acc) ?d (Some ev) = Inr canopy'"
    "canopy_inv H ?d (cached_len acc) canopy' ?L'"
    using update_canopy_spec [OF canopy invD(6,5) _ invD(2)] unfolding ev_def by blast
  let ?acc = "acc\<lparr>gr_roll := roll', gr_canopy := canopy'\<rparr>"
  have hdr: "gr_depth ?acc = ?d" "gr_buffer ?acc = gr_buffer acc"
    by (simp_all add: gr_depth_def gr_buffer_def)
  have len: "cached_len ?acc = cached_len acc"
    by (rule cached_lenI) (use c(2) invD(6) hdr in auto)
  have "gummyroll_inv H ?acc (?L' # take (gr_buffer acc - 1) hist)"
    using invD(1,2,5) wroteD(1) [OF w] c(2) by (simp add: gummyroll_inv_def hdr len)
  then show ?thesis
    using c(1) len wroteD(2) [OF w] w by (auto simp: committed_def ev_def)
qed

text \<open>The instructions, once the tree operation is known to have written.\<close>

lemma gummyroll_append_ok:
  assumes inv: "gummyroll_inv H acc hist"
    and auth: "hd_authority (gr_header acc) = authority"
      "hd_append_authority (gr_header acc) = append_authority"
    and x: "x \<noteq> EMPTY" and room: "next_leaf (gr_roll acc) < 2 ^ gr_depth acc"
  shows "\<exists>ev acc'. gummyroll_append H tree_id authority append_authority x acc = Inr (ev, acc') \<and>
    committed H tree_id hist (next_leaf (gr_roll acc)) x acc ev acc'"
proof -
  note invD = gummyroll_invD [OF inv]
  obtain roll' where app: "append_node H (gr_depth acc) (gr_buffer acc) x (gr_roll acc) =
      Inr (tree_root H (gr_depth acc) ((hist ! 0)(next_leaf (gr_roll acc) := x)), roll')"
    and w: "wrote H (gr_depth acc) (gr_buffer acc) hist (next_leaf (gr_roll acc)) x (gr_roll acc) roll'"
    using append_node_spec [OF invD(3) x] room by (auto simp: next_leaf_def)
  show ?thesis
    using commit [OF inv invD(4) w room, of tree_id] auth get_size_ok [OF inv]
    by (auto simp: gummyroll_append_def Let_def apply_fn_eq [OF inv] app
        merkle_roll_depth_size_apply_fn_def gr_depth_def [symmetric])
qed

lemma replace_leaf_eq:
  fixes pv :: "node list"
  assumes inv: "gummyroll_inv H acc hist" and i: "unat i < 2 ^ gr_depth acc"
    and auth: "hd_authority (gr_header acc) = authority"
  defines "pf \<equiv> pv @ drop (gr_depth acc - cached_len acc)
        (proof_at H (gr_depth acc) (hist ! 0) (unat i))"
  shows "\<exists>canopy. canopy_inv H (gr_depth acc) (cached_len acc) canopy (hist ! 0) \<and>
    replace_leaf H tree_id authority root leaf x i pv acc =
      and_then (map_failure (\<lambda>_. ConcurrentMerkleTreeError)
          (set_leaf H (gr_depth acc) (gr_buffer acc) root leaf x pf i (gr_roll acc))) (\<lambda>(_, roll').
      let ev = change_log_event_from (get_change_log roll') tree_id (sequence_number roll')
      in and_then (update_canopy canopy (gr_canopy_rest acc) (gr_depth acc) (Some ev)) (\<lambda>canopy'.
         Inr (ev, acc\<lparr>gr_roll := roll', gr_canopy := canopy'\<rparr>)))"
proof -
  obtain canopy where "fill_in_proof_from_canopy H (gr_canopy acc) (gr_canopy_rest acc)
      (gr_depth acc) i pv = Inr (canopy, pf)"
    "canopy_inv H (gr_depth acc) (cached_len acc) canopy (hist ! 0)"
    using fill_from_canopy_ok [OF inv i] unfolding pf_def by blast
  then show ?thesis
    using auth get_size_ok [OF inv]
    by (intro exI [of _ canopy])
      (simp add: replace_leaf_def Let_def apply_fn_eq [OF inv] merkle_roll_depth_size_apply_fn_def
        gr_depth_def [symmetric] and_then_assoc case_prod_unfold)
qed

lemma replace_leaf_authority:
  assumes "replace_leaf H tree_id authority root leaf x i pv acc = Inr r"
  shows "hd_authority (gr_header acc) = authority"
  using assms by (auto simp: replace_leaf_def Let_def result_simps)

definition completed :: "hashv \<Rightarrow> gummyroll_account \<Rightarrow> u32 \<Rightarrow> node list \<Rightarrow> node list" where
  "completed H acc i pv =
     (case fill_in_proof_from_canopy H (gr_canopy acc) (gr_canopy_rest acc) (gr_depth acc) i pv of
        Inr (_, ps) \<Rightarrow> ps | Inl _ \<Rightarrow> pv)"

lemma completed_eq:
  assumes "gummyroll_inv H acc hist" and "unat i < 2 ^ gr_depth acc"
  shows "completed H acc i pv = pv @ drop (gr_depth acc - cached_len acc)
        (proof_at H (gr_depth acc) (hist ! 0) (unat i))"
  using fill_from_canopy_ok [OF assms, of pv] by (force simp: completed_def)

definition gr_collides ::
  "hashv \<Rightarrow> gummyroll_account \<Rightarrow> leaves \<Rightarrow> node \<Rightarrow> node \<Rightarrow> node list \<Rightarrow> u32 \<Rightarrow> bool" where
  "gr_collides H acc L root leaf pv i =
     replay_collides H (gr_depth acc) (gr_buffer acc) (gr_roll acc) L root leaf
       (completed H acc i pv) i"

lemma replace_leaf_sound:
  assumes inv: "gummyroll_inv H acc hist" and i: "unat i < 2 ^ gr_depth acc"
    and ok: "replace_leaf H tree_id authority root leaf x i pv acc = Inr (ev, acc')"
    and coll: "\<not> gr_collides H acc (hist ! 0) root leaf pv i"
  shows "leaf = (hist ! 0) (unat i) \<and> unat i \<le> next_leaf (gr_roll acc) \<and>
    committed H tree_id hist (unat i) x acc ev acc'"
proof -
  let ?pf = "pv @ drop (gr_depth acc - cached_len acc)
        (proof_at H (gr_depth acc) (hist ! 0) (unat i))"
  obtain canopy where c: "canopy_inv H (gr_depth acc) (cached_len acc) canopy (hist ! 0)"
    and eq: "replace_leaf H tree_id authority root leaf x i pv acc =
      and_then (map_failure (\<lambda>_. ConcurrentMerkleTreeError)
          (set_leaf H (gr_depth acc) (gr_buffer acc) root leaf x ?pf i (gr_roll acc))) (\<lambda>(_, roll').
      let ev = change_log_event_from (get_change_log roll') tree_id (sequence_number roll')
      in and_then (update_canopy canopy (gr_canopy_rest acc) (gr_depth acc) (Some ev)) (\<lambda>canopy'.
         Inr (ev, acc\<lparr>gr_roll := roll', gr_canopy := canopy'\<rparr>)))"
    using replace_leaf_eq [OF inv i replace_leaf_authority [OF ok]] by blast
  obtain r roll' where set: "set_leaf H (gr_depth acc) (gr_buffer acc) root leaf x ?pf i (gr_roll acc) =
      Inr (r, roll')"
    using ok unfolding eq by (auto simp: result_simps)
  have s: "leaf = (hist ! 0) (unat i)" "unat i \<le> next_leaf (gr_roll acc)"
    "wrote H (gr_depth acc) (gr_buffer acc) hist (unat i) x (gr_roll acc) roll'"
    using set_leaf_sound_aux [OF gummyroll_invD(3) [OF inv] i set] coll
    by (auto simp: gr_collides_def completed_eq [OF inv i] next_leaf_def)
  have "and_then (update_canopy canopy (gr_canopy_rest acc) (gr_depth acc)
        (Some (change_log_event_from (get_change_log roll') tree_id (sequence_number roll'))))
      (\<lambda>canopy'. Inr (change_log_event_from (get_change_log roll') tree_id (sequence_number roll'),
        acc\<lparr>gr_roll := roll', gr_canopy := canopy'\<rparr>)) = Inr (ev, acc')"
    using ok by (simp add: eq set Let_def)
  then have "committed H tree_id hist (unat i) x acc ev acc'"
    using commit [OF inv c s(3) i, of tree_id] by auto
  then show ?thesis
    using s(1,2) by simp
qed

lemma replace_leaf_complete:
  assumes inv: "gummyroll_inv H acc hist" and i: "unat i < 2 ^ gr_depth acc"
    and ix: "unat i \<le> next_leaf (gr_roll acc)"
    and auth: "hd_authority (gr_header acc) = authority"
    and t: "latest H (gr_depth acc) hist t"
  defines "pv \<equiv> take (gr_depth acc - cached_len acc) (proof_at H (gr_depth acc) (hist ! t) (unat i))"
  shows "if (hist ! t) (unat i) = (hist ! 0) (unat i)
    then \<exists>ev acc'. replace_leaf H tree_id authority (tree_root H (gr_depth acc) (hist ! t))
          ((hist ! t) (unat i)) x i pv acc = Inr (ev, acc') \<and>
        committed H tree_id hist (unat i) x acc ev acc'
    else replace_leaf H tree_id authority (tree_root H (gr_depth acc) (hist ! t))
          ((hist ! t) (unat i)) x i pv acc = Inl (Err ConcurrentMerkleTreeError)"
proof -
  note invD = gummyroll_invD [OF inv]
  let ?d = "gr_depth acc" and ?p = "cached_len acc" and ?k = "replay_depth H (gr_depth acc) hist
      (tree_root H (gr_depth acc) (hist ! t))"
  let ?pf = "pv @ drop (?d - ?p) (proof_at H ?d (hist ! 0) (unat i))"
  have len: "length ?pf = ?d"
    using canopy_invD(1) [OF invD(4)] by (simp add: pv_def)
  have th: "right_for H ?d (unat i) hist ?k (proof_at H ?d (hist ! t) (unat i)) ((hist ! t) (unat i))"
    "remembered H ?d hist (tree_root H ?d (hist ! t)) \<or> 1 < length hist"
    using right_for_history [of t hist H ?d] t by (auto simp: latest_def)
  have "?pf ! l = proof_at H ?d (hist ! t) (unat i) ! l \<or> ?pf ! l = proof_at H ?d (hist ! 0) (unat i) ! l"
    if "l < ?d" for l
    using that by (auto simp: pv_def nth_append)
  then have right: "right_for H ?d (unat i) hist ?k (filled H ?d ?pf) ((hist ! t) (unat i))"
    using th(1) len unfolding right_for_def by (metis filled_full le0)
  note set = set_leaf_complete_aux [OF invD(3) i _ _ right th(2), of x]
  obtain canopy where c: "canopy_inv H ?d ?p canopy (hist ! 0)"
    and eq: "replace_leaf H tree_id authority (tree_root H ?d (hist ! t)) ((hist ! t) (unat i)) x i pv acc =
      and_then (map_failure (\<lambda>_. ConcurrentMerkleTreeError)
          (set_leaf H ?d (gr_buffer acc) (tree_root H ?d (hist ! t)) ((hist ! t) (unat i)) x ?pf i
            (gr_roll acc))) (\<lambda>(_, roll').
      let ev = change_log_event_from (get_change_log roll') tree_id (sequence_number roll')
      in and_then (update_canopy canopy (gr_canopy_rest acc) ?d (Some ev)) (\<lambda>canopy'.
         Inr (ev, acc\<lparr>gr_roll := roll', gr_canopy := canopy'\<rparr>)))"
    using replace_leaf_eq [OF inv i auth] by blast
  show ?thesis
  proof (cases "(hist ! t) (unat i) = (hist ! 0) (unat i)")
    case True
    then obtain roll' where set': "set_leaf H ?d (gr_buffer acc) (tree_root H ?d (hist ! t)) ((hist ! t) (unat i))
        x ?pf i (gr_roll acc) = Inr (tree_root H ?d ((hist ! 0)(unat i := x)), roll')"
      and w: "wrote H ?d (gr_buffer acc) hist (unat i) x (gr_roll acc) roll'"
      using set ix len by (auto simp: next_leaf_def)
    have "\<exists>ev acc'. replace_leaf H tree_id authority (tree_root H ?d (hist ! t)) ((hist ! t) (unat i))
        x i pv acc = Inr (ev, acc') \<and> committed H tree_id hist (unat i) x acc ev acc'"
      using commit [OF inv c w i, of tree_id] unfolding eq set' by (auto simp: Let_def)
    then show ?thesis
      using True by simp
  next
    case False
    then show ?thesis
      using set ix len by (simp add: eq next_leaf_def)
  qed
qed

section \<open>Gummyroll provides the contract of a leaf store\<close>

definition event_root :: "change_log_event \<Rightarrow> node" where
  "event_root ev = pn_node (last (ev_path ev))"

lemma event_root_from [simp]: "event_root (change_log_event_from cl tree_id seq) = cl_root cl"
  by (simp add: event_root_def change_log_event_from_def Let_def path_node_new_def)

definition gr_app ::
  "hashv \<Rightarrow> pubkey \<Rightarrow> pubkey \<Rightarrow> pubkey \<Rightarrow> node \<Rightarrow> gummyroll_account \<Rightarrow>
   (GummyrollError, node \<times> gummyroll_account) result" where
  "gr_app H tree_id authority append_authority x acc =
     and_then (gummyroll_append H tree_id authority append_authority x acc) (\<lambda>(ev, acc').
     Inr (event_root ev, acc'))"

definition gr_put ::
  "hashv \<Rightarrow> pubkey \<Rightarrow> pubkey \<Rightarrow> node \<Rightarrow> node \<Rightarrow> node \<Rightarrow> node list \<Rightarrow> u32 \<Rightarrow> gummyroll_account \<Rightarrow>
   (GummyrollError, node \<times> gummyroll_account) result" where
  "gr_put H tree_id authority root leaf x pv i acc =
     and_then (replace_leaf H tree_id authority root leaf x i
       (take (gr_depth acc - cached_len acc) pv) acc) (\<lambda>(ev, acc').
     Inr (event_root ev, acc'))"

definition gr_represents ::
  "hashv \<Rightarrow> nat \<Rightarrow> nat \<Rightarrow> pubkey \<Rightarrow> pubkey \<Rightarrow> gummyroll_account \<Rightarrow> leaves list \<Rightarrow> bool" where
  "gr_represents H d n authority append_authority acc hist \<longleftrightarrow>
     gummyroll_inv H acc hist \<and> gr_depth acc = d \<and> gr_buffer acc = n \<and>
     hd_authority (gr_header acc) = authority \<and>
     hd_append_authority (gr_header acc) = append_authority"

lemma committed_represents:
  assumes "committed H tree_id hist i x acc ev acc'" and "gr_represents H d n a b acc hist"
  shows "gr_represents H d n a b acc' ((hist ! 0)(i := x) # take (n - 1) hist)"
    and "event_root ev = tree_root H d ((hist ! 0)(i := x))"
    and "next_leaf (gr_roll acc') = max (next_leaf (gr_roll acc)) (Suc i)"
  using assms wroteD(6) [of H d n hist i x "gr_roll acc" "gr_roll acc'"]
  by (auto simp: committed_def gr_represents_def gr_depth_def gr_buffer_def)

interpretation gummyroll: leaf_store H d n "gr_represents H d n authority append_authority"
  "next_leaf \<circ> gr_roll" "gr_app H tree_id authority append_authority"
  "gr_put H tree_id authority"
  "\<lambda>acc L root leaf pv i. gr_collides H acc L root leaf
     (take (gr_depth acc - cached_len acc) pv) i"
  for H d n tree_id authority append_authority
proof (unfold_locales, goal_cases)
  case (1 s hist)
  then show ?case
    using roll_inv_history [OF gummyroll_invD(3) [of H s hist]] by (auto simp: gr_represents_def)
next
  case (2 s hist x)
  have inv: "gummyroll_inv H s hist" "gr_depth s = d" "hd_authority (gr_header s) = authority"
    "hd_append_authority (gr_header s) = append_authority"
    using 2(1) by (auto simp: gr_represents_def)
  obtain ev acc' where "gummyroll_append H tree_id authority append_authority x s = Inr (ev, acc')"
    "committed H tree_id hist (next_leaf (gr_roll s)) x s ev acc'"
    using gummyroll_append_ok [OF inv(1,3,4) 2(2), of tree_id] 2(3) inv(2) by auto
  then show ?case
    using committed_represents [OF _ 2(1)] by (auto simp: gr_app_def)
next
  case (3 s hist i t x)
  have inv: "gummyroll_inv H s hist" "gr_depth s = d" "hd_authority (gr_header s) = authority"
    using 3(1) by (auto simp: gr_represents_def)
  obtain ev acc' where "replace_leaf H tree_id authority (tree_root H d (hist ! t)) ((hist ! t) (unat i))
      x i (take (gr_depth s - cached_len s) (proof_at H d (hist ! t) (unat i))) s = Inr (ev, acc')"
    "committed H tree_id hist (unat i) x s ev acc'"
    using replace_leaf_complete [OF inv(1) _ _ inv(3), of i t tree_id x] 3(2-5) inv(2) by auto
  then show ?case
    using committed_represents [OF _ 3(1)] by (auto simp: gr_put_def)
next
  case (4 s hist i t x)
  have inv: "gummyroll_inv H s hist" "gr_depth s = d" "hd_authority (gr_header s) = authority"
    using 4(1) by (auto simp: gr_represents_def)
  show ?case
    using replace_leaf_complete [OF inv(1) _ _ inv(3), of i t tree_id x] 4(2-5) inv(2)
    by (auto simp: gr_put_def)
next
  case (5 s hist i root leaf x pv r s')
  have inv: "gummyroll_inv H s hist" "gr_depth s = d"
    using 5(1) by (auto simp: gr_represents_def)
  obtain ev where ev: "replace_leaf H tree_id authority root leaf x i
      (take (gr_depth s - cached_len s) pv) s = Inr (ev, s')" "r = event_root ev"
    using 5(3) by (auto simp: gr_put_def result_simps)
  have "leaf = (hist ! 0) (unat i) \<and> unat i \<le> next_leaf (gr_roll s) \<and>
      committed H tree_id hist (unat i) x s ev s'"
    by (rule replace_leaf_sound [OF inv(1) _ ev(1) 5(4)]) (use 5(2) inv(2) in simp)
  then show ?case
    using committed_represents [OF _ 5(1)] ev(2) by auto
qed

end
