(* ===== verification/Gummyroll_Run.thy ===== *)
theory Gummyroll_Run
  imports Gummyroll_Inv
begin

text \<open>
  Sequences of instructions on one Gummyroll account, the leaves an indexer rebuilds from the
  emitted events, and the abstract specification with the two authorities of the tree.
\<close>

section \<open>Instructions\<close>

datatype gr_instr =
    ReplaceLeaf pubkey node node node u32 "node list"
  | TransferAuthority pubkey "pubkey option" "pubkey option"
  | VerifyLeaf node node u32 "node list"
  | AppendLeaf pubkey pubkey node
  | InsertOrAppend pubkey node node u32 "node list"

fun gr_exec ::
  "hashv \<Rightarrow> pubkey \<Rightarrow> gr_instr \<Rightarrow> gummyroll_account \<Rightarrow>
   (GummyrollError, change_log_event option \<times> gummyroll_account) result" where
  "gr_exec H tree_id (ReplaceLeaf auth root prev new i pv) acc =
     and_then (replace_leaf H tree_id auth root prev new i pv acc) (\<lambda>(ev, acc'). Inr (Some ev, acc'))"
| "gr_exec H tree_id (TransferAuthority auth na nb) acc =
     and_then (transfer_authority auth na nb acc) (\<lambda>acc'. Inr (None, acc'))"
| "gr_exec H tree_id (VerifyLeaf root leaf i pv) acc =
     and_then (verify_leaf H tree_id root leaf i pv acc) (\<lambda>acc'. Inr (None, acc'))"
| "gr_exec H tree_id (AppendLeaf auth append_auth leaf) acc =
     and_then (gummyroll_append H tree_id auth append_auth leaf acc) (\<lambda>(ev, acc'). Inr (Some ev, acc'))"
| "gr_exec H tree_id (InsertOrAppend auth root leaf i pv) acc =
     and_then (insert_or_append H tree_id auth root leaf i pv acc) (\<lambda>(ev, acc'). Inr (Some ev, acc'))"

fun gr_instr_collides :: "hashv \<Rightarrow> gummyroll_account \<Rightarrow> leaves \<Rightarrow> gr_instr \<Rightarrow> bool" where
  "gr_instr_collides H acc L (ReplaceLeaf auth root prev new i pv) = gr_collides H acc L root prev pv i"
| "gr_instr_collides H acc L (VerifyLeaf root leaf i pv) = gr_collides H acc L root leaf pv i"
| "gr_instr_collides H acc L (InsertOrAppend auth root leaf i pv) = gr_collides H acc L root EMPTY pv i"
| "gr_instr_collides H acc L _ = False"

text \<open>What an indexer makes of an event: the first path node is the new leaf.\<close>

fun indexed_event :: "change_log_event option \<Rightarrow> leaves \<Rightarrow> leaves" where
  "indexed_event None L = L"
| "indexed_event (Some ev) L = L(unat (ev_index ev) := pn_node (ev_path ev ! 0))"

inductive gr_run :: "hashv \<Rightarrow> pubkey \<Rightarrow> gummyroll_account \<Rightarrow> leaves \<Rightarrow> bool" for H tree_id where
  init: "init_empty_gummyroll H tree_id auth append_auth clock_slot max_depth max_buffer_size
      (Zeroed data_len) = Inr (ev, acc) \<Longrightarrow> data_len < 2 ^ 32 \<Longrightarrow> gr_run H tree_id acc no_leaves"
| step: "gr_run H tree_id acc L \<Longrightarrow> gr_exec H tree_id instr acc = Inr (ev, acc') \<Longrightarrow>
    \<not> gr_instr_collides H acc L instr \<Longrightarrow> gr_run H tree_id acc' (indexed_event ev L)"

type_synonym gr_abstract = "leaves \<times> nat \<times> pubkey \<times> pubkey"

definition gr_abs :: "gummyroll_account \<Rightarrow> leaves \<Rightarrow> gr_abstract" where
  "gr_abs acc L = (L, next_leaf (gr_roll acc), hd_authority (gr_header acc),
     hd_append_authority (gr_header acc))"

inductive gr_spec :: "nat \<Rightarrow> gr_instr \<Rightarrow> gr_abstract \<Rightarrow> gr_abstract \<Rightarrow> bool" for d where
  replace_leaf: "L (unat i) = prev \<Longrightarrow> unat i \<le> m \<Longrightarrow> unat i < 2 ^ d \<Longrightarrow>
    gr_spec d (ReplaceLeaf a root prev new i pv) (L, m, a, b)
      (L(unat i := new), max m (Suc (unat i)), a, b)"
| transfer_authority: "gr_spec d (TransferAuthority a na nb) (L, m, a, b)
    (L, m, case_option a id na, case_option b id nb)"
| verify_leaf: "L (unat i) = leaf \<Longrightarrow> unat i \<le> m \<Longrightarrow> unat i < 2 ^ d \<Longrightarrow>
    gr_spec d (VerifyLeaf root leaf i pv) (L, m, a, b) (L, m, a, b)"
| append: "leaf \<noteq> EMPTY \<Longrightarrow> m < 2 ^ d \<Longrightarrow>
    gr_spec d (AppendLeaf a b leaf) (L, m, a, b) (L(m := leaf), Suc m, a, b)"
| insert: "L (unat i) = EMPTY \<Longrightarrow> unat i \<le> m \<Longrightarrow> unat i < 2 ^ d \<Longrightarrow>
    gr_spec d (InsertOrAppend a root leaf i pv) (L, m, a, b)
      (L(unat i := leaf), max m (Suc (unat i)), a, b)"
| insert_append: "leaf \<noteq> EMPTY \<Longrightarrow> m < 2 ^ d \<Longrightarrow>
    gr_spec d (InsertOrAppend a root leaf i pv) (L, m, a, b) (L(m := leaf), Suc m, a, b)"

section \<open>Initialization\<close>

lemma init_empty_gummyroll_inv:
  assumes ok: "init_empty_gummyroll H tree_id auth append_auth clock_slot max_depth max_buffer_size
      (Zeroed data_len) = Inr (ev, acc)"
    and small: "data_len < 2 ^ 32" and nz: "hash_nonzero H"
  shows "gummyroll_inv H acc [no_leaves]" and "next_leaf (gr_roll acc) = 0"
    and "hd_authority (gr_header acc) = auth" and "hd_append_authority (gr_header acc) = append_auth"
    and "gr_depth acc = unat max_depth" and "gr_buffer acc = unat max_buffer_size"
proof -
  define d where "d = unat max_depth"
  define n where "n = unat max_buffer_size"
  define header where "header = zero_header\<lparr>hd_max_buffer_size := max_buffer_size,
      hd_max_depth := max_depth, hd_authority := auth, hd_append_authority := append_auth,
      hd_creation_slot := clock_slot\<rparr>"
  define canopy_len where "canopy_len = data_len - 80 - merkle_roll_size d n"
  define canopy where "canopy = replicate (canopy_len div 32) EMPTY"
  have hdr: "header_initialize max_depth max_buffer_size auth append_auth clock_slot zero_header = Inr header"
    by (simp add: header_initialize_def zero_header_def header_def)
  have fields: "unat (hd_max_depth header) = d" "unat (hd_max_buffer_size header) = n"
    "hd_authority header = auth" "hd_append_authority header = append_auth"
    by (simp_all add: header_def d_def n_def)
  have sup: "(d, n) \<in> set supported_dims"
    using ok by (auto simp: init_empty_gummyroll_def hdr zeroed_parts_def merkle_roll_get_size_def
        fields Let_def result_simps split: if_splits)
  have dims: "dims d n"
    using supported_dims_dims [OF sup] .
  obtain roll where roll: "initialize H d n (merkle_roll_new d n) = Inr (tree_root H d no_leaves, roll)"
    "roll_inv H d n roll [no_leaves]" "path_index (rightmost_proof roll) = 0"
    using initialize_spec [OF dims] by blast
  obtain p where p: "get_cached_path_length canopy d = Inr p"
    and rest: "canopy_len mod 32 = 0"
    and acc: "acc = \<lparr>gr_header = header, gr_roll = roll, gr_canopy = canopy, gr_canopy_rest = []\<rparr>"
    using ok sup
    by (auto simp: init_empty_gummyroll_def hdr zeroed_parts_def merkle_roll_get_size_def fields
        Let_def result_simps merkle_roll_apply_fn_def merkle_roll_depth_size_apply_fn_def roll(1)
        update_canopy_def check_canopy_bytes_def canopy_bytes_len_def canopy_def canopy_len_def
        split: if_splits)
  have "length canopy + 2 < 2 ^ 32"
    using small by (simp add: canopy_def canopy_len_def)
  then have len: "length canopy = 2 ^ Suc p - 2" "p \<le> d"
    using get_cached_path_length_inv [OF p] dims by (auto simp: dims_def)
  have canopy: "canopy_inv H d p canopy no_leaves"
    using canopy_inv_empty [OF len(2), of H] len(1) by (simp add: canopy_def)
  have depth: "gr_depth acc = d" "gr_buffer acc = n"
    by (simp_all add: gr_depth_def gr_buffer_def acc fields)
  have "cached_len acc = p"
    using canopy dims cached_lenI [of H acc p no_leaves] by (simp add: depth dims_def) (simp add: acc)
  then show "gummyroll_inv H acc [no_leaves]"
    using sup nz roll(2) canopy depth by (simp add: gummyroll_inv_def acc)
  show "next_leaf (gr_roll acc) = 0"
    by (simp add: acc next_leaf_def roll(3))
  show "hd_authority (gr_header acc) = auth" "hd_append_authority (gr_header acc) = append_auth"
    by (simp_all add: acc fields)
  show "gr_depth acc = unat max_depth" "gr_buffer acc = unat max_buffer_size"
    by (simp_all add: depth d_def n_def)
qed

section \<open>Simulation\<close>

lemma canopy_small:
  assumes "canopy_inv H d p canopy L" and "d < 31"
  shows "length canopy + 2 < 2 ^ 32"
proof -
  have "(2 :: nat) ^ Suc p \<le> 2 ^ 31"
    by (rule power_increasing) (use canopy_invD(1) [OF assms(1)] assms(2) in auto)
  then show ?thesis
    using canopy_invD(2) [OF assms(1)] by simp
qed

lemma completed_index:
  assumes inv: "gummyroll_inv H acc hist"
    and ok: "fill_in_proof_from_canopy H (gr_canopy acc) (gr_canopy_rest acc) (gr_depth acc) i pv = Inr r"
  shows "unat i < 2 ^ gr_depth acc"
  using fill_in_proof_from_canopy_index [OF ok] gummyroll_invD(4,6) [OF inv] canopy_small by blast

lemma replace_leaf_index:
  assumes "gummyroll_inv H acc hist" and "replace_leaf H tree_id auth root prev new i pv acc = Inr r"
  shows "unat i < 2 ^ gr_depth acc"
  using assms completed_index [OF assms(1)]
  by (auto simp: replace_leaf_def Let_def result_simps gr_depth_def)

lemma insert_or_append_sound:
  assumes inv: "gummyroll_inv H acc hist"
    and ok: "insert_or_append H tree_id auth root leaf i pv acc = Inr (ev, acc')"
    and coll: "\<not> gr_collides H acc (hist ! 0) root EMPTY pv i"
  shows "hd_authority (gr_header acc) = auth \<and> unat i < 2 ^ gr_depth acc \<and>
    ((hist ! 0) (unat i) = EMPTY \<and> unat i \<le> next_leaf (gr_roll acc) \<and>
       committed H tree_id hist (unat i) leaf acc ev acc' \<or>
     leaf \<noteq> EMPTY \<and> next_leaf (gr_roll acc) < 2 ^ gr_depth acc \<and>
       committed H tree_id hist (next_leaf (gr_roll acc)) leaf acc ev acc')"
proof -
  let ?d = "gr_depth acc" and ?n = "gr_buffer acc"
  obtain canopy pf roll' canopy' r where auth: "hd_authority (gr_header acc) = auth"
    and fill: "fill_in_proof_from_canopy H (gr_canopy acc) (gr_canopy_rest acc) ?d i pv = Inr (canopy, pf)"
    and op: "fill_empty_or_append H ?d ?n root leaf pf i (gr_roll acc) = Inr (r, roll')"
    and ev: "ev = change_log_event_from (get_change_log roll') tree_id (sequence_number roll')"
    and upd: "update_canopy canopy (gr_canopy_rest acc) ?d (Some ev) = Inr canopy'"
    and acc': "acc' = acc\<lparr>gr_roll := roll', gr_canopy := canopy'\<rparr>"
    using ok by (auto simp: insert_or_append_def Let_def result_simps apply_fn_eq [OF inv]
        merkle_roll_depth_size_apply_fn_def gr_depth_def)
  have i: "unat i < 2 ^ ?d"
    by (rule completed_index [OF inv fill])
  have canopy: "canopy_inv H ?d (cached_len acc) canopy (hist ! 0)"
    using fill_from_canopy_ok [OF inv i, of pv] fill by auto
  have "completed H acc i pv = pf"
    by (simp add: completed_def fill)
  then have coll': "\<not> replay_collides H ?d ?n (gr_roll acc) (hist ! 0) root EMPTY pf i"
    using coll by (simp add: gr_collides_def)
  have com: "committed H tree_id hist j leaf acc ev acc'"
    if "wrote H ?d ?n hist j leaf (gr_roll acc) roll'" "j < 2 ^ ?d" for j
    using commit [OF inv canopy that, of tree_id] upd unfolding ev acc' by auto
  show ?thesis
    using fill_empty_or_append_wrote [OF gummyroll_invD(3) [OF inv] i op coll'] com i auth by blast
qed

lemma verify_leaf_sound:
  assumes inv: "gummyroll_inv H acc hist" and ok: "verify_leaf H tree_id root leaf i pv acc = Inr acc'"
    and coll: "\<not> gr_collides H acc (hist ! 0) root leaf pv i"
  shows "unat i < 2 ^ gr_depth acc \<and> leaf = (hist ! 0) (unat i) \<and> unat i \<le> next_leaf (gr_roll acc) \<and>
    gummyroll_inv H acc' hist \<and> gr_roll acc' = gr_roll acc \<and> gr_header acc' = gr_header acc"
proof -
  let ?d = "gr_depth acc" and ?n = "gr_buffer acc"
  note invD = gummyroll_invD [OF inv]
  obtain canopy pf roll' r where
    fill: "fill_in_proof_from_canopy H (gr_canopy acc) (gr_canopy_rest acc) ?d i pv = Inr (canopy, pf)"
    and op: "prove_leaf H ?d ?n root leaf pf i (gr_roll acc) = Inr (r, roll')"
    and acc': "acc' = acc\<lparr>gr_roll := roll', gr_canopy := canopy\<rparr>"
    using ok by (auto simp: verify_leaf_def Let_def result_simps apply_fn_eq [OF inv]
        merkle_roll_depth_size_apply_fn_def gr_depth_def)
  have i: "unat i < 2 ^ ?d"
    by (rule completed_index [OF inv fill])
  have canopy: "canopy_inv H ?d (cached_len acc) canopy (hist ! 0)"
    using fill_from_canopy_ok [OF inv i, of pv] fill by auto
  have exec: "tree_exec H ?d ?n (ProveLeaf root leaf pf i) (gr_roll acc) = Inr (r, roll')"
    using op by simp
  have "\<not> op_collides H ?d ?n (gr_roll acc) (hist ! 0) (ProveLeaf root leaf pf i)"
    using coll by (simp add: gr_collides_def completed_def fill)
  from tree_exec_simulates [OF invD(3) exec _ this]
  have spec: "spec_step ?d (ProveLeaf root leaf pf i) (hist ! 0, next_leaf (gr_roll acc))
      (hist ! 0, next_leaf roll')"
    using i by (simp add: simulates_def)
  have roll': "roll' = gr_roll acc"
    using op by (auto simp: prove_leaf_eq [OF invD(3)] result_simps split: if_splits)
  have depth: "gr_depth acc' = ?d" "gr_buffer acc' = ?n"
    by (simp_all add: acc' gr_depth_def gr_buffer_def)
  have "cached_len acc' = cached_len acc"
    using canopy invD(6) cached_lenI [of H acc' "cached_len acc" "hist ! 0"]
    by (simp add: depth) (simp add: acc')
  then have "gummyroll_inv H acc' hist"
    using invD(1,2,3,5) canopy roll' by (simp add: gummyroll_inv_def depth) (simp add: acc')
  then show ?thesis
    using spec i roll' by (auto simp: acc' elim: spec_step.cases)
qed

lemma committed_spec:
  assumes c: "committed H tree_id hist i x acc ev acc'" and inv: "gummyroll_inv H acc hist"
  shows "\<exists>hist'. gummyroll_inv H acc' hist' \<and> hist' ! 0 = indexed_event (Some ev) (hist ! 0)"
    and "gr_abs acc' (indexed_event (Some ev) (hist ! 0)) =
      ((hist ! 0)(i := x), max (next_leaf (gr_roll acc)) (Suc i), hd_authority (gr_header acc),
       hd_append_authority (gr_header acc))"
proof -
  have d: "0 < gr_depth acc"
    using gummyroll_invD(7) [OF inv] by (simp add: dims_def)
  have w: "wrote H (gr_depth acc) (gr_buffer acc) hist i x (gr_roll acc) (gr_roll acc')"
    and ev: "ev = change_log_event_from (get_change_log (gr_roll acc')) tree_id
      (sequence_number (gr_roll acc'))"
    using c by (auto simp: committed_def)
  have len: "0 < length (cl_path (get_change_log (gr_roll acc')))"
    using wroteD(5) [OF w] d by simp
  have ix: "indexed_event (Some ev) (hist ! 0) = (hist ! 0)(i := x)"
    using wroteD(4,5) [OF w] d len
    by (simp add: ev change_log_event_from_def Let_def nth_append nth_enumerate_eq
        path_node_new_def nth_path_at)
  then show "gr_abs acc' (indexed_event (Some ev) (hist ! 0)) =
      ((hist ! 0)(i := x), max (next_leaf (gr_roll acc)) (Suc i), hd_authority (gr_header acc),
       hd_append_authority (gr_header acc))"
    using c by (simp add: gr_abs_def committed_def)
  have "((hist ! 0)(i := x) # take (gr_buffer acc - 1) hist) ! 0 = (hist ! 0)(i := x)"
    by simp
  then show "\<exists>hist'. gummyroll_inv H acc' hist' \<and> hist' ! 0 = indexed_event (Some ev) (hist ! 0)"
    using c ix unfolding committed_def by metis
qed

lemma gr_exec_simulates:
  assumes inv: "gummyroll_inv H acc hist" and ok: "gr_exec H tree_id instr acc = Inr (ev, acc')"
    and coll: "\<not> gr_instr_collides H acc (hist ! 0) instr"
  shows "(\<exists>hist'. gummyroll_inv H acc' hist' \<and> hist' ! 0 = indexed_event ev (hist ! 0)) \<and>
    gr_spec (gr_depth acc) instr (gr_abs acc (hist ! 0)) (gr_abs acc' (indexed_event ev (hist ! 0)))"
proof (cases instr)
  case (ReplaceLeaf auth root prev new i pv)
  then obtain e where e: "ev = Some e" "replace_leaf H tree_id auth root prev new i pv acc = Inr (e, acc')"
    using ok by (auto simp: result_simps)
  have i: "unat i < 2 ^ gr_depth acc"
    by (rule replace_leaf_index [OF inv e(2)])
  have s: "prev = (hist ! 0) (unat i)" "unat i \<le> next_leaf (gr_roll acc)"
    "committed H tree_id hist (unat i) new acc e acc'"
    using replace_leaf_sound [OF inv i e(2)] coll ReplaceLeaf by auto
  show ?thesis
    unfolding e(1) ReplaceLeaf committed_spec(2) [OF s(3) inv]
    using committed_spec(1) [OF s(3) inv] s(1,2) i replace_leaf_authority [OF e(2)]
    by (auto simp: gr_abs_def intro: gr_spec.replace_leaf)
next
  case (TransferAuthority auth na nb)
  have a: "hd_authority (gr_header acc) = auth" "ev = None"
    and h: "gr_roll acc' = gr_roll acc" "gr_canopy acc' = gr_canopy acc"
      "gr_canopy_rest acc' = gr_canopy_rest acc"
      "hd_max_depth (gr_header acc') = hd_max_depth (gr_header acc)"
      "hd_max_buffer_size (gr_header acc') = hd_max_buffer_size (gr_header acc)"
      "hd_authority (gr_header acc') = case_option auth id na"
      "hd_append_authority (gr_header acc') =
        case_option (hd_append_authority (gr_header acc)) id nb"
    using ok TransferAuthority
    by (auto simp: transfer_authority_def Let_def result_simps split: option.splits)
  have "gummyroll_inv H acc' hist"
    using inv h(1-5) by (simp add: gummyroll_inv_def gr_depth_def gr_buffer_def cached_len_def)
  then show ?thesis
    using h(1,6,7) a gr_spec.transfer_authority [of "gr_depth acc" auth na nb "hist ! 0"]
    by (auto simp: gr_abs_def TransferAuthority)
next
  case (VerifyLeaf root leaf i pv)
  have e: "ev = None" "verify_leaf H tree_id root leaf i pv acc = Inr acc'"
    using ok VerifyLeaf by (auto simp: result_simps)
  show ?thesis
    using verify_leaf_sound [OF inv e(2)] coll
    by (auto simp: VerifyLeaf e(1) gr_abs_def intro: gr_spec.verify_leaf)
next
  case (AppendLeaf auth append_auth leaf)
  then obtain e where e: "ev = Some e" "gummyroll_append H tree_id auth append_auth leaf acc = Inr (e, acc')"
    using ok by (auto simp: result_simps)
  have auth: "hd_authority (gr_header acc) = auth" "hd_append_authority (gr_header acc) = append_auth"
    and app: "\<exists>r roll'. append_node H (gr_depth acc) (gr_buffer acc) leaf (gr_roll acc) = Inr (r, roll')"
    using e(2) by (auto simp: gummyroll_append_def Let_def result_simps apply_fn_eq [OF inv]
        merkle_roll_depth_size_apply_fn_def)
  have room: "leaf \<noteq> EMPTY" "next_leaf (gr_roll acc) < 2 ^ gr_depth acc"
    using app append_simulates(2,3) [OF gummyroll_invD(3) [OF inv]] by blast+
  have c: "committed H tree_id hist (next_leaf (gr_roll acc)) leaf acc e acc'"
    using gummyroll_append_ok [OF inv auth room, of tree_id] e(2) by auto
  show ?thesis
    unfolding e(1) AppendLeaf committed_spec(2) [OF c inv]
    using committed_spec(1) [OF c inv] auth room
    by (auto simp: gr_abs_def max_def intro: gr_spec.append)
next
  case (InsertOrAppend auth root leaf i pv)
  then obtain e where e: "ev = Some e" "insert_or_append H tree_id auth root leaf i pv acc = Inr (e, acc')"
    using ok by (auto simp: result_simps)
  have "\<not> gr_collides H acc (hist ! 0) root EMPTY pv i"
    using coll InsertOrAppend by simp
  from insert_or_append_sound [OF inv e(2) this] consider
    (filled) "hd_authority (gr_header acc) = auth" "unat i < 2 ^ gr_depth acc"
      "(hist ! 0) (unat i) = EMPTY" "unat i \<le> next_leaf (gr_roll acc)"
      "committed H tree_id hist (unat i) leaf acc e acc'"
    | (appended) "hd_authority (gr_header acc) = auth" "leaf \<noteq> EMPTY"
      "next_leaf (gr_roll acc) < 2 ^ gr_depth acc"
      "committed H tree_id hist (next_leaf (gr_roll acc)) leaf acc e acc'"
    by blast
  then show ?thesis
  proof cases
    case filled
    show ?thesis
      unfolding e(1) InsertOrAppend committed_spec(2) [OF filled(5) inv]
      using committed_spec(1) [OF filled(5) inv] filled
      by (auto simp: gr_abs_def intro: gr_spec.insert)
  next
    case appended
    show ?thesis
      unfolding e(1) InsertOrAppend committed_spec(2) [OF appended(4) inv]
      using committed_spec(1) [OF appended(4) inv] appended
      by (auto simp: gr_abs_def max_def intro: gr_spec.insert_append)
  qed
qed

lemma gr_run_inv:
  assumes "gr_run H tree_id acc L" and "hash_nonzero H"
  shows "\<exists>hist. gummyroll_inv H acc hist \<and> hist ! 0 = L"
  using assms
proof (induction rule: gr_run.induct)
  case (init auth append_auth clock_slot max_depth max_buffer_size data_len ev acc)
  then show ?case
    using init_empty_gummyroll_inv(1) by (intro exI [of _ "[no_leaves]"]) auto
next
  case (step acc L instr ev acc')
  then obtain hist where "gummyroll_inv H acc hist" "hist ! 0 = L" by blast
  then show ?case
    using gr_exec_simulates [of H acc hist tree_id instr ev acc'] step.hyps by auto
qed

end
