(* ===== verification/Bubblegum_Inv.thy ===== *)
theory Bubblegum_Inv
  imports Bubblegum Gummyroll_Run
begin

text \<open>
  What the accounts of Bubblegum stand for, for one tree \<open>slab\<close>: the assets in the tree, as a partial
  map from leaf indices to leaf schemas, and the assets taken out as vouchers. An asset's nonce is
  its leaf index, its id is derived from tree and nonce, and the leaf of an asset held as a voucher
  is empty. \<open>bg_spec\<close> describes the instructions on these maps.
\<close>

section \<open>Hypotheses on the hash and on program addresses\<close>

text \<open>No hash is the all-zero node, which marks an empty leaf.\<close>

definition hash_ok :: "hashv \<Rightarrow> bool" where
  "hash_ok H \<longleftrightarrow> hash_nonzero H \<and> (\<forall>s. leaf_to_node H s \<noteq> EMPTY)"

text \<open>Program addresses derived from different seeds differ.\<close>

definition pda_ok :: "pda \<Rightarrow> bool" where
  "pda_ok pda \<longleftrightarrow>
     (\<forall>a b. pda [a] = pda [b] \<longrightarrow> a = b) \<and>
     (\<forall>a m b n. voucher_key pda a m = voucher_key pda b n \<longrightarrow> a = b \<and> m = n)"

lemma pda_okD:
  assumes "pda_ok pda"
  shows "voucher_key pda a m = voucher_key pda b n \<longleftrightarrow> a = b \<and> m = n"
    and "pda [a] = pda [b] \<longleftrightarrow> a = b"
  using assms unfolding pda_ok_def by blast+

section \<open>Representation\<close>

type_synonym assets = "nat \<Rightarrow> leaf_schema option"

definition leaf_of :: "hashv \<Rightarrow> leaf_schema option \<Rightarrow> node" where
  "leaf_of H a = (case a of None \<Rightarrow> EMPTY | Some s \<Rightarrow> leaf_to_node H s)"

definition tree_rep ::
  "hashv \<Rightarrow> pda \<Rightarrow> pubkey \<Rightarrow> bubblegum_accounts \<Rightarrow> gummyroll_account \<Rightarrow> leaves list \<Rightarrow> assets \<Rightarrow> bool" where
  "tree_rep H pda slab w acc hist A \<longleftrightarrow>
     ba_trees w slab = Some (Live acc) \<and> gummyroll_inv H acc hist \<and>
     hd_authority (gr_header acc) = pda [slab] \<and>
     (\<exists>count. ba_nonces w (pda [slab]) = Some count \<and> unat count = next_leaf (gr_roll acc)) \<and>
     (\<forall>i. (hist ! 0) i = leaf_of H (A i)) \<and>
     (\<forall>i s. A i = Some s \<longrightarrow> unat (ls_nonce s) = i \<and> ls_id s = get_asset_id pda slab (ls_nonce s))"

definition vouchers_of :: "pda \<Rightarrow> pubkey \<Rightarrow> bubblegum_accounts \<Rightarrow> u64 \<Rightarrow> leaf_schema option" where
  "vouchers_of pda slab w n = map_option vo_leaf_schema (ba_vouchers w (voucher_key pda slab n))"

definition voucher_rep :: "pda \<Rightarrow> pubkey \<Rightarrow> bubblegum_accounts \<Rightarrow> assets \<Rightarrow> nat \<Rightarrow> bool" where
  "voucher_rep pda slab w A m \<longleftrightarrow>
     (\<forall>n v. ba_vouchers w (voucher_key pda slab n) = Some v \<longrightarrow>
        vo_merkle_slab v = slab \<and> ls_nonce (vo_leaf_schema v) = n \<and>
        ls_id (vo_leaf_schema v) = get_asset_id pda slab n \<and>
        unat (vo_index v) = unat n \<and> unat n < m \<and> A (unat n) = None)"

lemma voucher_repI:
  assumes "\<And>n v. ba_vouchers w (voucher_key pda slab n) = Some v \<Longrightarrow>
    vo_merkle_slab v = slab \<and> ls_nonce (vo_leaf_schema v) = n \<and>
    ls_id (vo_leaf_schema v) = get_asset_id pda slab n \<and>
    unat (vo_index v) = unat n \<and> unat n < m \<and> A (unat n) = None"
  shows "voucher_rep pda slab w A m"
  unfolding voucher_rep_def using assms by blast

lemma voucher_repD:
  assumes "voucher_rep pda slab w A m" and "ba_vouchers w (voucher_key pda slab n) = Some v"
  shows "vo_merkle_slab v = slab \<and> ls_nonce (vo_leaf_schema v) = n \<and>
    ls_id (vo_leaf_schema v) = get_asset_id pda slab n \<and>
    unat (vo_index v) = unat n \<and> unat n < m \<and> A (unat n) = None"
  using assms unfolding voucher_rep_def by blast

definition bg_rep ::
  "hashv \<Rightarrow> pda \<Rightarrow> pubkey \<Rightarrow> bubblegum_accounts \<Rightarrow> gummyroll_account \<Rightarrow> leaves list \<Rightarrow> assets \<Rightarrow> bool" where
  "bg_rep H pda slab w acc hist A \<longleftrightarrow>
     tree_rep H pda slab w acc hist A \<and> voucher_rep pda slab w A (next_leaf (gr_roll acc))"

lemma tree_repD:
  assumes "tree_rep H pda slab w acc hist A"
  shows "ba_trees w slab = Some (Live acc)" "gummyroll_inv H acc hist"
    "hd_authority (gr_header acc) = pda [slab]"
    "\<And>i. (hist ! 0) i = leaf_of H (A i)"
    "\<And>i s. A i = Some s \<Longrightarrow> unat (ls_nonce s) = i"
    "\<And>i s. A i = Some s \<Longrightarrow> ls_id s = get_asset_id pda slab (ls_nonce s)"
  using assms by (auto simp: tree_rep_def)

lemma leaf_of_simps [simp]: "leaf_of H None = EMPTY" "leaf_of H (Some s) = leaf_to_node H s"
  by (simp_all add: leaf_of_def)

lemma leaf_of_EMPTY: "hash_ok H \<Longrightarrow> leaf_of H a = EMPTY \<longleftrightarrow> a = None"
  by (auto simp: leaf_of_def hash_ok_def split: option.splits)

lemma tree_rep_empty:
  assumes "tree_rep H pda slab w acc hist A" and "hash_ok H" and "next_leaf (gr_roll acc) \<le> i"
  shows "A i = None"
proof -
  have "rightmost_inv H (gr_depth acc) (rightmost_proof (gr_roll acc)) (hist ! 0)"
    using gummyroll_invD(3) [OF tree_repD(2) [OF assms(1)]] by (simp add: roll_inv_def)
  then have "(hist ! 0) i = EMPTY"
    using rightmost_invD(3) assms(3) by (auto simp: next_leaf_def)
  then show ?thesis
    using tree_repD(4) [OF assms(1), of i] leaf_of_EMPTY [OF assms(2)] by auto
qed

section \<open>Replacing and appending leaves\<close>

text \<open>The change log event of a write names the index and, as its first path node, the new leaf.\<close>

definition logs_write :: "bubblegum_event \<Rightarrow> nat \<Rightarrow> node \<Rightarrow> bool" where
  "logs_write ev i x \<longleftrightarrow>
     (\<exists>e. ev = ChangeLogEvent e \<and> unat (ev_index e) = i \<and> pn_node (ev_path e ! 0) = x)"

lemma committed_logs_write:
  assumes "committed H tree_id hist i x acc e acc'" and "gummyroll_inv H acc hist"
  shows "logs_write (ChangeLogEvent e) i x"
proof -
  have d: "0 < gr_depth acc"
    using gummyroll_invD(7) [OF assms(2)] by (simp add: dims_def)
  have w: "wrote H (gr_depth acc) (gr_buffer acc) hist i x (gr_roll acc) (gr_roll acc')"
    and e: "e = change_log_event_from (get_change_log (gr_roll acc')) tree_id
      (sequence_number (gr_roll acc'))"
    using assms(1) by (auto simp: committed_def)
  show ?thesis
    using wroteD(4,5) [OF w] d
    by (simp add: logs_write_def e change_log_event_from_def Let_def nth_append nth_enumerate_eq
        path_node_new_def nth_path_at)
qed

text \<open>The claimed previous leaf has the hash of the stored one although it differs from it.\<close>

definition leaf_collides :: "hashv \<Rightarrow> assets \<Rightarrow> nat \<Rightarrow> leaf_schema \<Rightarrow> bool" where
  "leaf_collides H A i s =
     (case A i of None \<Rightarrow> False | Some s' \<Rightarrow> s' \<noteq> s \<and> leaf_to_node H s' = leaf_to_node H s)"

lemma replace_cpi_rep:
  assumes rep: "tree_rep H pda slab w acc hist A" and H: "hash_ok H"
    and ok: "replace_leaf_cpi H pda slab pv root prev (leaf_of H new) i w = Inr (ev, w')"
    and coll: "\<not> gr_collides H acc (hist ! 0) root prev pv i"
    and new: "\<And>s. new = Some s \<Longrightarrow>
      unat (ls_nonce s) = unat i \<and> ls_id s = get_asset_id pda slab (ls_nonce s)"
    and below: "prev \<noteq> EMPTY \<or> unat i < next_leaf (gr_roll acc)"
  shows "prev = leaf_of H (A (unat i)) \<and> unat i < next_leaf (gr_roll acc) \<and>
    (\<exists>acc' hist'. tree_rep H pda slab w' acc' hist' (A(unat i := new)) \<and>
      next_leaf (gr_roll acc') = next_leaf (gr_roll acc) \<and> gr_header acc' = gr_header acc) \<and>
    ba_vouchers w' = ba_vouchers w \<and> logs_write ev (unat i) (leaf_of H new)"
proof -
  note repD = tree_repD [OF rep]
  obtain e acc' where r: "replace_leaf H slab (pda [slab]) root prev (leaf_of H new) i pv acc = Inr (e, acc')"
    and w': "w' = w\<lparr>ba_trees := (ba_trees w)(slab \<mapsto> Live acc')\<rparr>" "ev = ChangeLogEvent e"
    using ok repD(1) by (auto simp: replace_leaf_cpi_def live_tree_def result_simps)
  have i: "unat i < 2 ^ gr_depth acc"
    by (rule replace_leaf_index [OF repD(2) r])
  have s: "prev = (hist ! 0) (unat i)"
    "committed H slab hist (unat i) (leaf_of H new) acc e acc'"
    using replace_leaf_sound [OF repD(2) i r coll] by auto
  have prev: "prev = leaf_of H (A (unat i))"
    using s(1) repD(4) by simp
  have lt: "unat i < next_leaf (gr_roll acc)"
  proof (rule ccontr)
    assume "\<not> unat i < next_leaf (gr_roll acc)"
    then show False
      using below prev tree_rep_empty [OF rep H, of "unat i"] by simp
  qed
  have c: "gummyroll_inv H acc' ((hist ! 0)(unat i := leaf_of H new) # take (gr_buffer acc - 1) hist)"
    "gr_header acc' = gr_header acc" "next_leaf (gr_roll acc') = next_leaf (gr_roll acc)"
    using s(2) lt by (auto simp: committed_def)
  have "tree_rep H pda slab w' acc' ((hist ! 0)(unat i := leaf_of H new) # take (gr_buffer acc - 1) hist)
      (A(unat i := new))"
    using rep c new by (auto simp: tree_rep_def w')
  then show ?thesis
    using prev lt c(2,3) committed_logs_write [OF s(2) repD(2)] by (auto simp: w')
qed

lemma append_leaf_rep:
  assumes rep: "tree_rep H pda slab w acc hist A"
    and ok: "append_leaf H pda slab mint_authority (leaf_to_node H s)
      (w\<lparr>ba_nonces := (ba_nonces w)(pda [slab] \<mapsto> saturating_add (ls_nonce s) 1)\<rparr>) = Inr (ev, w')"
    and s: "ba_nonces w (pda [slab]) = Some (ls_nonce s)" "ls_id s = get_asset_id pda slab (ls_nonce s)"
  shows "hd_append_authority (gr_header acc) = mint_authority \<and>
    next_leaf (gr_roll acc) = unat (ls_nonce s) \<and> next_leaf (gr_roll acc) < 2 ^ gr_depth acc \<and>
    (\<exists>acc' hist'. tree_rep H pda slab w' acc' hist' (A(unat (ls_nonce s) \<mapsto> s)) \<and>
      next_leaf (gr_roll acc') = Suc (next_leaf (gr_roll acc)) \<and> gr_header acc' = gr_header acc) \<and>
    ba_vouchers w' = ba_vouchers w \<and> logs_write ev (unat (ls_nonce s)) (leaf_to_node H s)"
proof -
  note repD = tree_repD [OF rep]
  let ?m = "next_leaf (gr_roll acc)"
  obtain e acc' where r: "gummyroll_append H slab (pda [slab]) mint_authority (leaf_to_node H s) acc =
      Inr (e, acc')"
    and w': "w' = w\<lparr>ba_nonces := (ba_nonces w)(pda [slab] \<mapsto> saturating_add (ls_nonce s) 1),
      ba_trees := (ba_trees w)(slab \<mapsto> Live acc')\<rparr>" "ev = ChangeLogEvent e"
    using ok repD(1) by (auto simp: append_leaf_def live_tree_def result_simps)
  have auth: "hd_append_authority (gr_header acc) = mint_authority"
    and app: "\<exists>r roll'. append_node H (gr_depth acc) (gr_buffer acc) (leaf_to_node H s) (gr_roll acc) =
      Inr (r, roll')"
    using r by (auto simp: gummyroll_append_def Let_def result_simps apply_fn_eq [OF repD(2)]
        merkle_roll_depth_size_apply_fn_def)
  have room: "leaf_to_node H s \<noteq> EMPTY" "?m < 2 ^ gr_depth acc"
    using app append_simulates(2,3) [OF gummyroll_invD(3) [OF repD(2)]] by blast+
  have com: "committed H slab hist ?m (leaf_to_node H s) acc e acc'"
    using gummyroll_append_ok [OF repD(2,3) auth room, of slab] r by auto
  then have c: "gummyroll_inv H acc' ((hist ! 0)(?m := leaf_to_node H s) # take (gr_buffer acc - 1) hist)"
    "gr_header acc' = gr_header acc" "next_leaf (gr_roll acc') = Suc ?m"
    by (auto simp: committed_def)
  have m: "unat (ls_nonce s) = ?m"
    using rep s(1) by (auto simp: tree_rep_def)
  have "Suc ?m < 2 ^ 64"
  proof -
    have "(2 :: nat) ^ gr_depth acc \<le> 2 ^ 31"
      by (rule power_increasing) (use gummyroll_invD(6) [OF repD(2)] in auto)
    then show ?thesis using room(2) by simp
  qed
  then have "unat (saturating_add (ls_nonce s) 1) = Suc ?m"
    using m by (simp add: unat_saturating_add)
  then have "tree_rep H pda slab w' acc'
      ((hist ! 0)(?m := leaf_to_node H s) # take (gr_buffer acc - 1) hist) (A(?m \<mapsto> s))"
    using rep c s(2) m by (auto simp: tree_rep_def w')
  then show ?thesis
    using auth m room(2) c(2,3) committed_logs_write [OF com repD(2)] by (auto simp: w')
qed

section \<open>The specification\<close>

datatype bg_instr =
    MintV1 pubkey pubkey pubkey metadata_args
  | Transfer pubkey bool pubkey bool pubkey "node list" node node node u64 u32
  | Delegate pubkey pubkey pubkey "node list" node node node u64 u32
  | Burn pubkey bool pubkey bool "node list" node node node u64 u32
  | Redeem pubkey pubkey "node list" node node node u64 u32
  | CancelRedeem pubkey pubkey "node list" node

fun bg_exec ::
  "hashv \<Rightarrow> pda \<Rightarrow> (metadata_args \<Rightarrow> bytes) \<Rightarrow> pubkey \<Rightarrow> bg_instr \<Rightarrow> bubblegum_accounts \<Rightarrow>
   bubblegum_result" where
  "bg_exec H pda ser slab (MintV1 auth ow de msg) w = mint_v1 H pda ser slab auth ow de msg w"
| "bg_exec H pda ser slab (Transfer ow os de ds nw pv root dh ch n i) w =
     transfer H pda slab ow os de ds nw pv root dh ch n i w"
| "bg_exec H pda ser slab (Delegate ow pd nd pv root dh ch n i) w =
     delegate_leaf H pda slab ow pd nd pv root dh ch n i w"
| "bg_exec H pda ser slab (Burn ow os de ds pv root dh ch n i) w =
     burn H pda slab ow os de ds pv root dh ch n i w"
| "bg_exec H pda ser slab (Redeem ow de pv root dh ch n i) w =
     redeem H pda slab ow de pv root dh ch n i w"
| "bg_exec H pda ser slab (CancelRedeem vk ow pv root) w =
     cancel_redeem H pda slab vk ow pv root w"

text \<open>The leaf that an instruction claims to be in the tree, with root, proof and index.\<close>

fun bg_claim ::
  "pda \<Rightarrow> pubkey \<Rightarrow> bubblegum_accounts \<Rightarrow> bg_instr \<Rightarrow>
   (leaf_schema option \<times> node \<times> node list \<times> u32) option" where
  "bg_claim pda slab w (MintV1 auth ow de msg) = None"
| "bg_claim pda slab w (Transfer ow os de ds nw pv root dh ch n i) =
     Some (Some (leaf_new_v0 (get_asset_id pda slab n) ow de n dh ch), root, pv, i)"
| "bg_claim pda slab w (Delegate ow pd nd pv root dh ch n i) =
     Some (Some (leaf_new_v0 (get_asset_id pda slab n) ow pd n dh ch), root, pv, i)"
| "bg_claim pda slab w (Burn ow os de ds pv root dh ch n i) =
     Some (Some (leaf_new_v0 (get_asset_id pda slab n) ow de n dh ch), root, pv, i)"
| "bg_claim pda slab w (Redeem ow de pv root dh ch n i) =
     Some (Some (leaf_new_v0 (get_asset_id pda slab n) ow de n dh ch), root, pv, i)"
| "bg_claim pda slab w (CancelRedeem vk ow pv root) =
     map_option (\<lambda>v. (None, root, pv, vo_index v)) (ba_vouchers w vk)"

definition bg_collides ::
  "hashv \<Rightarrow> pda \<Rightarrow> pubkey \<Rightarrow> bubblegum_accounts \<Rightarrow> gummyroll_account \<Rightarrow> assets \<Rightarrow> bg_instr \<Rightarrow> bool" where
  "bg_collides H pda slab w acc A instr =
     (case bg_claim pda slab w instr of
        None \<Rightarrow> False
      | Some (prev, root, pv, i) \<Rightarrow>
          gr_collides H acc (leaf_of H \<circ> A) root (leaf_of H prev) pv i \<or>
          (case prev of None \<Rightarrow> False | Some s \<Rightarrow> leaf_collides H A (unat i) s))"

text \<open>
  The abstract state: the assets in the tree, the assets held as vouchers and the number of assets
  minted. The last argument of \<open>bg_spec\<close> is the append authority of the tree.
\<close>

type_synonym bg_abstract = "assets \<times> (u64 \<Rightarrow> leaf_schema option) \<times> nat"

inductive bg_spec ::
  "hashv \<Rightarrow> pda \<Rightarrow> (metadata_args \<Rightarrow> bytes) \<Rightarrow> pubkey \<Rightarrow> nat \<Rightarrow> pubkey \<Rightarrow> bg_instr \<Rightarrow> bg_abstract \<Rightarrow>
   bg_abstract \<Rightarrow> bool"
  for H pda ser slab d minter where
  mint: "auth = minter \<Longrightarrow> m < 2 ^ d \<Longrightarrow> unat n = m \<Longrightarrow>
    s = LeafV1 (get_asset_id pda slab n) ow de n (H [ser msg]) (hash_creators H (ma_creators msg)) \<Longrightarrow>
    bg_spec H pda ser slab d minter (MintV1 auth ow de msg) (A, V, m) (A(m \<mapsto> s), V, Suc m)"
| transfer: "A (unat i) = Some (LeafV1 aid ow de n dh ch) \<Longrightarrow> os \<or> ds \<Longrightarrow>
    bg_spec H pda ser slab d minter (Transfer ow os de ds nw pv root dh ch n i) (A, V, m)
      (A(unat i \<mapsto> LeafV1 aid nw nw n dh ch), V, m)"
| delegate: "A (unat i) = Some (LeafV1 aid ow pd n dh ch) \<Longrightarrow>
    bg_spec H pda ser slab d minter (Delegate ow pd nd pv root dh ch n i) (A, V, m)
      (A(unat i \<mapsto> LeafV1 aid ow nd n dh ch), V, m)"
| burn: "A (unat i) = Some (LeafV1 aid ow de n dh ch) \<Longrightarrow> os \<or> ds \<Longrightarrow>
    bg_spec H pda ser slab d minter (Burn ow os de ds pv root dh ch n i) (A, V, m)
      (A(unat i := None), V, m)"
| redeem: "A (unat i) = Some (LeafV1 aid ow de n dh ch) \<Longrightarrow> V n = None \<Longrightarrow>
    bg_spec H pda ser slab d minter (Redeem ow de pv root dh ch n i) (A, V, m)
      (A(unat i := None), V(n \<mapsto> LeafV1 aid ow de n dh ch), m)"
| cancel_redeem: "V n = Some s \<Longrightarrow> vk = voucher_key pda slab n \<Longrightarrow> ls_owner s = ow \<Longrightarrow>
    A (unat n) = None \<Longrightarrow>
    bg_spec H pda ser slab d minter (CancelRedeem vk ow pv root) (A, V, m)
      (A(unat n \<mapsto> s), V(n := None), m)"

inductive_cases bg_spec_MintE: "bg_spec H pda ser slab d minter (MintV1 auth ow de msg) (A, V, m) s'"
inductive_cases bg_spec_TransferE:
  "bg_spec H pda ser slab d minter (Transfer ow os de ds nw pv root dh ch n i) (A, V, m) s'"

definition bg_abs ::
  "pda \<Rightarrow> pubkey \<Rightarrow> bubblegum_accounts \<Rightarrow> gummyroll_account \<Rightarrow> assets \<Rightarrow> bg_abstract" where
  "bg_abs pda slab w acc A = (A, vouchers_of pda slab w, next_leaf (gr_roll acc))"

end
