(* ===== verification/Bubblegum_Run.thy ===== *)
theory Bubblegum_Run
  imports Bubblegum_Inv
begin

text \<open>
  Every successful instruction of Bubblegum on a tree is a step of \<open>bg_spec\<close>, and instructions on
  other trees do not touch this tree's assets and vouchers. \<open>bg_reach\<close> collects the states the
  program can reach from empty accounts, with the assets that an indexer rebuilds from the events.
\<close>

section \<open>Steps on the same tree\<close>

lemma leaves_of_assets:
  assumes "tree_rep H pda slab w acc hist A"
  shows "hist ! 0 = leaf_of H \<circ> A"
  using tree_repD(4) [OF assms] by (auto simp: fun_eq_iff)

text \<open>An instruction that claims the leaf \<open>s\<close> to be in the tree and replaces it.\<close>

lemma replace_claimed:
  assumes rep: "bg_rep H pda slab w acc hist A" and H: "hash_ok H"
    and ok: "replace_leaf_cpi H pda slab pv root (leaf_to_node H s) (leaf_of H new) i w = Inr (ev, w')"
    and coll: "\<not> gr_collides H acc (leaf_of H \<circ> A) root (leaf_to_node H s) pv i"
      "\<not> leaf_collides H A (unat i) s"
    and new: "\<And>s'. new = Some s' \<Longrightarrow> ls_nonce s' = ls_nonce s \<and> ls_id s' = ls_id s"
  shows "A (unat i) = Some s \<and> unat (ls_nonce s) = unat i \<and> unat i < next_leaf (gr_roll acc) \<and>
    (\<exists>acc' hist'. bg_rep H pda slab w' acc' hist' (A(unat i := new)) \<and>
      next_leaf (gr_roll acc') = next_leaf (gr_roll acc) \<and> gr_header acc' = gr_header acc) \<and>
    ba_vouchers w' = ba_vouchers w \<and> logs_write ev (unat i) (leaf_of H new)"
proof -
  have tree: "tree_rep H pda slab w acc hist A" and vou: "voucher_rep pda slab w A (next_leaf (gr_roll acc))"
    using rep by (auto simp: bg_rep_def)
  note repD = tree_repD [OF tree]
  have coll': "\<not> gr_collides H acc (hist ! 0) root (leaf_to_node H s) pv i"
    using coll(1) leaves_of_assets [OF tree] by simp
  have nz: "leaf_to_node H s \<noteq> EMPTY"
    using H by (simp add: hash_ok_def)
  have "leaf_to_node H s = leaf_of H (A (unat i))"
  proof -
    obtain e acc' where r: "replace_leaf H slab (pda [slab]) root (leaf_to_node H s) (leaf_of H new) i pv acc =
        Inr (e, acc')"
      using ok repD(1) by (auto simp: replace_leaf_cpi_def live_tree_def result_simps)
    show ?thesis
      using replace_leaf_sound [OF repD(2) replace_leaf_index [OF repD(2) r] r coll'] repD(4) by simp
  qed
  then have A: "A (unat i) = Some s"
    using nz coll(2) by (cases "A (unat i)") (auto simp: leaf_collides_def)
  have new': "unat (ls_nonce s') = unat i \<and> ls_id s' = get_asset_id pda slab (ls_nonce s')"
    if "new = Some s'" for s'
    using new [OF that] repD(5,6) [OF A] by simp
  note rc = replace_cpi_rep [OF tree H ok coll' new' disjI1 [OF nz]]
  have "voucher_rep pda slab w' (A(unat i := new)) (next_leaf (gr_roll acc))"
    using vou A rc by (fastforce simp: voucher_rep_def)
  then show ?thesis
    using rc A repD(5) [OF A] by (fastforce simp: bg_rep_def)
qed

text \<open>The result of a step: the new representation and the abstract step.\<close>

definition bg_simulates ::
  "hashv \<Rightarrow> pda \<Rightarrow> (metadata_args \<Rightarrow> bytes) \<Rightarrow> pubkey \<Rightarrow> bg_instr \<Rightarrow> bubblegum_accounts \<Rightarrow>
   gummyroll_account \<Rightarrow> assets \<Rightarrow> bubblegum_accounts \<Rightarrow> assets \<Rightarrow> bool" where
  "bg_simulates H pda ser slab instr w acc A w' A' \<longleftrightarrow>
     (\<exists>acc' hist'. bg_rep H pda slab w' acc' hist' A' \<and> gr_header acc' = gr_header acc \<and>
        bg_spec H pda ser slab (gr_depth acc) (hd_append_authority (gr_header acc)) instr
          (bg_abs pda slab w acc A) (bg_abs pda slab w' acc' A'))"

text \<open>The assets an indexer rebuilds from the events of an instruction.\<close>

fun indexed_assets :: "bubblegum_event list \<Rightarrow> assets \<Rightarrow> assets" where
  "indexed_assets (LeafSchemaEvent le # ChangeLogEvent ev # es) A =
     indexed_assets es (A(unat (ev_index ev) :=
       if pn_node (ev_path ev ! 0) = le_leaf_hash le then Some (le_schema le) else None))"
| "indexed_assets (_ # es) A = indexed_assets es A"
| "indexed_assets [] A = A"

lemma indexed_assets_write:
  assumes "logs_write ev i (leaf_of H new)" and "new = Some s \<or> new = None \<and> hash_ok H"
  shows "indexed_assets [LeafSchemaEvent (leaf_to_event H s), ev] A = A(i := new)"
  using assms by (auto simp: logs_write_def leaf_to_event_def hash_ok_def) metis+

lemma vouchers_of_cong: "ba_vouchers w' = ba_vouchers w \<Longrightarrow> vouchers_of pda slab w' = vouchers_of pda slab w"
  by (simp add: vouchers_of_def fun_eq_iff)

lemma mint_simulates:
  assumes rep: "bg_rep H pda slab w acc hist A"
    and ok: "mint_v1 H pda ser slab auth ow de msg w = Inr (evs, w')"
  shows "bg_simulates H pda ser slab (MintV1 auth ow de msg) w acc A w' (indexed_assets evs A)"
proof -
  have tree: "tree_rep H pda slab w acc hist A" and vou: "voucher_rep pda slab w A (next_leaf (gr_roll acc))"
    using rep by (auto simp: bg_rep_def)
  obtain count where count: "ba_nonces w (pda [slab]) = Some count"
    using tree by (auto simp: tree_rep_def)
  define s where "s = LeafV1 (get_asset_id pda slab count) ow de count (H [ser msg])
      (hash_creators H (ma_creators msg))"
  obtain ev where app: "append_leaf H pda slab auth (leaf_to_node H s)
      (w\<lparr>ba_nonces := (ba_nonces w)(pda [slab] \<mapsto> saturating_add (ls_nonce s) 1)\<rparr>) = Inr (ev, w')"
    and evs: "evs = [NewNFTEvent \<lparr>nn_version = V1, nn_metadata = msg, nn_nonce = count\<rparr>,
        LeafSchemaEvent (leaf_to_event H s), ev]"
    using ok count by (auto simp: mint_v1_def authority_nonce_def Let_def result_simps s_def leaf_new_v0_def)
  have s: "ba_nonces w (pda [slab]) = Some (ls_nonce s)" "ls_id s = get_asset_id pda slab (ls_nonce s)"
    using count by (simp_all add: s_def)
  obtain acc' hist' where r: "hd_append_authority (gr_header acc) = auth"
    "next_leaf (gr_roll acc) = unat count" "next_leaf (gr_roll acc) < 2 ^ gr_depth acc"
    "tree_rep H pda slab w' acc' hist' (A(unat count \<mapsto> s))"
    "next_leaf (gr_roll acc') = Suc (next_leaf (gr_roll acc))" "gr_header acc' = gr_header acc"
    "ba_vouchers w' = ba_vouchers w" "logs_write ev (unat count) (leaf_to_node H s)"
    using append_leaf_rep [OF tree app s] by (auto simp: s_def)
  have A': "indexed_assets evs A = A(unat count \<mapsto> s)"
    using r(8) indexed_assets_write [of ev "unat count" H "Some s" s A] by (simp add: evs)
  have "voucher_rep pda slab w' (A(unat count \<mapsto> s)) (Suc (next_leaf (gr_roll acc)))"
    by (rule voucher_repI) (use voucher_repD [OF vou] r(2,7) in fastforce)
  then have rep': "bg_rep H pda slab w' acc' hist' (A(unat count \<mapsto> s))"
    using r(4,5) by (simp add: bg_rep_def)
  have "bg_spec H pda ser slab (gr_depth acc) (hd_append_authority (gr_header acc))
      (MintV1 auth ow de msg) (bg_abs pda slab w acc A) (bg_abs pda slab w' acc' (A(unat count \<mapsto> s)))"
    unfolding bg_abs_def vouchers_of_cong [OF r(7)] r(5) r(2) [symmetric]
    by (rule bg_spec.mint) (use r(1,2,3) s_def in auto)
  then show ?thesis
    unfolding bg_simulates_def A' using rep' r(6) by blast
qed

lemma claimed_simulates:
  assumes rep: "bg_rep H pda slab w acc hist A" and H: "hash_ok H"
    and ok: "replace_leaf_cpi H pda slab pv root (leaf_to_node H s) (leaf_of H new) i w = Inr (ev, w')"
    and claim: "bg_claim pda slab w instr = Some (Some s, root, pv, i)"
    and coll: "\<not> bg_collides H pda slab w acc A instr"
    and new: "new = Some s' \<and> ls_nonce s' = ls_nonce s \<and> ls_id s' = ls_id s \<or> new = None"
    and spec: "\<And>d b m. A (unat i) = Some s \<Longrightarrow> bg_spec H pda ser slab d b instr
      (A, vouchers_of pda slab w, m) (A(unat i := new), vouchers_of pda slab w, m)"
  shows "bg_simulates H pda ser slab instr w acc A w'
    (indexed_assets [LeafSchemaEvent (leaf_to_event H s'), ev] A)"
proof -
  have coll': "\<not> gr_collides H acc (leaf_of H \<circ> A) root (leaf_to_node H s) pv i"
    "\<not> leaf_collides H A (unat i) s"
    using coll by (auto simp: bg_collides_def claim)
  obtain acc' hist' where c: "A (unat i) = Some s" "bg_rep H pda slab w' acc' hist' (A(unat i := new))"
    "next_leaf (gr_roll acc') = next_leaf (gr_roll acc)" "gr_header acc' = gr_header acc"
    "ba_vouchers w' = ba_vouchers w" "logs_write ev (unat i) (leaf_of H new)"
    using replace_claimed [OF rep H ok coll'] new by auto
  have "indexed_assets [LeafSchemaEvent (leaf_to_event H s'), ev] A = A(unat i := new)"
    by (rule indexed_assets_write [OF c(6)]) (use new H in auto)
  then show ?thesis
    using c(2,4) spec [OF c(1)]
    by (auto simp: bg_simulates_def bg_abs_def c(3) vouchers_of_cong [OF c(5)])
qed

lemma transfer_simulates:
  assumes rep: "bg_rep H pda slab w acc hist A" and H: "hash_ok H"
    and ok: "transfer H pda slab ow os de ds nw pv root dh ch n i w = Inr (evs, w')"
    and coll: "\<not> bg_collides H pda slab w acc A (Transfer ow os de ds nw pv root dh ch n i)"
  shows "bg_simulates H pda ser slab (Transfer ow os de ds nw pv root dh ch n i) w acc A w'
    (indexed_assets evs A)"
proof -
  let ?aid = "get_asset_id pda slab n"
  let ?s = "leaf_new_v0 ?aid ow de n dh ch" and ?s' = "leaf_new_v0 ?aid nw nw n dh ch"
  obtain ev where signs: "os \<or> ds" and evs: "evs = [LeafSchemaEvent (leaf_to_event H ?s'), ev]"
    and r: "replace_leaf_cpi H pda slab pv root (leaf_to_node H ?s) (leaf_of H (Some ?s')) i w = Inr (ev, w')"
    using ok by (auto simp: transfer_def Let_def result_simps)
  show ?thesis
    unfolding evs by (rule claimed_simulates [OF rep H r _ coll])
      (use signs in \<open>auto simp: leaf_new_v0_def intro: bg_spec.transfer\<close>)
qed

lemma delegate_simulates:
  assumes rep: "bg_rep H pda slab w acc hist A" and H: "hash_ok H"
    and ok: "delegate_leaf H pda slab ow pd nd pv root dh ch n i w = Inr (evs, w')"
    and coll: "\<not> bg_collides H pda slab w acc A (Delegate ow pd nd pv root dh ch n i)"
  shows "bg_simulates H pda ser slab (Delegate ow pd nd pv root dh ch n i) w acc A w'
    (indexed_assets evs A)"
proof -
  let ?aid = "get_asset_id pda slab n"
  let ?s = "leaf_new_v0 ?aid ow pd n dh ch" and ?s' = "leaf_new_v0 ?aid ow nd n dh ch"
  obtain ev where evs: "evs = [LeafSchemaEvent (leaf_to_event H ?s'), ev]"
    and r: "replace_leaf_cpi H pda slab pv root (leaf_to_node H ?s) (leaf_of H (Some ?s')) i w = Inr (ev, w')"
    using ok by (auto simp: delegate_leaf_def Let_def result_simps)
  show ?thesis
    unfolding evs by (rule claimed_simulates [OF rep H r _ coll])
      (auto simp: leaf_new_v0_def intro: bg_spec.delegate)
qed

lemma burn_simulates:
  assumes rep: "bg_rep H pda slab w acc hist A" and H: "hash_ok H"
    and ok: "burn H pda slab ow os de ds pv root dh ch n i w = Inr (evs, w')"
    and coll: "\<not> bg_collides H pda slab w acc A (Burn ow os de ds pv root dh ch n i)"
  shows "bg_simulates H pda ser slab (Burn ow os de ds pv root dh ch n i) w acc A w'
    (indexed_assets evs A)"
proof -
  let ?s = "leaf_new_v0 (get_asset_id pda slab n) ow de n dh ch"
  obtain ev where signs: "os \<or> ds" and evs: "evs = [LeafSchemaEvent (leaf_to_event H ?s), ev]"
    and r: "replace_leaf_cpi H pda slab pv root (leaf_to_node H ?s) (leaf_of H None) i w = Inr (ev, w')"
    using ok by (auto simp: burn_def Let_def result_simps)
  show ?thesis
    unfolding evs by (rule claimed_simulates [OF rep H r _ coll])
      (use signs in \<open>auto simp: leaf_new_v0_def intro: bg_spec.burn\<close>)
qed

lemma redeem_simulates:
  assumes rep: "bg_rep H pda slab w acc hist A" and H: "hash_ok H" and pda: "pda_ok pda"
    and ok: "redeem H pda slab ow de pv root dh ch n i w = Inr (evs, w')"
    and coll: "\<not> bg_collides H pda slab w acc A (Redeem ow de pv root dh ch n i)"
  shows "bg_simulates H pda ser slab (Redeem ow de pv root dh ch n i) w acc A w'
    (indexed_assets evs A)"
proof -
  let ?aid = "get_asset_id pda slab n" and ?vk = "voucher_key pda slab n"
  let ?s = "leaf_new_v0 ?aid ow de n dh ch"
  obtain ev w1 where none: "ba_vouchers w ?vk = None"
    and evs: "evs = [LeafSchemaEvent (leaf_to_event H ?s), ev]"
    and w': "w' = w1\<lparr>ba_vouchers := (ba_vouchers w1)(?vk \<mapsto> voucher_new ?s i slab)\<rparr>"
    and r: "replace_leaf_cpi H pda slab pv root (leaf_to_node H ?s) (leaf_of H None) i w = Inr (ev, w1)"
    using ok by (auto simp: redeem_def Let_def result_simps)
  have coll': "\<not> gr_collides H acc (leaf_of H \<circ> A) root (leaf_to_node H ?s) pv i"
    "\<not> leaf_collides H A (unat i) ?s"
    using coll by (auto simp: bg_collides_def)
  obtain acc' hist' where c: "A (unat i) = Some ?s" "unat n = unat i" "unat i < next_leaf (gr_roll acc)"
    "bg_rep H pda slab w1 acc' hist' (A(unat i := None))"
    "next_leaf (gr_roll acc') = next_leaf (gr_roll acc)" "gr_header acc' = gr_header acc"
    "ba_vouchers w1 = ba_vouchers w" "logs_write ev (unat i) (leaf_of H None)"
    using replace_claimed [OF rep H r coll'] by auto
  have A': "indexed_assets evs A = A(unat i := None)"
    unfolding evs by (rule indexed_assets_write [OF c(8)]) (use H in simp)
  have key: "voucher_key pda slab m = ?vk \<longleftrightarrow> m = n" for m
    by (simp add: pda_okD(1) [OF pda])
  have "voucher_rep pda slab w' (A(unat i := None)) (next_leaf (gr_roll acc'))"
  proof (rule voucher_repI)
    fix m v
    assume "ba_vouchers w' (voucher_key pda slab m) = Some v"
    then have v: "(if m = n then Some (voucher_new ?s i slab) else ba_vouchers w1 (voucher_key pda slab m)) =
        Some v"
      by (simp add: w' key)
    show "vo_merkle_slab v = slab \<and> ls_nonce (vo_leaf_schema v) = m \<and>
        ls_id (vo_leaf_schema v) = get_asset_id pda slab m \<and> unat (vo_index v) = unat m \<and>
        unat m < next_leaf (gr_roll acc') \<and> (A(unat i := None)) (unat m) = None"
    proof (cases "m = n")
      case True
      then show ?thesis using v c(2,3,5) by (auto simp: voucher_new_def)
    next
      case False
      then have "ba_vouchers w1 (voucher_key pda slab m) = Some v" using v by simp
      then show ?thesis by (rule voucher_repD [rotated]) (use c(4) bg_rep_def in blast)
    qed
  qed
  moreover have "tree_rep H pda slab w' acc' hist' (A(unat i := None))"
    using c(4) by (simp add: bg_rep_def tree_rep_def w')
  ultimately have rep': "bg_rep H pda slab w' acc' hist' (A(unat i := None))"
    by (simp add: bg_rep_def)
  have V: "vouchers_of pda slab w' = (vouchers_of pda slab w)(n \<mapsto> ?s)"
    by (auto simp: vouchers_of_def fun_eq_iff w' key voucher_new_def c(7))
  have "bg_spec H pda ser slab (gr_depth acc) (hd_append_authority (gr_header acc))
      (Redeem ow de pv root dh ch n i) (bg_abs pda slab w acc A) (bg_abs pda slab w' acc' (A(unat i := None)))"
    unfolding bg_abs_def V c(5) using c(1) none
    by (auto simp: leaf_new_v0_def vouchers_of_def intro: bg_spec.redeem)
  then show ?thesis
    unfolding bg_simulates_def A' using rep' c(6) by blast
qed

lemma cancel_redeem_simulates:
  assumes rep: "bg_rep H pda slab w acc hist A" and H: "hash_ok H" and pda: "pda_ok pda"
    and ok: "cancel_redeem H pda slab vk ow pv root w = Inr (evs, w')"
    and coll: "\<not> bg_collides H pda slab w acc A (CancelRedeem vk ow pv root)"
  shows "bg_simulates H pda ser slab (CancelRedeem vk ow pv root) w acc A w' (indexed_assets evs A)"
proof -
  have tree: "tree_rep H pda slab w acc hist A" and vou: "voucher_rep pda slab w A (next_leaf (gr_roll acc))"
    using rep by (auto simp: bg_rep_def)
  obtain v ev w1 where v: "ba_vouchers w vk = Some v"
    and vk: "vk = voucher_key pda slab (ls_nonce (vo_leaf_schema v))"
    and ow: "ow = ls_owner (vo_leaf_schema v)"
    and evs: "evs = [LeafSchemaEvent (leaf_to_event H (vo_leaf_schema v)), ev]"
    and w': "w' = w1\<lparr>ba_vouchers := (ba_vouchers w1)(vk := None)\<rparr>"
    and r: "replace_leaf_cpi H pda slab pv root EMPTY (leaf_of H (Some (vo_leaf_schema v))) (vo_index v) w =
      Inr (ev, w1)"
    using ok by (auto simp: cancel_redeem_def Let_def result_simps assert_pubkey_equal_def cmp_pubkeys_def
        split: if_splits)
  define s n where "s = vo_leaf_schema v" and "n = ls_nonce s"
  have vD: "ls_id s = get_asset_id pda slab n" "unat (vo_index v) = unat n"
    "unat n < next_leaf (gr_roll acc)" "A (unat n) = None"
    using voucher_repD [OF vou v [unfolded vk]] by (auto simp: s_def n_def)
  have coll': "\<not> gr_collides H acc (hist ! 0) root EMPTY pv (vo_index v)"
    using coll v leaves_of_assets [OF tree] by (simp add: bg_collides_def)
  have key: "voucher_key pda slab m = vk \<longleftrightarrow> m = n" for m
    by (simp add: vk pda_okD(1) [OF pda] s_def n_def)
  obtain acc' hist' where c: "tree_rep H pda slab w1 acc' hist' (A(unat n \<mapsto> s))"
    "next_leaf (gr_roll acc') = next_leaf (gr_roll acc)" "gr_header acc' = gr_header acc"
    "ba_vouchers w1 = ba_vouchers w" "logs_write ev (unat n) (leaf_of H (Some s))"
    using replace_cpi_rep [OF tree H r coll' _ disjI2] vD by (auto simp: s_def [symmetric] n_def [symmetric])
  have A': "indexed_assets evs A = A(unat n \<mapsto> s)"
    unfolding evs s_def [symmetric] by (rule indexed_assets_write [OF c(5)]) simp
  have neq: "unat m \<noteq> unat n" if "m \<noteq> n" for m
    using that by (simp add: word_unat_eq_iff)
  have "voucher_rep pda slab w' (A(unat n \<mapsto> s)) (next_leaf (gr_roll acc'))"
    by (rule voucher_repI)
      (use voucher_repD [OF vou] neq c(2,4) in \<open>auto simp: w' key split: if_splits\<close>)
  moreover have "tree_rep H pda slab w' acc' hist' (A(unat n \<mapsto> s))"
    using c(1) by (simp add: tree_rep_def w')
  ultimately have rep': "bg_rep H pda slab w' acc' hist' (A(unat n \<mapsto> s))"
    by (simp add: bg_rep_def)
  have V: "vouchers_of pda slab w' = (vouchers_of pda slab w)(n := None)"
    by (auto simp: vouchers_of_def fun_eq_iff w' key c(4))
  have "vouchers_of pda slab w n = Some s"
    using v key [of n] by (simp add: vouchers_of_def s_def)
  then have "bg_spec H pda ser slab (gr_depth acc) (hd_append_authority (gr_header acc))
      (CancelRedeem vk ow pv root) (bg_abs pda slab w acc A) (bg_abs pda slab w' acc' (A(unat n \<mapsto> s)))"
    unfolding bg_abs_def V c(2)
    by (rule bg_spec.cancel_redeem) (use ow vD(4) key [of n] in \<open>auto simp: s_def\<close>)
  then show ?thesis
    unfolding bg_simulates_def A' using rep' c(3) by blast
qed

lemma bg_exec_simulates:
  assumes "bg_rep H pda slab w acc hist A" and "hash_ok H" and "pda_ok pda"
    and "bg_exec H pda ser slab instr w = Inr (evs, w')"
    and "\<not> bg_collides H pda slab w acc A instr"
  shows "bg_simulates H pda ser slab instr w acc A w' (indexed_assets evs A)"
  using assms
  by (cases instr)
    (auto intro: mint_simulates transfer_simulates delegate_simulates burn_simulates
      redeem_simulates cancel_redeem_simulates)

end
