(* ===== verification/Bubblegum_Reach.thy ===== *)
theory Bubblegum_Reach
  imports Bubblegum_Run
begin

text \<open>
  The reachable states of Bubblegum over all trees: from accounts without trees, any sequence of tree
  creations, instructions and decompressions. \<open>AA slab\<close> are the assets of tree \<open>slab\<close> that an indexer
  rebuilds from the events.
\<close>

section \<open>Frame\<close>

lemma replace_cpi_frame:
  assumes "replace_leaf_cpi H pda t pv root prev new i w = Inr (ev, w')"
  shows "ba_nonces w' = ba_nonces w" and "ba_vouchers w' = ba_vouchers w"
    and "slab \<noteq> t \<Longrightarrow> ba_trees w' slab = ba_trees w slab"
  using assms by (auto simp: replace_leaf_cpi_def live_tree_def result_simps)

lemma append_leaf_frame:
  assumes "append_leaf H pda t auth x w = Inr (ev, w')"
  shows "ba_nonces w' = ba_nonces w" and "ba_vouchers w' = ba_vouchers w"
    and "slab \<noteq> t \<Longrightarrow> ba_trees w' slab = ba_trees w slab"
  using assms by (auto simp: append_leaf_def live_tree_def result_simps)

text \<open>Two states agree on what belongs to a tree.\<close>

definition same_tree :: "pda \<Rightarrow> pubkey \<Rightarrow> bubblegum_accounts \<Rightarrow> bubblegum_accounts \<Rightarrow> bool" where
  "same_tree pda slab w w' \<longleftrightarrow>
     ba_trees w' slab = ba_trees w slab \<and> ba_nonces w' (pda [slab]) = ba_nonces w (pda [slab]) \<and>
     (\<forall>n. ba_vouchers w' (voucher_key pda slab n) = ba_vouchers w (voucher_key pda slab n))"

lemma bg_exec_frame:
  assumes pda: "pda_ok pda" and other: "slab \<noteq> t" and ok: "bg_exec H pda ser t instr w = Inr (evs, w')"
  shows "same_tree pda slab w w'"
proof (cases instr)
  case (MintV1 auth ow de msg)
  then obtain count ev x where "append_leaf H pda t auth x
      (w\<lparr>ba_nonces := (ba_nonces w)(pda [t] \<mapsto> saturating_add count 1)\<rparr>) = Inr (ev, w')"
    using ok by (auto simp: mint_v1_def Let_def result_simps)
  from append_leaf_frame [OF this] show ?thesis
    using other by (simp add: same_tree_def pda_okD(2) [OF pda])
next
  case (Transfer ow os de ds nw pv root dh ch n i)
  then obtain prev new ev where "replace_leaf_cpi H pda t pv root prev new i w = Inr (ev, w')"
    using ok by (auto simp: transfer_def Let_def result_simps)
  from replace_cpi_frame [OF this] show ?thesis
    using other by (simp add: same_tree_def)
next
  case (Delegate ow pd nd pv root dh ch n i)
  then obtain prev new ev where "replace_leaf_cpi H pda t pv root prev new i w = Inr (ev, w')"
    using ok by (auto simp: delegate_leaf_def Let_def result_simps)
  from replace_cpi_frame [OF this] show ?thesis
    using other by (simp add: same_tree_def)
next
  case (Burn ow os de ds pv root dh ch n i)
  then obtain prev new ev where "replace_leaf_cpi H pda t pv root prev new i w = Inr (ev, w')"
    using ok by (auto simp: burn_def Let_def result_simps)
  from replace_cpi_frame [OF this] show ?thesis
    using other by (simp add: same_tree_def)
next
  case (Redeem ow de pv root dh ch n i)
  then obtain prev new ev w1 v where r: "replace_leaf_cpi H pda t pv root prev new i w = Inr (ev, w1)"
    "w' = w1\<lparr>ba_vouchers := (ba_vouchers w1)(voucher_key pda t n \<mapsto> v)\<rparr>"
    using ok by (auto simp: redeem_def Let_def result_simps)
  from replace_cpi_frame [OF r(1)] show ?thesis
    using other by (simp add: same_tree_def r(2) pda_okD(1) [OF pda])
next
  case (CancelRedeem vk ow pv root)
  then obtain new i ev w1 n where r: "replace_leaf_cpi H pda t pv root EMPTY new i w = Inr (ev, w1)"
    "w' = w1\<lparr>ba_vouchers := (ba_vouchers w1)(vk := None)\<rparr>" "vk = voucher_key pda t n"
    using ok by (auto simp: cancel_redeem_def Let_def result_simps)
  from replace_cpi_frame [OF r(1)] show ?thesis
    using other by (simp add: same_tree_def r(2,3) pda_okD(1) [OF pda])
qed

lemma decompress_frame:
  assumes "decompress_v1 H pda ser invoke data_is_empty rent vk ow ta mint ma mi me md (w, x) =
      Inr (evs, w', x')"
  shows "w' = w\<lparr>ba_vouchers := (ba_vouchers w)(vk := None)\<rparr>"
  using assms by (auto simp: decompress_v1_def Let_def result_simps)

section \<open>Reachable states\<close>

inductive bg_reach ::
  "hashv \<Rightarrow> pda \<Rightarrow> (metadata_args \<Rightarrow> bytes) \<Rightarrow> (token_cpi \<Rightarrow> 'x \<Rightarrow> 'x option) \<Rightarrow>
   (pubkey \<Rightarrow> 'x \<Rightarrow> bool) \<Rightarrow> u64 \<Rightarrow> bubblegum_accounts \<Rightarrow> (pubkey \<Rightarrow> assets) \<Rightarrow> bool"
  for H pda ser invoke data_is_empty rent where
  genesis: "\<forall>t data. ba_trees w t = Some data \<longrightarrow> (\<exists>len<2 ^ 32. data = Zeroed len) \<Longrightarrow>
    ba_nonces w = Map.empty \<Longrightarrow> ba_vouchers w = Map.empty \<Longrightarrow>
    bg_reach H pda ser invoke data_is_empty rent w (\<lambda>_ _. None)"
| create: "bg_reach H pda ser invoke data_is_empty rent w AA \<Longrightarrow>
    create_tree H pda clock_slot slab tree_creator max_depth max_buffer_size w = Inr (evs, w') \<Longrightarrow>
    bg_reach H pda ser invoke data_is_empty rent w' AA"
| step: "bg_reach H pda ser invoke data_is_empty rent w AA \<Longrightarrow>
    bg_exec H pda ser slab instr w = Inr (evs, w') \<Longrightarrow> live_tree slab w = Inr acc \<Longrightarrow>
    \<not> bg_collides H pda slab w acc (AA slab) instr \<Longrightarrow>
    bg_reach H pda ser invoke data_is_empty rent w' (AA(slab := indexed_assets evs (AA slab)))"
| decompress: "bg_reach H pda ser invoke data_is_empty rent w AA \<Longrightarrow>
    decompress_v1 H pda ser invoke data_is_empty rent vk ow ta mint ma mi me md (w, x) =
      Inr (evs, w', x') \<Longrightarrow>
    bg_reach H pda ser invoke data_is_empty rent w' AA"

definition tree_ok :: "hashv \<Rightarrow> pda \<Rightarrow> bubblegum_accounts \<Rightarrow> (pubkey \<Rightarrow> assets) \<Rightarrow> pubkey \<Rightarrow> bool" where
  "tree_ok H pda w AA slab \<longleftrightarrow>
     (if ba_nonces w (pda [slab]) = None
      then AA slab = (\<lambda>_. None) \<and> (\<forall>n. ba_vouchers w (voucher_key pda slab n) = None) \<and>
        (\<forall>data. ba_trees w slab = Some data \<longrightarrow> (\<exists>len<2 ^ 32. data = Zeroed len))
      else \<exists>acc hist. bg_rep H pda slab w acc hist (AA slab))"

lemma tree_ok_rep: "bg_rep H pda slab w acc hist (AA slab) \<Longrightarrow> tree_ok H pda w AA slab"
  unfolding tree_ok_def by (auto simp: bg_rep_def tree_rep_def)

lemma tree_okE:
  assumes "tree_ok H pda w AA slab"
  obtains "ba_nonces w (pda [slab]) = None" "AA slab = (\<lambda>_. None)"
      "\<And>n. ba_vouchers w (voucher_key pda slab n) = None"
      "\<And>data. ba_trees w slab = Some data \<Longrightarrow> \<exists>len<2 ^ 32. data = Zeroed len"
  | acc hist where "ba_nonces w (pda [slab]) \<noteq> None" "bg_rep H pda slab w acc hist (AA slab)"
  using assms unfolding tree_ok_def by (meson option.exhaust)

lemma bg_rep_frame:
  assumes "same_tree pda slab w w'" and "bg_rep H pda slab w acc hist A"
  shows "bg_rep H pda slab w' acc hist A"
  using assms unfolding bg_rep_def tree_rep_def voucher_rep_def same_tree_def by simp

lemma tree_ok_frame:
  assumes same: "same_tree pda slab w w'" and ok: "tree_ok H pda w AA slab" and AA: "AA' slab = AA slab"
  shows "tree_ok H pda w' AA' slab"
  using ok
proof (cases rule: tree_okE)
  case 1
  then show ?thesis
    using same unfolding tree_ok_def same_tree_def AA by simp
next
  case (2 acc hist)
  show ?thesis
    by (rule tree_ok_rep [OF bg_rep_frame [OF same]]) (use 2(2) AA in simp)
qed

lemma create_tree_rep:
  assumes ok: "create_tree H pda clock_slot slab tree_creator max_depth max_buffer_size w = Inr (evs, w')"
    and H: "hash_ok H" and w: "tree_ok H pda w AA slab"
  shows "\<exists>acc. bg_rep H pda slab w' acc [no_leaves] (\<lambda>_. None) \<and> AA slab = (\<lambda>_. None) \<and>
    hd_append_authority (gr_header acc) = tree_creator"
proof -
  obtain data ev acc where none: "ba_nonces w (pda [slab]) = None" and data: "ba_trees w slab = Some data"
    and init: "init_empty_gummyroll H slab (pda [slab]) tree_creator clock_slot max_depth max_buffer_size
        data = Inr (ev, acc)"
    and w': "w' = w\<lparr>ba_trees := (ba_trees w)(slab \<mapsto> Live acc),
        ba_nonces := (ba_nonces w)(pda [slab] \<mapsto> 0)\<rparr>"
    using ok by (auto simp: create_tree_def result_simps)
  obtain len where len: "data = Zeroed len" "len < 2 ^ 32"
    and AA: "AA slab = (\<lambda>_. None)" and vou: "\<And>n. ba_vouchers w (voucher_key pda slab n) = None"
    using w none data by (auto simp: tree_ok_def)
  have nz: "hash_nonzero H"
    using H by (simp add: hash_ok_def)
  note inv = init_empty_gummyroll_inv [OF init [unfolded len(1)] len(2) nz]
  have "tree_rep H pda slab w' acc [no_leaves] (\<lambda>_. None)"
    using inv by (simp add: tree_rep_def w')
  moreover have "voucher_rep pda slab w' (\<lambda>_. None) (next_leaf (gr_roll acc))"
    by (rule voucher_repI) (simp add: w' vou)
  ultimately show ?thesis
    using AA inv(4) by (auto simp: bg_rep_def)
qed

lemma create_tree_frame:
  assumes pda: "pda_ok pda" and other: "slab \<noteq> t"
    and ok: "create_tree H pda clock_slot t tree_creator max_depth max_buffer_size w = Inr (evs, w')"
  shows "same_tree pda slab w w'"
  using ok other by (auto simp: create_tree_def result_simps same_tree_def pda_okD(2) [OF pda])

lemma close_voucher_ok:
  assumes w': "w' = w\<lparr>ba_vouchers := (ba_vouchers w)(vk := None)\<rparr>" and ok: "tree_ok H pda w AA slab"
  shows "tree_ok H pda w' AA slab"
  using ok
proof (cases rule: tree_okE)
  case 1
  then show ?thesis
    by (simp add: tree_ok_def w')
next
  case (2 acc hist)
  note rep = 2(2)
  have "voucher_rep pda slab w' (AA slab) (next_leaf (gr_roll acc))"
  proof (rule voucher_repI)
    fix n v
    assume "ba_vouchers w' (voucher_key pda slab n) = Some v"
    then have "ba_vouchers w (voucher_key pda slab n) = Some v"
      by (simp add: w' split: if_splits)
    then show "vo_merkle_slab v = slab \<and> ls_nonce (vo_leaf_schema v) = n \<and>
        ls_id (vo_leaf_schema v) = get_asset_id pda slab n \<and> unat (vo_index v) = unat n \<and>
        unat n < next_leaf (gr_roll acc) \<and> AA slab (unat n) = None"
      by (rule voucher_repD [rotated]) (use rep bg_rep_def in blast)
  qed
  moreover have "tree_rep H pda slab w' acc hist (AA slab)"
    using rep by (simp add: bg_rep_def tree_rep_def w')
  ultimately show ?thesis
    by (intro tree_ok_rep [of H pda slab w' acc hist]) (simp add: bg_rep_def)
qed

lemma bg_exec_nonce:
  assumes "bg_exec H pda ser slab instr w = Inr r"
  shows "ba_nonces w (pda [slab]) \<noteq> None"
  using assms
  by (cases instr) (auto simp: mint_v1_def transfer_def delegate_leaf_def burn_def redeem_def
      cancel_redeem_def authority_nonce_def result_simps)

lemma bg_rep_nonce: "bg_rep H pda slab w acc hist A \<Longrightarrow> ba_nonces w (pda [slab]) \<noteq> None"
  by (auto simp: bg_rep_def tree_rep_def)

lemma bg_rep_live: "bg_rep H pda slab w acc hist A \<Longrightarrow> live_tree slab w = Inr acc"
  by (auto simp: bg_rep_def tree_rep_def live_tree_def)

lemma bg_reach_ok:
  assumes "bg_reach H pda ser invoke data_is_empty rent w AA" and "hash_ok H" and "pda_ok pda"
  shows "tree_ok H pda w AA slab"
  using assms
proof (induction arbitrary: slab rule: bg_reach.induct)
  case (genesis w)
  then show ?case
    by (simp add: tree_ok_def)
next
  case (create w AA clock_slot t tree_creator max_depth max_buffer_size evs w' slab)
  have ok: "tree_ok H pda w AA s" for s
    using create.IH create.prems by blast
  show ?case
  proof (cases "slab = t")
    case True
    obtain acc where "bg_rep H pda t w' acc [no_leaves] (\<lambda>_. None)" "AA t = (\<lambda>_. None)"
      using create_tree_rep [OF create.hyps(2) create.prems(1) ok] by blast
    then show ?thesis
      using tree_ok_rep [of H pda t w' acc "[no_leaves]" AA] True by simp
  next
    case False
    show ?thesis
      by (rule tree_ok_frame [OF create_tree_frame [OF create.prems(2) False create.hyps(2)] ok])
        simp
  qed
next
  case (step w AA t instr evs w' acc slab)
  have ok: "tree_ok H pda w AA s" for s
    using step.IH step.prems by blast
  show ?case
  proof (cases "slab = t")
    case True
    obtain acc0 hist where rep: "bg_rep H pda t w acc0 hist (AA t)"
      using ok [of t] bg_exec_nonce [OF step.hyps(2)] by (cases rule: tree_okE) auto
    then have "acc0 = acc"
      using bg_rep_live step.hyps(3) by fastforce
    then obtain acc' hist' where "bg_rep H pda t w' acc' hist' (indexed_assets evs (AA t))"
      using bg_exec_simulates [OF rep step.prems step.hyps(2)] step.hyps(4)
      by (auto simp: bg_simulates_def)
    then show ?thesis
      unfolding True by (intro tree_ok_rep [of H pda t w' acc' hist']) simp
  next
    case False
    show ?thesis
      by (rule tree_ok_frame [OF bg_exec_frame [OF step.prems(2) False step.hyps(2)] ok])
        (use False in simp)
  qed
next
  case (decompress w AA vk ow ta mint ma mi me md x evs w' x')
  then show ?case
    using close_voucher_ok [OF decompress_frame [OF decompress.hyps(2)]] by blast
qed

lemma bg_reach_rep:
  assumes "bg_reach H pda ser invoke data_is_empty rent w AA" and "hash_ok H" and "pda_ok pda"
    and "live_tree slab w = Inr acc"
  shows "\<exists>hist. bg_rep H pda slab w acc hist (AA slab)"
proof -
  have ok: "tree_ok H pda w AA slab"
    by (rule bg_reach_ok [OF assms(1-3)])
  have "ba_trees w slab = Some (Live acc)"
    using assms(4) by (auto simp: live_tree_def split: option.splits account_data.splits)
  then obtain acc0 hist where rep: "bg_rep H pda slab w acc0 hist (AA slab)"
    using tree_okE [OF ok] by (metis account_data.distinct(1))
  then show ?thesis
    using bg_rep_live [OF rep] assms(4) by auto
qed

section \<open>Accepted replacements\<close>

text \<open>With the current root and the proof without the cached nodes, a replacement is accepted.\<close>

lemma replace_cpi_ok:
  assumes rep: "tree_rep H pda slab w acc hist A" and i: "unat i < next_leaf (gr_roll acc)"
    and new: "\<And>s. new = Some s \<Longrightarrow>
      unat (ls_nonce s) = unat i \<and> ls_id s = get_asset_id pda slab (ls_nonce s)"
  defines "pv \<equiv> take (gr_depth acc - cached_len acc) (proof_at H (gr_depth acc) (hist ! 0) (unat i))"
  shows "\<exists>ev w' acc' hist'. replace_leaf_cpi H pda slab pv (tree_root H (gr_depth acc) (hist ! 0))
      (leaf_of H (A (unat i))) (leaf_of H new) i w = Inr (ev, w') \<and>
    tree_rep H pda slab w' acc' hist' (A(unat i := new)) \<and>
    hist' ! 0 = (hist ! 0)(unat i := leaf_of H new) \<and> gr_header acc' = gr_header acc \<and>
    cached_len acc' = cached_len acc \<and> next_leaf (gr_roll acc') = next_leaf (gr_roll acc) \<and>
    ba_vouchers w' = ba_vouchers w \<and> ba_nonces w' = ba_nonces w"
proof -
  note repD = tree_repD [OF rep]
  note inv = gummyroll_invD(3) [OF repD(2)]
  let ?hist = "(hist ! 0)(unat i := leaf_of H new) # take (gr_buffer acc - 1) hist"
  have h: "next_leaf (gr_roll acc) \<le> 2 ^ gr_depth acc" "hist \<noteq> []"
    using roll_inv_history [OF inv] by auto
  obtain e acc' where ok: "replace_leaf H slab (pda [slab]) (tree_root H (gr_depth acc) (hist ! 0))
      ((hist ! 0) (unat i)) (leaf_of H new) i pv acc = Inr (e, acc')"
    and com: "committed H slab hist (unat i) (leaf_of H new) acc e acc'"
    using replace_leaf_complete [OF repD(2) _ _ repD(3) latest_0 [OF h(2)], of i slab "leaf_of H new"] i h(1)
    unfolding pv_def by auto
  have c: "gummyroll_inv H acc' ?hist" "gr_header acc' = gr_header acc"
    "cached_len acc' = cached_len acc" "next_leaf (gr_roll acc') = next_leaf (gr_roll acc)"
    using com i by (auto simp: committed_def)
  let ?w = "w\<lparr>ba_trees := (ba_trees w)(slab \<mapsto> Live acc')\<rparr>"
  have "tree_rep H pda slab ?w acc' ?hist (A(unat i := new))"
    using rep c new by (auto simp: tree_rep_def)
  moreover have "replace_leaf_cpi H pda slab pv (tree_root H (gr_depth acc) (hist ! 0))
      (leaf_of H (A (unat i))) (leaf_of H new) i w = Inr (ChangeLogEvent e, ?w)"
    using ok repD(1) by (simp add: replace_leaf_cpi_def live_tree_def repD(4))
  moreover have "?hist ! 0 = (hist ! 0)(unat i := leaf_of H new)"
    by simp
  ultimately show ?thesis
    using c(2-4) by (intro exI [of _ "ChangeLogEvent e"] exI [of _ ?w] exI [of _ acc'] exI [of _ ?hist]) simp
qed

text \<open>
  With the current root and the proof without the nodes the canopy holds, the owner of an asset can
  delegate it, and a transfer signed by owner or delegate succeeds.
\<close>

definition current_proof :: "hashv \<Rightarrow> gummyroll_account \<Rightarrow> leaves \<Rightarrow> nat \<Rightarrow> node list" where
  "current_proof H acc L i = take (gr_depth acc - cached_len acc) (proof_at H (gr_depth acc) L i)"

lemma reassign_ok:
  assumes rep: "tree_rep H pda slab w acc hist A" and i: "unat i < next_leaf (gr_roll acc)"
    and s: "A (unat i) = Some s"
    and s': "s' = LeafV1 (ls_id s) ow nd (ls_nonce s) (ls_data_hash s) (ls_creator_hash s)"
  obtains ev w' acc' hist' where
    "replace_leaf_cpi H pda slab (current_proof H acc (hist ! 0) (unat i)) (tree_root H (gr_depth acc) (hist ! 0))
      (leaf_to_node H s) (leaf_to_node H s') i w = Inr (ev, w')"
    "tree_rep H pda slab w' acc' hist' (A(unat i \<mapsto> s'))" "gr_header acc' = gr_header acc"
    "cached_len acc' = cached_len acc" "next_leaf (gr_roll acc') = next_leaf (gr_roll acc)"
    "hist' ! 0 = (hist ! 0)(unat i := leaf_to_node H s')" "ba_nonces w' = ba_nonces w"
proof -
  have new: "Some s' = Some t \<Longrightarrow> unat (ls_nonce t) = unat i \<and> ls_id t = get_asset_id pda slab (ls_nonce t)" for t
    using tree_repD(5,6) [OF rep s] s' by auto
  from replace_cpi_ok [OF rep i, of "Some s'"] new show thesis
    using that s by (auto simp: current_proof_def simp del: fun_upd_apply)
qed

lemma same_leaf:
  assumes "tree_rep H pda slab w acc hist A" and "A i = Some s"
  shows "leaf_new_v0 (get_asset_id pda slab (ls_nonce s)) (ls_owner s) (ls_delegate s) (ls_nonce s)
      (ls_data_hash s) (ls_creator_hash s) = s"
    and "leaf_new_v0 (get_asset_id pda slab (ls_nonce s)) ow nd (ls_nonce s) (ls_data_hash s) (ls_creator_hash s) =
      LeafV1 (ls_id s) ow nd (ls_nonce s) (ls_data_hash s) (ls_creator_hash s)"
  using tree_repD(6) [OF assms] by (cases s; simp add: leaf_new_v0_def)+

text \<open>Claims of stored leaves with the current root and proof meet no collision.\<close>

lemma current_not_collides:
  assumes tree: "tree_rep H pda slab w acc hist A" and i: "unat i < 2 ^ gr_depth acc"
  shows "\<not> gr_collides H acc (hist ! 0) (tree_root H (gr_depth acc) (hist ! 0)) ((hist ! 0) (unat i))
    (current_proof H acc (hist ! 0) (unat i)) i"
proof -
  note inv = gummyroll_invD [OF tree_repD(2) [OF tree]]
  let ?d = "gr_depth acc" and ?L = "hist ! 0"
  have comp: "completed H acc i (current_proof H acc ?L (unat i)) = proof_at H ?d ?L (unat i)"
    using completed_eq [OF tree_repD(2) [OF tree] i] by (simp add: current_proof_def)
  have h: "hist \<noteq> []"
    using roll_inv_history [OF inv(3)] by simp
  have "right_for H ?d (unat i) hist (replay_depth H ?d hist (tree_root H ?d ?L)) (proof_at H ?d ?L (unat i)) (?L (unat i))"
    using right_for_history(1) [of 0 hist H ?d "unat i"] h by simp
  then have "check_valid_leaf H ?d (gr_buffer acc) (gr_roll acc) (tree_root H ?d ?L) (?L (unat i))
      (proof_at H ?d ?L (unat i)) i True = Inr (True, proof_at H ?d ?L (unat i))"
    using check_valid_leaf_right [OF inv(3) i, of "tree_root H ?d ?L" _ _ True] h by simp
  then show ?thesis
    using not_collides_self [OF i, of H ?L] by (simp add: gr_collides_def comp replay_collides_def)
qed

lemma transfer_not_collides:
  assumes tree: "tree_rep H pda slab w acc hist A" and s: "A (unat i) = Some s" and i: "unat i < next_leaf (gr_roll acc)"
  shows "\<not> bg_collides H pda slab w acc A (Transfer (ls_owner s) os (ls_delegate s) ds nw
    (current_proof H acc (hist ! 0) (unat i)) (tree_root H (gr_depth acc) (hist ! 0)) (ls_data_hash s)
    (ls_creator_hash s) (ls_nonce s) i)"
proof -
  have "unat i < 2 ^ gr_depth acc"
    using roll_inv_history [OF gummyroll_invD(3) [OF tree_repD(2) [OF tree]]] i by simp
  from current_not_collides [OF tree this] show ?thesis
    using s leaves_of_assets [OF tree] same_leaf(1) [OF tree s] tree_repD(4) [OF tree, of "unat i"]
    by (simp add: bg_collides_def leaf_collides_def)
qed

lemma mint_v1_ok:
  assumes rep: "tree_rep H pda slab w acc hist A" and H: "hash_ok H"
    and auth: "hd_append_authority (gr_header acc) = mint_authority"
    and room: "next_leaf (gr_roll acc) < 2 ^ gr_depth acc"
  shows "\<exists>evs w'. mint_v1 H pda ser slab mint_authority ow de msg w = Inr (evs, w')"
proof -
  note repD = tree_repD [OF rep]
  obtain count where count: "ba_nonces w (pda [slab]) = Some count"
    using rep by (auto simp: tree_rep_def)
  let ?s = "leaf_new_v0 (get_asset_id pda slab count) ow de count (H [ser msg])
      (hash_creators H (ma_creators msg))"
  have "leaf_to_node H ?s \<noteq> EMPTY"
    using H by (simp add: hash_ok_def)
  then obtain e acc' where "gummyroll_append H slab (pda [slab]) mint_authority (leaf_to_node H ?s) acc =
      Inr (e, acc')"
    using gummyroll_append_ok [OF repD(2,3) auth _ room] by blast
  then show ?thesis
    using repD(1) count
    by (simp add: mint_v1_def authority_nonce_def Let_def append_leaf_def live_tree_def)
qed

end
