(* ===== verification/Gumball_Run.thy ===== *)
theory Gumball_Run
  imports Gumball_Pool Bubblegum_Reach
begin

text \<open>
  The instructions of the gumball machine on its pool of items: what a successful sale does, when it
  succeeds, what the other instructions leave alone, and the machine as an \<open>item_pool\<close>.
\<close>

section \<open>Minting through Bubblegum\<close>

text \<open>The metadata of the NFTs announced by a list of events.\<close>

fun new_nfts :: "bubblegum_event list \<Rightarrow> metadata_args list" where
  "new_nfts (NewNFTEvent e # evs) = nn_metadata e # new_nfts evs"
| "new_nfts (_ # evs) = new_nfts evs"
| "new_nfts [] = []"

lemma mint_v1_events:
  assumes "mint_v1 H pda ser slab auth ow de msg w = Inr (evs, w')"
  obtains n le ev where "evs = [NewNFTEvent \<lparr>nn_version = V1, nn_metadata = msg, nn_nonce = n\<rparr>,
    LeafSchemaEvent le, ChangeLogEvent ev]"
  using assms that
  by (auto simp: mint_v1_def Let_def result_simps append_leaf_def)

lemma new_nfts_mint:
  assumes "mint_v1 H pda ser slab auth ow de msg w = Inr (evs, w')"
  shows "new_nfts (evs @ es) = msg # new_nfts es"
    and "indexed_assets (evs @ es) A = indexed_assets es (indexed_assets evs A)"
  by (rule mint_v1_events [OF assms]; simp)+

lemma mint_all_new_nfts:
  assumes "mint_all E slab auth payer msgs w = Inr (evs, w')"
  shows "new_nfts evs = msgs"
  using assms
proof (induction msgs arbitrary: w evs)
  case (Cons m ms)
  then show ?case
    by (auto simp: result_simps new_nfts_mint(1))
qed simp

text \<open>The leaves that a batch adds: owned by and delegated to the payer, with the item's hash.\<close>

definition minted_leaf :: "gumball_env \<Rightarrow> pubkey \<Rightarrow> metadata_args \<Rightarrow> leaf_schema \<Rightarrow> bool" where
  "minted_leaf E payer msg s \<longleftrightarrow>
     ls_owner s = payer \<and> ls_delegate s = payer \<and> ls_data_hash s = ge_hashv E [ge_ser E msg] \<and>
     ls_creator_hash s = hash_creators (ge_hashv E) (ma_creators msg)"

lemma mint_v1_rep:
  assumes "bg_rep H pda slab w acc hist A"
    and "mint_v1 H pda ser slab auth ow de msg w = Inr (evs, w')"
  obtains acc' hist' s where "bg_rep H pda slab w' acc' hist' (A(next_leaf (gr_roll acc) \<mapsto> s))"
    "indexed_assets evs A = A(next_leaf (gr_roll acc) \<mapsto> s)" "gr_header acc' = gr_header acc"
    "next_leaf (gr_roll acc') = Suc (next_leaf (gr_roll acc))" "ls_owner s = ow" "ls_delegate s = de"
    "ls_data_hash s = H [ser msg]" "ls_creator_hash s = hash_creators H (ma_creators msg)"
    "hd_append_authority (gr_header acc) = auth" "next_leaf (gr_roll acc) < 2 ^ gr_depth acc"
  using mint_simulates [OF assms] that
  by (fastforce simp: bg_simulates_def bg_abs_def elim!: bg_spec_MintE)

lemma mint_all_rep:
  assumes "bg_rep (ge_hashv E) (ge_bubblegum_pda E) slab w acc hist A"
    and "mint_all E slab auth payer msgs w = Inr (evs, w')"
  shows "\<exists>acc' hist'. bg_rep (ge_hashv E) (ge_bubblegum_pda E) slab w' acc' hist' (indexed_assets evs A) \<and>
    next_leaf (gr_roll acc') = next_leaf (gr_roll acc) + length msgs \<and>
    (\<forall>i. i < next_leaf (gr_roll acc) \<longrightarrow> indexed_assets evs A i = A i) \<and>
    (\<forall>k<length msgs. \<exists>s. indexed_assets evs A (next_leaf (gr_roll acc) + k) = Some s \<and>
      minted_leaf E payer (msgs ! k) s)"
  using assms
proof (induction msgs arbitrary: w acc hist A evs)
  case Nil
  then show ?case by auto
next
  case (Cons m ms)
  obtain evs1 w1 evs2 where m: "mint_v1 (ge_hashv E) (ge_bubblegum_pda E) (ge_ser E) slab auth payer payer m w =
      Inr (evs1, w1)"
    and ms: "mint_all E slab auth payer ms w1 = Inr (evs2, w')" and evs: "evs = evs1 @ evs2"
    using Cons.prems(2) by (auto simp: result_simps)
  obtain acc1 hist1 s where r: "bg_rep (ge_hashv E) (ge_bubblegum_pda E) slab w1 acc1 hist1
      (A(next_leaf (gr_roll acc) \<mapsto> s))"
    "indexed_assets evs1 A = A(next_leaf (gr_roll acc) \<mapsto> s)"
    "next_leaf (gr_roll acc1) = Suc (next_leaf (gr_roll acc))" "minted_leaf E payer m s"
    using mint_v1_rep [OF Cons.prems(1) m] unfolding minted_leaf_def by metis
  have A: "indexed_assets evs A = indexed_assets evs2 (A(next_leaf (gr_roll acc) \<mapsto> s))"
    using new_nfts_mint(2) [OF m] r(2) by (simp add: evs)
  note IH = Cons.IH [OF r(1) ms, folded A, unfolded r(3)]
  have first: "indexed_assets evs A (next_leaf (gr_roll acc)) = Some s"
    using IH by auto
  have "\<exists>s. indexed_assets evs A (next_leaf (gr_roll acc) + k) = Some s \<and> minted_leaf E payer ((m # ms) ! k) s"
    if "k < length (m # ms)" for k
  proof (cases k)
    case 0
    then show ?thesis using first r(4) by simp
  next
    case (Suc j)
    then show ?thesis using IH that by auto
  qed
  then show ?case
    using IH by auto
qed

lemma mint_all_ok:
  assumes "bg_rep (ge_hashv E) (ge_bubblegum_pda E) slab w acc hist A" and "hash_ok (ge_hashv E)"
    and "hd_append_authority (gr_header acc) = auth"
    and "next_leaf (gr_roll acc) + length msgs \<le> 2 ^ gr_depth acc"
  shows "\<exists>evs w'. mint_all E slab auth payer msgs w = Inr (evs, w')"
  using assms
proof (induction msgs arbitrary: w acc hist A)
  case (Cons m ms)
  have tree: "tree_rep (ge_hashv E) (ge_bubblegum_pda E) slab w acc hist A"
    using Cons.prems(1) by (simp add: bg_rep_def)
  obtain evs1 w1 where m: "mint_v1 (ge_hashv E) (ge_bubblegum_pda E) (ge_ser E) slab auth payer payer m w =
      Inr (evs1, w1)"
    using mint_v1_ok [OF tree assms(2) Cons.prems(3)] Cons.prems(4) by fastforce
  obtain acc1 hist1 s where r: "bg_rep (ge_hashv E) (ge_bubblegum_pda E) slab w1 acc1 hist1
      (A(next_leaf (gr_roll acc) \<mapsto> s))" "gr_header acc1 = gr_header acc"
    "next_leaf (gr_roll acc1) = Suc (next_leaf (gr_roll acc))"
    using mint_v1_rep [OF Cons.prems(1) m] by metis
  have "\<exists>evs w'. mint_all E slab auth payer ms w1 = Inr (evs, w')"
    by (rule Cons.IH [OF r(1) assms(2)]) (use Cons.prems(3,4) r(2,3) in \<open>auto simp: gr_depth_def\<close>)
  then show ?case
    using m by auto
qed simp

text \<open>A batch of mints is a sequence of instructions of Bubblegum.\<close>

lemma mint_all_reach:
  assumes "bg_reach (ge_hashv E) (ge_bubblegum_pda E) (ge_ser E) invoke data_is_empty rent w AA"
    and "bg_rep (ge_hashv E) (ge_bubblegum_pda E) slab w acc hist (AA slab)"
    and "mint_all E slab auth payer msgs w = Inr (evs, w')"
  shows "bg_reach (ge_hashv E) (ge_bubblegum_pda E) (ge_ser E) invoke data_is_empty rent w'
    (AA(slab := indexed_assets evs (AA slab)))"
  using assms
proof (induction msgs arbitrary: w acc hist AA evs)
  case (Cons m ms)
  obtain evs1 w1 evs2 where m: "mint_v1 (ge_hashv E) (ge_bubblegum_pda E) (ge_ser E) slab auth payer payer m w =
      Inr (evs1, w1)"
    and ms: "mint_all E slab auth payer ms w1 = Inr (evs2, w')" and evs: "evs = evs1 @ evs2"
    using Cons.prems(3) by (auto simp: result_simps)
  let ?AA = "AA(slab := indexed_assets evs1 (AA slab))"
  have "bg_exec (ge_hashv E) (ge_bubblegum_pda E) (ge_ser E) slab (MintV1 auth payer payer m) w =
      Inr (evs1, w1)"
    using m by simp
  then have r: "bg_reach (ge_hashv E) (ge_bubblegum_pda E) (ge_ser E) invoke data_is_empty rent w1 ?AA"
    by (rule bg_reach.step [OF Cons.prems(1) _ bg_rep_live [OF Cons.prems(2)]]) (simp add: bg_collides_def)
  obtain acc1 hist1 where "bg_rep (ge_hashv E) (ge_bubblegum_pda E) slab w1 acc1 hist1 (?AA slab)"
    using mint_v1_rep [OF Cons.prems(2) m] by (metis fun_upd_same)
  from Cons.IH [OF r this ms] show ?case
    using new_nfts_mint(2) [OF m, of evs2 "AA slab"] by (simp add: evs fun_upd_same del: fun_upd_apply)
qed simp

section \<open>A successful sale\<close>

definition dispensed :: "gumball_account \<Rightarrow> gumball_account \<Rightarrow> u32 list" where
  "dispensed gm gm' = batch (remaining_of gm) (remaining_of gm - remaining_of gm') (indices_of gm')"

abbreviation line_size_of :: "gumball_account \<Rightarrow> nat" where
  "line_size_of gm \<equiv> unat (gh_extension_len (gm_header gm))"

abbreviation max_items_of :: "gumball_account \<Rightarrow> nat" where
  "max_items_of gm \<equiv> unat (gh_max_items (gm_header gm))"

text \<open>The conditions of a sale of \<open>num_items\<close> other than that the items can be minted.\<close>

definition sale_open :: "gumball_env \<Rightarrow> bytes \<Rightarrow> u64 \<Rightarrow> u32 \<Rightarrow> gumball_account \<Rightarrow> bool" where
  "sale_open E instruction_sysvar unix_timestamp num_items gm \<longleftrightarrow>
     assert_valid_single_instruction_transaction E instruction_sysvar = Inr () \<and>
     gh_max_items (gm_header gm) = gh_smallest_uninitialized_index (gm_header gm) \<and>
     num_items \<le> gh_max_mint_size (gm_header gm) \<and>
     sint (gh_go_live_date (gm_header gm)) < sint unix_timestamp \<and>
     length (gm_config_data gm) = 4 * max_items_of gm + line_size_of gm * max_items_of gm \<and>
     4 * max_items_of gm + line_size_of gm * max_items_of gm < 2 ^ 64 \<and>
     gh_remaining (gm_header gm) \<noteq> 0"

definition sale_size :: "u32 \<Rightarrow> gumball_account \<Rightarrow> u32" where
  "sale_size num_items gm = min (max num_items 1) (gh_remaining (gm_header gm))"

lemma sale_size_pos: "0 < sale_size k gm \<longleftrightarrow> gh_remaining (gm_header gm) \<noteq> 0"
  by (auto simp: sale_size_def word_gt_0 min_def max_def)

lemma sale_size_le: "unat (sale_size k gm) \<le> remaining_of gm"
  by (auto simp: sale_size_def remaining_of_def min_def word_le_nat_alt)

lemma find_and_mint_eq:
  "find_and_mint_compressed_nfts E machine payer rb ins t slab k (gm, w) = Inr (evs, n, gm', w') \<longleftrightarrow>
   sale_open E ins t k gm \<and> n = sale_size k gm \<and>
   (\<exists>h' idx'. mint_loop (unat n) E machine payer rb slab (line_size_of gm) (lines_of gm) (gm_header gm)
      (indices_of gm) w = Inr (evs, h', idx', w') \<and>
      gm' = \<lparr>gm_header = h', gm_config_data = uncast_u32 idx' @ lines_of gm\<rparr>)"
proof -
  have pos: "(0 < min (max k 1) (gh_remaining (gm_header gm))) \<longleftrightarrow> gh_remaining (gm_header gm) \<noteq> 0"
    using sale_size_pos [of k gm] by (simp add: sale_size_def)
  show ?thesis
    unfolding find_and_mint_compressed_nfts_def sale_open_def sale_size_def indices_of_def lines_of_def
    by (auto simp: Let_def result_simps pos simp del: min_less_iff_conj)
qed

lemma find_and_mint_inv:
  assumes "find_and_mint_compressed_nfts E machine payer rb ins t slab k (gm, w) = Inr (evs, n, gm', w')"
  shows "sale_open E ins t k gm" and "n = sale_size k gm"
    and "gm_header gm' = (gm_header gm)\<lparr>gh_remaining := gh_remaining (gm_header gm) - n\<rparr>"
    and "lines_of gm' = lines_of gm" and "remaining_of gm' = remaining_of gm - unat n"
    and "pool_of gm = pool_of gm' + mset (dispensed gm gm')"
    and "length (dispensed gm gm') = unat n"
    and "map (item_metadata E (gm_header gm) (line_size_of gm) (lines_of gm) \<circ> unat) (dispensed gm gm') =
      map Inr (new_nfts evs)"
    and "mint_all E slab (willy_wonka E machine) payer (new_nfts evs) w = Inr (evs, w')"
    and "length (gm_config_data gm') = length (gm_config_data gm)"
proof -
  obtain h' idx' where op: "sale_open E ins t k gm" and n: "n = sale_size k gm"
    and l: "mint_loop (unat n) E machine payer rb slab (line_size_of gm) (lines_of gm) (gm_header gm)
      (indices_of gm) w = Inr (evs, h', idx', w')"
    and gm': "gm' = \<lparr>gm_header = h', gm_config_data = uncast_u32 idx' @ lines_of gm\<rparr>"
    using assms unfolding find_and_mint_eq by blast
  show "sale_open E ins t k gm" "n = sale_size k gm" by fact+
  note li = mint_loop_inv [OF l, folded remaining_of_def]
  have len: "length (indices_of gm) = max_items_of gm"
    using op by (simp add: sale_open_def indices_of_def length_cast_u32)
  have h': "h' = (gm_header gm)\<lparr>gh_remaining := gh_remaining (gm_header gm) - n\<rparr>"
    using li by simp
  then show "gm_header gm' = (gm_header gm)\<lparr>gh_remaining := gh_remaining (gm_header gm) - n\<rparr>"
    by (simp add: gm')
  have idx': "length idx' = unat (gh_max_items h')"
    using li len h' by simp
  note data = machine_data [OF idx', of "lines_of gm", folded gm']
  show "lines_of gm' = lines_of gm" by (rule data(2))
  have nle: "unat n \<le> unat (gh_remaining (gm_header gm))"
    using li by (simp add: remaining_of_def)
  then show rem: "remaining_of gm' = remaining_of gm - unat n"
    by (simp add: gm' h' remaining_of_def unat_sub word_le_nat_alt)
  have disp: "dispensed gm gm' = batch (remaining_of gm) (unat n) idx'"
    using nle rem by (simp add: dispensed_def data(1) remaining_of_def)
  show "pool_of gm = pool_of gm' + mset (dispensed gm gm')"
    using li unfolding pool_of_def rem data(1) disp by blast
  have n0: "unat n \<noteq> 0"
    using op n sale_size_pos [of k gm] by (simp add: sale_open_def word_gt_0 unat_eq_0)
  show "length (dispensed gm gm') = unat n"
    using conjunct1 [OF conjunct2 [OF li]] conjunct1 [OF conjunct2 [OF conjunct2 [OF conjunct2 [OF li]]]]
      n0 nle by (simp add: disp batch_def remaining_of_def)
  obtain msgs where msgs: "map (item_metadata E (gm_header gm) (line_size_of gm) (lines_of gm) \<circ> unat)
      (dispensed gm gm') = map Inr msgs"
    "mint_all E slab (willy_wonka E machine) payer msgs w = Inr (evs, w')"
    using li unfolding disp by blast
  show "map (item_metadata E (gm_header gm) (line_size_of gm) (lines_of gm) \<circ> unat) (dispensed gm gm') =
      map Inr (new_nfts evs)"
    "mint_all E slab (willy_wonka E machine) payer (new_nfts evs) w = Inr (evs, w')"
    using msgs mint_all_new_nfts [OF msgs(2)] by simp_all
  show "length (gm_config_data gm') = length (gm_config_data gm)"
    using op idx' h' by (simp add: gm' lines_of_def sale_open_def)
qed

section \<open>When a sale succeeds\<close>

text \<open>Every item in the pool has a config line and its metadata can be built.\<close>

definition items_ok :: "gumball_env \<Rightarrow> gumball_machine_header \<Rightarrow> nat \<Rightarrow> bytes \<Rightarrow> u32 list \<Rightarrow> bool" where
  "items_ok E h line_size lines idx \<longleftrightarrow>
     (\<forall>i\<in>set (take (unat (gh_remaining h)) idx).
        unat i < length idx \<and> (\<exists>msg. item_metadata E h line_size lines (unat i) = Inr msg))"

lemma items_okD:
  assumes "items_ok E h line_size lines idx" and "i \<in># mset (take (unat (gh_remaining h)) idx)"
  obtains msg where "unat i < length idx" "item_metadata E h line_size lines (unat i) = Inr msg"
  using assms by (auto simp: items_ok_def)

lemma fisher_yates_ok:
  assumes "items_ok E h line_size lines idx" and "gh_remaining h \<noteq> 0"
    and "unat (gh_remaining h) \<le> length idx" and "length lines = line_size * length idx"
    and "line_size * length idx < 2 ^ 64"
  shows "\<exists>msg h' idx'. fisher_yates_shuffle_and_fetch_nft_metadata E rb h idx line_size lines =
      Inr (msg, h', idx') \<and> items_ok E h' line_size lines idx' \<and> length idx' = length idx \<and>
      unat (gh_remaining h') = unat (gh_remaining h) - 1"
proof -
  define r where "r = unat (gh_remaining h)"
  define idx' where "idx' = swapped idx (chosen E rb (gh_remaining h)) (r - 1)"
  have ch: "chosen E rb (gh_remaining h) < r" and rl: "r \<le> length idx"
    using chosen_less [OF assms(2)] assms(3) by (simp_all add: r_def)
  note sf = swapped_facts [OF ch rl, folded idx'_def]
  have "idx' ! (r - 1) \<in># mset (take r idx)"
    by (simp add: sf(1))
  then obtain msg where i: "unat (idx' ! (r - 1)) < length idx"
    "item_metadata E h line_size lines (unat (idx' ! (r - 1))) = Inr msg"
    using items_okD [OF assms(1)] by (metis r_def)
  let ?h' = "h\<lparr>gh_remaining := gh_remaining h - 1\<rparr>"
  have "fisher_yates_shuffle_and_fetch_nft_metadata E rb h idx line_size lines = Inr (msg, ?h', idx')"
    using fisher_yates_eq [OF assms(3) _ _ assms(4,5), of idx' E rb "unat (idx' ! (r - 1))"] i assms(2)
    by (simp add: idx'_def r_def)
  moreover have "set_mset (mset (take (r - 1) idx')) \<subseteq> set_mset (mset (take r idx))"
    by (simp only: sf(1)) auto
  then have "items_ok E ?h' line_size lines idx'"
    using assms(1,2) by (auto simp: items_ok_def unat_pred idx'_def r_def)
  ultimately show ?thesis
    using assms(2) by (auto simp: idx'_def unat_pred)
qed

lemma mint_loop_ok:
  assumes "items_ok E h line_size lines idx" and "n \<le> unat (gh_remaining h)"
    and "unat (gh_remaining h) \<le> length idx" and "length lines = line_size * length idx"
    and "line_size * length idx < 2 ^ 64"
    and "bg_rep (ge_hashv E) (ge_bubblegum_pda E) slab w acc hist A" and "hash_ok (ge_hashv E)"
    and "hd_append_authority (gr_header acc) = willy_wonka E machine"
    and "next_leaf (gr_roll acc) + n \<le> 2 ^ gr_depth acc"
  shows "\<exists>evs h' idx' w'. mint_loop n E machine payer rb slab line_size lines h idx w = Inr (evs, h', idx', w')"
  using assms
proof (induction n arbitrary: h idx w acc hist A)
  case (Suc n)
  have r: "gh_remaining h \<noteq> 0"
    using Suc.prems(2) by auto
  obtain msg h1 idx1 where
    f: "fisher_yates_shuffle_and_fetch_nft_metadata E rb h idx line_size lines = Inr (msg, h1, idx1)"
    and h1: "items_ok E h1 line_size lines idx1" "length idx1 = length idx"
      "unat (gh_remaining h1) = unat (gh_remaining h) - 1"
    using fisher_yates_ok [OF Suc.prems(1) r Suc.prems(3-5)] by blast
  have tree: "tree_rep (ge_hashv E) (ge_bubblegum_pda E) slab w acc hist A"
    using Suc.prems(6) by (simp add: bg_rep_def)
  obtain evs1 w1 where m: "mint_v1 (ge_hashv E) (ge_bubblegum_pda E) (ge_ser E) slab (willy_wonka E machine)
      payer payer msg w = Inr (evs1, w1)"
    using mint_v1_ok [OF tree assms(7) Suc.prems(8)] Suc.prems(9) by fastforce
  obtain acc1 hist1 s where a: "bg_rep (ge_hashv E) (ge_bubblegum_pda E) slab w1 acc1 hist1
      (A(next_leaf (gr_roll acc) \<mapsto> s))" "gr_header acc1 = gr_header acc"
    "next_leaf (gr_roll acc1) = Suc (next_leaf (gr_roll acc))"
    using mint_v1_rep [OF Suc.prems(6) m] by metis
  have "\<exists>evs h' idx' w'. mint_loop n E machine payer rb slab line_size lines h1 idx1 w1 = Inr (evs, h', idx', w')"
    by (rule Suc.IH [OF h1(1) _ _ _ _ a(1) assms(7)])
      (use Suc.prems h1(2,3) a(2,3) in \<open>auto simp: gr_depth_def\<close>)
  then show ?case
    using f m by auto
qed simp

lemma find_and_mint_ok:
  assumes "sale_open E ins t k gm" and "items_ok E (gm_header gm) (line_size_of gm) (lines_of gm) (indices_of gm)"
    and "remaining_of gm \<le> max_items_of gm"
    and "bg_rep (ge_hashv E) (ge_bubblegum_pda E) slab w acc hist A" and "hash_ok (ge_hashv E)"
    and "hd_append_authority (gr_header acc) = willy_wonka E machine"
    and "next_leaf (gr_roll acc) + unat (sale_size k gm) \<le> 2 ^ gr_depth acc"
  shows "\<exists>evs gm' w'. find_and_mint_compressed_nfts E machine payer rb ins t slab k (gm, w) =
    Inr (evs, sale_size k gm, gm', w')"
proof -
  have data: "length (gm_config_data gm) = 4 * max_items_of gm + line_size_of gm * max_items_of gm"
    "4 * max_items_of gm + line_size_of gm * max_items_of gm < 2 ^ 64"
    using assms(1) by (auto simp: sale_open_def)
  then have len: "length (indices_of gm) = max_items_of gm"
    "length (lines_of gm) = line_size_of gm * length (indices_of gm)"
    "line_size_of gm * length (indices_of gm) < 2 ^ 64"
    by (auto simp: indices_of_def lines_of_def length_cast_u32)
  have "\<exists>evs h' idx' w'. mint_loop (unat (sale_size k gm)) E machine payer rb slab (line_size_of gm) (lines_of gm)
      (gm_header gm) (indices_of gm) w = Inr (evs, h', idx', w')"
    by (rule mint_loop_ok [OF assms(2) _ _ len(2,3) assms(4-7)])
      (use sale_size_le [of k gm] assms(3) len(1) in \<open>auto simp: remaining_of_def\<close>)
  then show ?thesis
    unfolding find_and_mint_eq using assms(1) by blast
qed

section \<open>The machine as a pool of items\<close>

text \<open>
  One step of a machine that is open for sale: a purchase with either kind of payment, a change of
  config lines already added, a change of the header, or anything that happens to the accounts of
  the other programs in between.
\<close>

inductive sale_step ::
  "gumball_env \<Rightarrow> (pubkey \<Rightarrow> pubkey \<Rightarrow> u64 \<Rightarrow> 'x \<Rightarrow> 'x option) \<Rightarrow>
   (pubkey \<Rightarrow> pubkey \<Rightarrow> pubkey \<Rightarrow> u64 \<Rightarrow> 'x \<Rightarrow> 'x option) \<Rightarrow> pubkey \<Rightarrow>
   (gumball_account \<times> bubblegum_accounts) \<times> 'x \<Rightarrow> u32 list \<Rightarrow>
   (gumball_account \<times> bubblegum_accounts) \<times> 'x \<Rightarrow> bool"
  for E pay_sol pay_token machine where
  sol: "dispense_nft_sol E pay_sol machine payer receiver rb ins t slab k (gm, w) x =
      Inr (evs, (gm', w'), x') \<Longrightarrow>
    sale_step E pay_sol pay_token machine ((gm, w), x) (dispensed gm gm') ((gm', w'), x')"
| token: "dispense_nft_token E pay_token machine payer tokens mint receiver rb ins t slab k (gm, w) x =
      Inr (evs, (gm', w'), x') \<Longrightarrow>
    sale_step E pay_sol pay_token machine ((gm, w), x) (dispensed gm gm') ((gm', w'), x')"
| lines: "update_config_lines auth start new gm = Inr gm' \<Longrightarrow>
    sale_step E pay_sol pay_token machine ((gm, w), x) [] ((gm', w), x)"
| header: "update_header_metadata auth ub nb sy em sf im ra pr gl bw au mm gm = Inr gm' \<Longrightarrow>
    sale_step E pay_sol pay_token machine ((gm, w), x) [] ((gm', w), x)"
| others: "sale_step E pay_sol pay_token machine ((gm, w), x) [] ((gm, w'), x')"

lemma unat_ucast_u64: "unat (ucast (n :: u32) :: u64) = unat n"
proof -
  have "unat n < 2 ^ 64"
    using unat_bound [of n] by simp
  then show ?thesis
    by (simp add: unsigned_ucast_eq take_bit_nat_eq_self)
qed

lemma dispense_sol_inv:
  assumes "dispense_nft_sol E pay machine payer receiver rb ins t slab k gw x = Inr (evs, (gm', w'), x')"
  obtains n amount where
    "find_and_mint_compressed_nfts E machine payer rb ins t slab k gw = Inr (evs, n, gm', w')"
    "gh_receiver (gm_header gm') = receiver" "gh_mint (gm_header gm') = ge_native_mint E"
    "unat amount = unat (gh_price (gm_header gm')) * unat n" "pay payer receiver amount x = Some x'"
proof -
  obtain n amount where r:
    "find_and_mint_compressed_nfts E machine payer rb ins t slab k gw = Inr (evs, n, gm', w')"
    "gh_receiver (gm_header gm') = receiver" "gh_mint (gm_header gm') = ge_native_mint E"
    "checked_mul (gh_price (gm_header gm')) (ucast n) = Some amount" "pay payer receiver amount x = Some x'"
    using assms by (auto simp: dispense_nft_sol_def Let_def result_simps)
  have "unat amount = unat (gh_price (gm_header gm')) * unat n"
    using checked_mul_Some [OF r(4)] by (metis unat_ucast_u64)
  then show thesis
    by (rule that [OF r(1-3) _ r(5)])
qed

lemma dispense_token_inv:
  assumes "dispense_nft_token E pay machine payer tokens mint receiver rb ins t slab k gw x =
    Inr (evs, (gm', w'), x')"
  obtains n amount where
    "find_and_mint_compressed_nfts E machine payer rb ins t slab k gw = Inr (evs, n, gm', w')"
    "gh_receiver (gm_header gm') = receiver" "mint = gh_mint (gm_header gm')"
    "unat amount = unat (gh_price (gm_header gm')) * unat n" "pay tokens receiver payer amount x = Some x'"
proof -
  obtain n amount where r:
    "find_and_mint_compressed_nfts E machine payer rb ins t slab k gw = Inr (evs, n, gm', w')"
    "gh_receiver (gm_header gm') = receiver" "mint = gh_mint (gm_header gm')"
    "checked_mul (gh_price (gm_header gm')) (ucast n) = Some amount"
    "pay tokens receiver payer amount x = Some x'"
    using assms by (auto simp: dispense_nft_token_def Let_def result_simps)
  have "unat amount = unat (gh_price (gm_header gm')) * unat n"
    using checked_mul_Some [OF r(4)] by (metis unat_ucast_u64)
  then show thesis
    by (rule that [OF r(1-3) _ r(5)])
qed

lemma update_config_lines_pool:
  assumes "update_config_lines auth start new gm = Inr gm'"
  shows "gm_header gm' = gm_header gm" and "indices_of gm' = indices_of gm" and "pool_of gm' = pool_of gm"
proof -
  show "gm_header gm' = gm_header gm" and i: "indices_of gm' = indices_of gm"
    using assms by (auto simp: update_config_lines_def Let_def result_simps indices_of_def)
  then show "pool_of gm' = pool_of gm"
    by (simp add: pool_of_def remaining_of_def)
qed

lemma when_some_keeps:
  assumes "\<And>v h. P (f v h) = P h"
  shows "P (when_some f x h) = P h"
  using assms by (cases x) (auto simp: when_some_def)

lemmas when_some_fields = when_some_keeps [of gh_max_items] when_some_keeps [of gh_remaining]
  when_some_keeps [of gh_max_mint_size] when_some_keeps [of gh_authority]

lemma update_header_metadata_frame:
  assumes "update_header_metadata auth ub nb sy em sf im ra pr gl bw au mm gm = Inr gm'"
  shows "gh_authority (gm_header gm) = auth" and "gm_config_data gm' = gm_config_data gm"
    and "gh_max_items (gm_header gm') = gh_max_items (gm_header gm)"
    and "gh_remaining (gm_header gm') = gh_remaining (gm_header gm)"
  using assms by (auto simp: update_header_metadata_def Let_def result_simps when_some_fields)

interpretation gumball: item_pool "sale_step E pay_sol pay_token machine" "pool_of \<circ> fst \<circ> fst"
proof unfold_locales
  fix s :: "(gumball_account \<times> bubblegum_accounts) \<times> 'a" and xs s'
  assume "sale_step E pay_sol pay_token machine s xs s'"
  then show "(pool_of \<circ> fst \<circ> fst) s = (pool_of \<circ> fst \<circ> fst) s' + mset xs"
  proof cases
    case (sol payer receiver rb ins t slab k gm w x evs gm' w' x')
    then show ?thesis
      by (auto elim!: dispense_sol_inv dest: find_and_mint_inv(6))
  next
    case (token payer tokens mint receiver rb ins t slab k gm w x evs gm' w' x')
    then show ?thesis
      by (auto elim!: dispense_token_inv dest: find_and_mint_inv(6))
  next
    case (lines auth start new gm gm' w x)
    then show ?thesis
      using update_config_lines_pool(3) by simp
  next
    case (header auth ub nb sy em sf im ra pr gl bw au mm gm gm' w x)
    then show ?thesis
      using update_header_metadata_frame [OF header(4)]
      by (simp add: pool_of_def remaining_of_def indices_of_def)
  qed simp
qed

end
