(* ===== verification/Gumball_Lines.thy ===== *)
theory Gumball_Lines
  imports Gumball_Run
begin

text \<open>
  Setting up a machine: initialising its indices in chunks, adding and updating config lines.
\<close>

section \<open>Initialising the indices\<close>

fun init_chunks :: "nat \<Rightarrow> pubkey \<Rightarrow> gumball_account \<Rightarrow> (GumballError, gumball_account) result" where
  "init_chunks 0 auth gm = Inr gm"
| "init_chunks (Suc k) auth gm = and_then (init_chunks k auth gm) (initialize_indices_chunk auth)"

text \<open>The indices below \<open>smallest_uninitialized_index\<close> are initialised, in a machine that fits.\<close>

definition init_fits :: "nat \<Rightarrow> gumball_account \<Rightarrow> bool" where
  "init_fits s gm \<longleftrightarrow>
     unat (gh_smallest_uninitialized_index (gm_header gm)) = s \<and> s \<le> max_items_of gm \<and>
     4 * max_items_of gm \<le> length (gm_config_data gm) \<and> max_items_of gm + 250000 < 2 ^ 32"

definition init_upto :: "nat \<Rightarrow> gumball_account \<Rightarrow> bool" where
  "init_upto s gm \<longleftrightarrow> init_fits s gm \<and> take s (indices_of gm) = map of_nat [0..<s]"

lemma init_fitsD:
  assumes "init_fits s gm"
  shows "length (indices_of gm) = max_items_of gm" and "4 * max_items_of gm < 2 ^ 64"
  using assms by (auto simp: init_fits_def indices_of_def length_cast_u32)

lemma initialize_indices_chunk_eq:
  assumes "init_fits s gm" and "s' = min (s + 250000) (max_items_of gm)"
    and "h1 = (gm_header gm)\<lparr>gh_smallest_uninitialized_index := of_nat s'\<rparr>"
  shows "initialize_indices_chunk auth gm =
    (if gh_authority (gm_header gm) \<noteq> auth then Inl Panic
     else Inr \<lparr>gm_header = (if gh_extension_len (gm_header gm) = 0
              then h1\<lparr>gh_remaining := gh_max_items (gm_header gm)\<rparr> else h1),
            gm_config_data =
              uncast_u32 (take s (indices_of gm) @ map of_nat [s..<s'] @ drop s' (indices_of gm)) @
              lines_of gm\<rparr>)"
proof -
  let ?h = "gm_header gm"
  let ?s = "gh_smallest_uninitialized_index ?h"
  note D = init_fitsD [OF assms(1)]
  have s: "unat ?s = s" "s \<le> max_items_of gm" "max_items_of gm + 250000 < 2 ^ 32"
    "4 * max_items_of gm \<le> length (gm_config_data gm)"
    using assms(1) by (auto simp: init_fits_def)
  have u: "unat MAX_NUM_INDICES_TO_INIT_FOR_CHUNK = 250000"
    by (simp add: MAX_NUM_INDICES_TO_INIT_FOR_CHUNK_def)
  have add: "checked_add ?s MAX_NUM_INDICES_TO_INIT_FOR_CHUNK = Some (?s + MAX_NUM_INDICES_TO_INIT_FOR_CHUNK)"
    using s u by (simp add: checked_add_def)
  have sum: "unat (?s + MAX_NUM_INDICES_TO_INIT_FOR_CHUNK) = s + 250000"
    using checked_add_Some [OF add] s u by simp
  have nxt: "unat (min (?s + MAX_NUM_INDICES_TO_INIT_FOR_CHUNK) (gh_max_items ?h)) = s'"
    by (auto simp: min_def word_le_nat_alt sum assms(2))
  then have nxt': "min (?s + MAX_NUM_INDICES_TO_INIT_FOR_CHUNK) (gh_max_items ?h) = of_nat s'"
    using unat_bound [of "gh_max_items ?h"] by (simp add: word_unat_eq_iff unat_of_nat assms(2))
  have wr: "write_indices s s' (indices_of gm) =
      Inr (take s (indices_of gm) @ map of_nat [s..<s'] @ drop s' (indices_of gm))"
    using s D(1) by (simp add: write_indices_def assms(2))
  show ?thesis
    unfolding initialize_indices_chunk_def Let_def
    using s D(2) wr nxt nxt'
    by (simp add: usize_mul_def split_at_def add indices_of_def [symmetric] lines_of_def [symmetric]
        assms(3))
qed

lemma init_chunk_step:
  assumes "init_upto s gm" and "s' = min (s + 250000) (max_items_of gm)"
    and "gh_authority (gm_header gm) = auth"
  obtains gm' where "initialize_indices_chunk auth gm = Inr gm'" "init_upto s' gm'"
    "gh_authority (gm_header gm') = auth" "gh_max_items (gm_header gm') = gh_max_items (gm_header gm)"
    "lines_of gm' = lines_of gm"
proof -
  define h1 where "h1 = (gm_header gm)\<lparr>gh_smallest_uninitialized_index := of_nat s'\<rparr>"
  define h' where "h' = (if gh_extension_len (gm_header gm) = 0
    then h1\<lparr>gh_remaining := gh_max_items (gm_header gm)\<rparr> else h1)"
  define idx' where "idx' = take s (indices_of gm) @ map of_nat [s..<s'] @ drop s' (indices_of gm)"
  define gm' where "gm' = \<lparr>gm_header = h', gm_config_data = uncast_u32 idx' @ lines_of gm\<rparr>"
  have fits: "init_fits s gm"
    using assms(1) by (simp add: init_upto_def)
  have ok: "initialize_indices_chunk auth gm = Inr gm'"
    using initialize_indices_chunk_eq [OF fits assms(2) h1_def] assms(3)
    by (simp add: gm'_def h'_def idx'_def)
  have s: "s \<le> max_items_of gm" "take s (indices_of gm) = map of_nat [0..<s]"
    "max_items_of gm + 250000 < 2 ^ 32"
    using assms(1) by (auto simp: init_upto_def init_fits_def)
  note D = init_fitsD [OF fits]
  have h': "gh_max_items h' = gh_max_items (gm_header gm)"
    "gh_smallest_uninitialized_index h' = of_nat s'" "gh_authority h' = auth"
    using assms(3) by (auto simp: h'_def h1_def)
  have len: "length idx' = unat (gh_max_items h')"
    using s D(1) by (auto simp: idx'_def assms(2) h'(1))
  note data = machine_data [OF len, of "lines_of gm", folded gm'_def]
  have "take s' idx' = map of_nat [0..<s']"
  proof -
    have "s \<le> s'" using s(1) by (simp add: assms(2))
    then have "map of_nat [0..<s'] = map of_nat [0..<s] @ (map of_nat [s..<s'] :: u32 list)"
      by (metis le0 le_add_diff_inverse map_append upt_add_eq_append)
    moreover have "take s' idx' = take s (indices_of gm) @ map of_nat [s..<s']"
      using s(1) D(1) \<open>s \<le> s'\<close> by (simp add: idx'_def)
    ultimately show ?thesis using s(2) by simp
  qed
  moreover have "unat (of_nat s' :: u32) = s'"
    using s(1,3) by (simp add: unat_of_nat assms(2))
  ultimately have "init_upto s' gm'"
    unfolding init_upto_def init_fits_def using data(1) h' len s(3) by (simp add: gm'_def assms(2))
  then show thesis
    using that [OF ok] h' data(2) by (simp add: gm'_def)
qed

lemma init_chunks_upto:
  assumes "init_upto 0 gm" and "gh_authority (gm_header gm) = auth"
  shows "\<exists>gm'. init_chunks k auth gm = Inr gm' \<and> init_upto (min (k * 250000) (max_items_of gm)) gm' \<and>
    gh_authority (gm_header gm') = auth \<and> gh_max_items (gm_header gm') = gh_max_items (gm_header gm) \<and>
    lines_of gm' = lines_of gm"
proof (induction k)
  case 0
  then show ?case using assms by simp
next
  case (Suc k)
  then obtain g where g: "init_chunks k auth gm = Inr g" "init_upto (min (k * 250000) (max_items_of gm)) g"
    "gh_authority (gm_header g) = auth" "gh_max_items (gm_header g) = gh_max_items (gm_header gm)"
    "lines_of g = lines_of gm"
    by blast
  have eq: "min (Suc k * 250000) (max_items_of gm) =
      min (min (k * 250000) (max_items_of gm) + 250000) (max_items_of g)"
    by (simp add: g(4))
  from init_chunk_step [OF g(2) eq g(3)] show ?case
    using g by (metis and_then_simps(2) init_chunks.simps(2))
qed

section \<open>Config lines\<close>

definition chunk :: "nat \<Rightarrow> nat \<Rightarrow> 'a list \<Rightarrow> 'a list" where
  "chunk l j xs = take l (drop (j * l) xs)"

lemma chunk_append:
  assumes "length xs = a * l"
  shows "chunk l j (xs @ ys) = (if j < a then chunk l j xs else chunk l (j - a) ys)"
proof (cases "j < a")
  case True
  have "Suc j * l \<le> a * l"
    by (rule mult_right_mono) (use True in auto)
  then show ?thesis
    using True assms by (simp add: chunk_def)
next
  case False
  then have "a * l \<le> j * l"
    by (simp add: mult_right_mono)
  then show ?thesis
    using False assms by (simp add: chunk_def diff_mult_distrib)
qed

lemma chunk_overwrite:
  assumes "length old = n * l" and "length new = m * l" and "a + m \<le> n"
    and "overwrite old (a * l) new = Inr res"
  shows "chunk l j res = (if a \<le> j \<and> j < a + m then chunk l (j - a) new else chunk l j old)"
proof -
  have le: "a * l + m * l \<le> n * l"
    using assms(3) by (metis add_mult_distrib mult_right_mono zero_le)
  have res: "res = (take (a * l) old @ new) @ drop (a * l + m * l) old"
    using assms(1,2,4) le by (simp add: overwrite_def split: if_splits)
  have len: "length (take (a * l) old) = a * l" "length (take (a * l) old @ new) = (a + m) * l"
    using assms(1,2) le by (simp_all add: algebra_simps)
  have lo: "chunk l j (take (a * l) old) = chunk l j old" if "j < a"
    using that chunk_append [OF len(1), of j "drop (a * l) old"] by simp
  have hi: "chunk l (j - (a + m)) (drop (a * l + m * l) old) = chunk l j old" if ge: "a + m \<le> j"
  proof -
    obtain k where "j = a + m + k"
      using ge le_Suc_ex by blast
    then show ?thesis
      by (simp add: chunk_def algebra_simps)
  qed
  consider "j < a" | "a \<le> j" "j < a + m" | "a + m \<le> j"
    by linarith
  then show ?thesis
  proof cases
    case 1
    then show ?thesis
      unfolding res by (simp only: chunk_append [OF len(2)] chunk_append [OF len(1)] lo) simp
  next
    case 2
    then show ?thesis
      unfolding res by (simp only: chunk_append [OF len(2)] chunk_append [OF len(1)]) simp
  next
    case 3
    then show ?thesis
      unfolding res by (simp only: chunk_append [OF len(2)] hi) simp
  qed
qed

lemma update_config_lines_eq:
  "update_config_lines auth start new gm = Inr gm' \<longleftrightarrow>
   gh_authority (gm_header gm) = auth \<and> line_size_of gm \<noteq> 0 \<and> line_size_of gm dvd length new \<and>
   length (gm_config_data gm) = 4 * max_items_of gm + line_size_of gm * max_items_of gm \<and>
   4 * max_items_of gm + line_size_of gm * max_items_of gm < 2 ^ 64 \<and> length new < 2 ^ 64 \<and>
   unat start + length new div line_size_of gm \<le> unat (gh_total_items_added (gm_header gm)) \<and>
   unat start * line_size_of gm < 2 ^ 64 \<and>
   (\<exists>ls. overwrite (lines_of gm) (unat start * line_size_of gm) new = Inr ls \<and>
     gm' = gm\<lparr>gm_config_data := take (4 * max_items_of gm) (gm_config_data gm) @ ls\<rparr>)"
proof -
  have tot: "unat (gh_total_items_added (gm_header gm)) < 2 ^ 64"
    using unat_bound [of "gh_total_items_added (gm_header gm)"] by simp
  show ?thesis
    unfolding update_config_lines_def Let_def lines_of_def
    using tot by (auto simp: result_simps mod_eq_0_iff_dvd)
qed

lemma lines_of_append:
  assumes "4 * max_items_of gm \<le> length (gm_config_data gm)" and "gh_max_items (gm_header gm') = gh_max_items (gm_header gm)"
    and "gm_config_data gm' = take (4 * max_items_of gm) (gm_config_data gm) @ ls"
  shows "lines_of gm' = ls" and "indices_of gm' = indices_of gm"
  using assms by (simp_all add: lines_of_def indices_of_def)

lemma add_config_lines_eq:
  "add_config_lines auth new gm = Inr gm' \<longleftrightarrow>
   gh_authority (gm_header gm) = auth \<and> line_size_of gm \<noteq> 0 \<and> line_size_of gm dvd length new \<and>
   unat (gh_total_items_added (gm_header gm)) + length new div line_size_of gm \<le> max_items_of gm \<and>
   4 * max_items_of gm \<le> length (gm_config_data gm) \<and>
   unat (gh_remaining (gm_header gm)) + length new div line_size_of gm < 2 ^ 32 \<and>
   (\<exists>ls. overwrite (lines_of gm) (unat (gh_total_items_added (gm_header gm))) new = Inr ls \<and>
     gm' = \<lparr>gm_header = (gm_header gm)\<lparr>
         gh_total_items_added := gh_total_items_added (gm_header gm) + of_nat (length new div line_size_of gm),
         gh_remaining := gh_remaining (gm_header gm) + of_nat (length new div line_size_of gm)\<rparr>,
       gm_config_data = take (4 * max_items_of gm) (gm_config_data gm) @ ls\<rparr>)"
proof -
  let ?n = "length new div line_size_of gm"
  have mx: "max_items_of gm < 2 ^ 32"
    using unat_bound [of "gh_max_items (gm_header gm)"] by simp
  have u: "unat (of_nat ?n :: u32) = ?n" if "unat (gh_total_items_added (gm_header gm)) + ?n \<le> max_items_of gm"
    using that mx by (simp add: unat_of_nat)
  show ?thesis
    unfolding add_config_lines_def Let_def lines_of_def
    using mx u by (auto simp: result_simps dvd_eq_mod_eq_0 checked_add_def split: if_splits)
qed

end
