(* ===== verification/Gummyroll_Events.thy ===== *)
theory Gummyroll_Events
  imports Gummyroll_Run
begin

text \<open>
  The events that a Gummyroll account emits: each describes one write completely, and \<open>gr_logged\<close>
  collects them, from the initialization on, with the state reached.
\<close>

section \<open>The event of an instruction\<close>

lemma gr_exec_committed:
  assumes inv: "gummyroll_inv H acc hist" and ok: "gr_exec H tree_id instr acc = Inr (Some ev, acc')"
    and coll: "\<not> gr_instr_collides H acc (hist ! 0) instr"
  shows "\<exists>i x. i < 2 ^ gr_depth acc \<and> committed H tree_id hist i x acc ev acc'"
proof (cases instr)
  case (ReplaceLeaf auth root prev new i pv)
  then have "replace_leaf H tree_id auth root prev new i pv acc = Inr (ev, acc')"
    using ok by (auto simp: result_simps)
  then show ?thesis
    using replace_leaf_sound [OF inv replace_leaf_index [OF inv]] replace_leaf_index [OF inv] coll
    by (metis ReplaceLeaf gr_instr_collides.simps(1))
next
  case (AppendLeaf auth append_auth leaf)
  then have e: "gummyroll_append H tree_id auth append_auth leaf acc = Inr (ev, acc')"
    using ok by (auto simp: result_simps)
  then have auth: "hd_authority (gr_header acc) = auth" "hd_append_authority (gr_header acc) = append_auth"
    and app: "\<exists>r roll'. append_node H (gr_depth acc) (gr_buffer acc) leaf (gr_roll acc) = Inr (r, roll')"
    by (auto simp: gummyroll_append_def Let_def result_simps apply_fn_eq [OF inv]
        merkle_roll_depth_size_apply_fn_def)
  have room: "leaf \<noteq> EMPTY" "next_leaf (gr_roll acc) < 2 ^ gr_depth acc"
    using app append_simulates(2,3) [OF gummyroll_invD(3) [OF inv]] by blast+
  show ?thesis
    using gummyroll_append_ok [OF inv auth room, of tree_id] e room(2) by auto
next
  case (InsertOrAppend auth root leaf i pv)
  then have e: "insert_or_append H tree_id auth root leaf i pv acc = Inr (ev, acc')"
    using ok by (auto simp: result_simps)
  show ?thesis
    using insert_or_append_sound [OF inv e] coll InsertOrAppend by (metis gr_instr_collides.simps(3))
qed (use ok in \<open>auto simp: result_simps\<close>)

lemma gr_event_path:
  assumes inv: "gummyroll_inv H acc hist"
    and ok: "gr_exec H tree_id instr acc = Inr (Some ev, acc')"
    and coll: "\<not> gr_instr_collides H acc (hist ! 0) instr"
  defines "d \<equiv> gr_depth acc" and "i \<equiv> unat (ev_index ev)" and "L' \<equiv> indexed_event (Some ev) (hist ! 0)"
  shows "ev_id ev = tree_id \<and> ev_seq ev = saturating_add (sequence_number (gr_roll acc)) 1 \<and>
    i < 2 ^ d \<and> length (ev_path ev) = Suc d \<and>
    (\<forall>l\<le>d. pn_node (ev_path ev ! l) = node_at H l (i div 2 ^ l) L' \<and>
      unat (pn_index (ev_path ev ! l)) = 2 ^ (d - l) + i div 2 ^ l)"
    and "sequence_number (gr_roll acc') = ev_seq ev"
proof -
  obtain j x where j: "j < 2 ^ d" and com: "committed H tree_id hist j x acc ev acc'"
    using gr_exec_committed [OF inv ok coll] by (auto simp: d_def)
  let ?cl = "get_change_log (gr_roll acc')"
  have w: "wrote H d (gr_buffer acc) hist j x (gr_roll acc) (gr_roll acc')"
    and ev: "ev = change_log_event_from ?cl tree_id (sequence_number (gr_roll acc'))"
    using com by (auto simp: committed_def d_def)
  have L': "L' = (hist ! 0)(j := x)"
    using committed_spec(2) [OF com inv] by (simp add: L'_def gr_abs_def)
  have i: "i = j" and cl: "cl_path ?cl = path_at H d L' (unat (cl_index ?cl))" "unat (cl_index ?cl) = j"
    using wroteD(4,5) [OF w] by (auto simp: i_def ev change_log_event_from_def Let_def L')
  have d31: "d < 31"
    using gummyroll_invD(6) [OF inv] by (simp add: d_def)
  have "pn_node (ev_path ev ! l) = node_at H l (j div 2 ^ l) L' \<and>
      unat (pn_index (ev_path ev ! l)) = 2 ^ (d - l) + j div 2 ^ l" if l: "l < d" for l
    using event_path_node [OF d31 cl(1), of "d - l" tree_id "sequence_number (gr_roll acc')"] j cl(2) l
    by (simp add: heap_node_def ev)
  moreover have "pn_node (ev_path ev ! d) = node_at H d (j div 2 ^ d) L' \<and>
      unat (pn_index (ev_path ev ! d)) = 2 ^ (d - d) + j div 2 ^ d"
    using wroteD(6) [OF w] cl(1) j
    by (simp add: ev change_log_event_from_def Let_def nth_append path_node_new_def tree_root_def L')
  ultimately have "\<forall>l\<le>d. pn_node (ev_path ev ! l) = node_at H l (j div 2 ^ l) L' \<and>
      unat (pn_index (ev_path ev ! l)) = 2 ^ (d - l) + j div 2 ^ l"
    by (metis le_neq_implies_less)
  then show "ev_id ev = tree_id \<and> ev_seq ev = saturating_add (sequence_number (gr_roll acc)) 1 \<and>
      i < 2 ^ d \<and> length (ev_path ev) = Suc d \<and>
      (\<forall>l\<le>d. pn_node (ev_path ev ! l) = node_at H l (i div 2 ^ l) L' \<and>
        unat (pn_index (ev_path ev ! l)) = 2 ^ (d - l) + i div 2 ^ l)"
    using wroteD(3) [OF w] cl(1) j i by (simp add: ev change_log_event_from_def Let_def)
  show "sequence_number (gr_roll acc') = ev_seq ev"
    by (simp add: ev change_log_event_from_def Let_def)
qed

lemma gr_exec_silent:
  assumes inv: "gummyroll_inv H acc hist" and ok: "gr_exec H tree_id instr acc = Inr (None, acc')"
    and coll: "\<not> gr_instr_collides H acc (hist ! 0) instr"
  shows "gr_roll acc' = gr_roll acc"
proof (cases instr)
  case (TransferAuthority auth na nb)
  then show ?thesis
    using ok by (auto simp: transfer_authority_def Let_def result_simps split: option.splits)
next
  case (VerifyLeaf root leaf i pv)
  then have "verify_leaf H tree_id root leaf i pv acc = Inr acc'"
    using ok by (auto simp: result_simps)
  then show ?thesis
    using verify_leaf_sound [OF inv] coll VerifyLeaf by auto
qed (use ok in \<open>auto simp: result_simps\<close>)

lemma gr_exec_depth:
  assumes inv: "gummyroll_inv H acc hist" and ok: "gr_exec H tree_id instr acc = Inr (ev, acc')"
    and coll: "\<not> gr_instr_collides H acc (hist ! 0) instr"
  shows "gr_depth acc' = gr_depth acc"
proof (cases ev)
  case (Some e)
  then show ?thesis
    using gr_exec_committed [OF inv _ coll, of tree_id e acc'] ok by (auto simp: committed_def gr_depth_def)
next
  case None
  show ?thesis
  proof (cases instr)
    case (TransferAuthority auth na nb)
    then show ?thesis
      using ok by (auto simp: transfer_authority_def Let_def result_simps gr_depth_def split: option.splits)
  next
    case (VerifyLeaf root leaf i pv)
    then have "verify_leaf H tree_id root leaf i pv acc = Inr acc'"
      using ok by (auto simp: result_simps)
    then show ?thesis
      using verify_leaf_sound [OF inv] coll VerifyLeaf by (auto simp: gr_depth_def)
  qed (use ok None in \<open>auto simp: result_simps\<close>)
qed

section \<open>The event of the initialization\<close>

lemma initialize_change_log:
  assumes "dims d n" and "initialize H d n (merkle_roll_new d n) = Inr (r, roll)"
  shows "cl_root (get_change_log roll) = tree_root H d no_leaves"
    and "cl_path (get_change_log roll) = path_at H d no_leaves 0" and "cl_index (get_change_log roll) = 0"
    and "sequence_number roll = 0"
  using assms dims_pos [OF assms(1)]
  by (auto simp: initialize_def check_bounds_ok Let_def empty_node_cached_eq merkle_roll_new_def
      get_change_log_def change_log_default_def tree_root_def path_at_def empty_node_eq [of H _ 0])

lemma init_event:
  assumes ok: "init_empty_gummyroll H tree_id auth append_auth clock_slot max_depth max_buffer_size
      (Zeroed data_len) = Inr (ev, acc)" and small: "data_len < 2 ^ 32" and nz: "hash_nonzero H"
  defines "d \<equiv> gr_depth acc"
  shows "ev_id ev = tree_id \<and> ev_seq ev = 0 \<and> ev_index ev = 0 \<and> length (ev_path ev) = Suc d \<and>
    (\<forall>l\<le>d. pn_node (ev_path ev ! l) = node_at H l 0 no_leaves \<and> unat (pn_index (ev_path ev ! l)) = 2 ^ (d - l))"
    and "sequence_number (gr_roll acc) = 0"
proof -
  note inv = init_empty_gummyroll_inv [OF ok small nz]
  have dims: "dims d (gr_buffer acc)" and d31: "d < 31"
    using gummyroll_invD(6,7) [OF inv(1)] by (simp_all add: d_def)
  obtain r roll where roll: "initialize H d (gr_buffer acc) (merkle_roll_new d (gr_buffer acc)) = Inr (r, roll)"
    and ev: "ev = change_log_event_from (get_change_log roll) tree_id (sequence_number roll)"
    and acc: "gr_roll acc = roll"
    using ok unfolding d_def inv(5,6)
    by (auto simp: init_empty_gummyroll_def header_initialize_def zero_header_def zeroed_parts_def
        merkle_roll_get_size_def Let_def result_simps merkle_roll_apply_fn_def
        merkle_roll_depth_size_apply_fn_def split: if_splits)
  note cl = initialize_change_log [OF dims roll]
  have "pn_node (ev_path ev ! l) = node_at H l 0 no_leaves \<and> unat (pn_index (ev_path ev ! l)) = 2 ^ (d - l)"
    if l: "l \<le> d" for l
  proof (cases "l < d")
    case True
    then show ?thesis
      using event_path_node [OF d31, of "get_change_log roll" H no_leaves "d - l" tree_id "sequence_number roll"]
      by (simp add: heap_node_def ev cl)
  next
    case False
    then show ?thesis
      using l by (simp add: ev cl change_log_event_from_def Let_def nth_append path_node_new_def tree_root_def)
  qed
  then show "ev_id ev = tree_id \<and> ev_seq ev = 0 \<and> ev_index ev = 0 \<and> length (ev_path ev) = Suc d \<and>
      (\<forall>l\<le>d. pn_node (ev_path ev ! l) = node_at H l 0 no_leaves \<and> unat (pn_index (ev_path ev ! l)) = 2 ^ (d - l))"
    by (simp add: ev cl change_log_event_from_def Let_def)
  show "sequence_number (gr_roll acc) = 0"
    by (simp add: acc cl)
qed

section \<open>Runs with their events\<close>

inductive gr_logged :: "hashv \<Rightarrow> pubkey \<Rightarrow> gummyroll_account \<Rightarrow> leaves \<Rightarrow> change_log_event list \<Rightarrow> bool"
  for H tree_id where
  init: "init_empty_gummyroll H tree_id auth append_auth clock_slot max_depth max_buffer_size
      (Zeroed data_len) = Inr (ev, acc) \<Longrightarrow> data_len < 2 ^ 32 \<Longrightarrow> gr_logged H tree_id acc no_leaves [ev]"
| step: "gr_logged H tree_id acc L evs \<Longrightarrow> gr_exec H tree_id instr acc = Inr (ev, acc') \<Longrightarrow>
    \<not> gr_instr_collides H acc L instr \<Longrightarrow>
    gr_logged H tree_id acc' (indexed_event ev L) (evs @ (case ev of None \<Rightarrow> [] | Some e \<Rightarrow> [e]))"

end
