(* ===== verification/Merkle_Roll_Props.thy ===== *)
theory Merkle_Roll_Props
  imports Merkle_Run
begin

text \<open>
  The properties of the concurrent Merkle tree. Each is stated for every hash function and all
  dimensions that \<open>check_bounds\<close> admits (\<open>dims\<close>). The witnesses use depth 2, a buffer of 4 change
  logs and a hash that concatenates its inputs after a marker byte.
\<close>

section \<open>A small tree\<close>

definition toy_hash :: hashv where
  "toy_hash xs = 1 # concat (map (\<lambda>b. if b = EMPTY then [0] else b) xs)"

definition toy_leaves :: leaves where
  "toy_leaves = no_leaves(0 := [1])"

lemma toy_dims: "dims 2 4"
  by (auto simp: dims_def intro: exI [of _ 2])

lemma one_not_EMPTY [simp]: "[a] \<noteq> EMPTY" "EMPTY \<noteq> [a]"
  by (auto simp: EMPTY_def dest: arg_cong [where f = length])

lemma toy_state:
  "\<exists>roll0 r1 roll1. initialize toy_hash 2 4 (merkle_roll_new 2 4) =
      Inr (tree_root toy_hash 2 no_leaves, roll0) \<and>
    append_node toy_hash 2 4 [1] roll0 = Inr (r1, roll1) \<and>
    roll_inv toy_hash 2 4 roll1 [toy_leaves, no_leaves] \<and> next_leaf roll1 = 1"
proof -
  obtain roll0 where 0: "initialize toy_hash 2 4 (merkle_roll_new 2 4) =
      Inr (tree_root toy_hash 2 no_leaves, roll0)"
    "roll_inv toy_hash 2 4 roll0 [no_leaves]" "path_index (rightmost_proof roll0) = 0"
    using initialize_spec [OF toy_dims] by blast
  obtain r1 roll1 where "append_node toy_hash 2 4 [1] roll0 = Inr (r1, roll1)"
    "roll_inv toy_hash 2 4 roll1 [no_leaves(0 := [1]), no_leaves]" "next_leaf roll1 = 1"
    using roll.app_ok [OF 0(2), of "[1]"] 0(3) by (auto simp: next_leaf_def)
  then show ?thesis
    using 0(1) unfolding toy_leaves_def by blast
qed

lemma toy_roots:
  "tree_root toy_hash 2 (toy_leaves(0 := [2])) \<noteq> tree_root toy_hash 2 toy_leaves"
  "tree_root toy_hash 2 (toy_leaves(1 := [3])) \<noteq> tree_root toy_hash 2 toy_leaves"
  "tree_root toy_hash 2 toy_leaves \<noteq> tree_root toy_hash 2 no_leaves"
  by code_simp+

section \<open>Runs\<close>





section \<open>Concurrent writers\<close>

text \<open>
  C3. A replacement whose proof was made against any remembered tree succeeds, however many other
  leaves were written since then (as long as the buffer remembers that tree), and yields the root
  of the current tree with that leaf replaced; if the leaf itself was changed in between it is
  refused as \<open>LeafContentsModified\<close>.
\<close>

theorem set_leaf_stale_proof:
  assumes "roll_inv H d n roll hist" and "unat i < 2 ^ d" and "unat i \<le> next_leaf roll"
    and "latest H d hist t"
  shows "if (hist ! t) (unat i) = (hist ! 0) (unat i)
    then \<exists>roll'. set_leaf H d n (tree_root H d (hist ! t)) ((hist ! t) (unat i)) x
          (proof_at H d (hist ! t) (unat i)) i roll =
        Inr (tree_root H d ((hist ! 0)(unat i := x)), roll') \<and>
        roll_inv H d n roll' ((hist ! 0)(unat i := x) # take (n - 1) hist)
    else set_leaf H d n (tree_root H d (hist ! t)) ((hist ! t) (unat i)) x
          (proof_at H d (hist ! t) (unat i)) i roll = Inl (Err LeafContentsModified)"
proof -
  have t: "right_for H d (unat i) hist (replay_depth H d hist (tree_root H d (hist ! t)))
      (filled H d (proof_at H d (hist ! t) (unat i))) ((hist ! t) (unat i))"
    "remembered H d hist (tree_root H d (hist ! t)) \<or> 1 < length hist"
    using assms(4) right_for_history [of t hist H d] by (auto simp: latest_def)
  show ?thesis
    using set_leaf_complete_aux [OF assms(1,2) _ _ t, of x] assms(3) wroteD(1)
    by (fastforce simp: next_leaf_def split: if_splits)
qed

theorem set_leaf_stale_proof_witness:
  "\<exists>roll. set_leaf toy_hash 2 4 (tree_root toy_hash 2 no_leaves) EMPTY [9]
      (proof_at toy_hash 2 no_leaves 0) 0 roll = Inl (Err LeafContentsModified) \<and>
    (\<exists>roll'. set_leaf toy_hash 2 4 (tree_root toy_hash 2 no_leaves) EMPTY [9]
        (proof_at toy_hash 2 no_leaves 1) 1 roll =
      Inr (tree_root toy_hash 2 (toy_leaves(1 := [9])), roll'))"
proof -
  obtain roll where roll: "roll_inv toy_hash 2 4 roll [toy_leaves, no_leaves]" "next_leaf roll = 1"
    using toy_state by blast
  have "latest toy_hash 2 [toy_leaves, no_leaves] 1"
    using toy_roots(3) by (simp add: latest_def)
  then show ?thesis
    using set_leaf_stale_proof [OF roll(1), of 0 1 "[9]"] set_leaf_stale_proof [OF roll(1), of 1 1 "[9]"]
      roll(2) by (auto simp: toy_leaves_def)
qed



text \<open>
  Two writers of different leaves that both made their proofs against the current root both
  succeed, in either order, and both orders end in the same root.
\<close>

theorem set_leaf_writers_commute:
  assumes "roll_inv H d n roll hist" and "2 \<le> n" and "i \<noteq> j"
    and "unat i < 2 ^ d" and "unat i \<le> next_leaf roll"
    and "unat j < 2 ^ d" and "unat j \<le> next_leaf roll"
    and "tree_root H d ((hist ! 0)(unat i := x)) \<noteq> tree_root H d (hist ! 0)"
    and "tree_root H d ((hist ! 0)(unat j := y)) \<noteq> tree_root H d (hist ! 0)"
  defines "set_i \<equiv> set_leaf H d n (tree_root H d (hist ! 0)) ((hist ! 0) (unat i)) x
      (proof_at H d (hist ! 0) (unat i)) i"
    and "set_j \<equiv> set_leaf H d n (tree_root H d (hist ! 0)) ((hist ! 0) (unat j)) y
      (proof_at H d (hist ! 0) (unat j)) j"
  shows "\<exists>ri si sij rj sj sji.
    set_i roll = Inr (ri, si) \<and>
    set_j si = Inr (tree_root H d ((hist ! 0)(unat i := x, unat j := y)), sij) \<and>
    set_j roll = Inr (rj, sj) \<and>
    set_i sj = Inr (tree_root H d ((hist ! 0)(unat i := x, unat j := y)), sji)"
  unfolding set_i_def set_j_def by (rule roll.writers_commute [OF assms(1-9)])

theorem set_leaf_writers_commute_witness:
  "\<exists>roll ri si sij.
    set_leaf toy_hash 2 4 (tree_root toy_hash 2 toy_leaves) [1] [2]
      (proof_at toy_hash 2 toy_leaves 0) 0 roll = Inr (ri, si) \<and>
    set_leaf toy_hash 2 4 (tree_root toy_hash 2 toy_leaves) EMPTY [3]
      (proof_at toy_hash 2 toy_leaves 1) 1 si =
      Inr (tree_root toy_hash 2 (toy_leaves(0 := [2], 1 := [3])), sij)"
proof -
  obtain roll where roll: "roll_inv toy_hash 2 4 roll [toy_leaves, no_leaves]" "next_leaf roll = 1"
    using toy_state by blast
  show ?thesis
    using set_leaf_writers_commute [OF roll(1), of 0 1 "[2]" "[3]"] toy_roots(1,2) roll(2)
    by (auto simp: toy_leaves_def)
qed

text \<open>
  No lost update: of two writers that made proofs for the same leaf against the same root, the
  second is refused once the first has changed the leaf.
\<close>

theorem set_leaf_no_lost_update:
  assumes "roll_inv H d n roll hist" and "2 \<le> n"
    and "unat i < 2 ^ d" and "unat i \<le> next_leaf roll"
    and "x \<noteq> (hist ! 0) (unat i)"
    and "tree_root H d ((hist ! 0)(unat i := x)) \<noteq> tree_root H d (hist ! 0)"
  shows "\<exists>r roll' e. set_leaf H d n (tree_root H d (hist ! 0)) ((hist ! 0) (unat i)) x
      (proof_at H d (hist ! 0) (unat i)) i roll = Inr (r, roll') \<and>
    set_leaf H d n (tree_root H d (hist ! 0)) ((hist ! 0) (unat i)) y
      (proof_at H d (hist ! 0) (unat i)) i roll' = Inl (Err e)"
  by (rule roll.no_lost_update [OF assms])

theorem set_leaf_no_lost_update_witness:
  "\<exists>roll r roll' e. set_leaf toy_hash 2 4 (tree_root toy_hash 2 toy_leaves) [1] [2]
      (proof_at toy_hash 2 toy_leaves 0) 0 roll = Inr (r, roll') \<and>
    set_leaf toy_hash 2 4 (tree_root toy_hash 2 toy_leaves) [1] [3]
      (proof_at toy_hash 2 toy_leaves 0) 0 roll' = Inl (Err e)"
proof -
  obtain roll where roll: "roll_inv toy_hash 2 4 roll [toy_leaves, no_leaves]" "next_leaf roll = 1"
    using toy_state by blast
  show ?thesis
    using set_leaf_no_lost_update [OF roll(1), of 0 "[2]" "[3]"] toy_roots(1) roll(2)
    by (auto simp: toy_leaves_def)
qed

section \<open>Appending\<close>

text \<open>
  C5. \<open>append\<close> on every branch: the empty leaf and a full tree are refused with their errors;
  otherwise it stores the leaf at the next index, returns the root of the new tree, keeps the
  invariant, advances the index and the (saturating) sequence number by one, and the active change
  log records the index and the nodes on the path of the new leaf.
\<close>

theorem append_functional:
  fixes x :: node
  assumes "roll_inv H d n roll hist"
  defines "L' \<equiv> (hist ! 0)(next_leaf roll := x)"
  shows "if x = EMPTY then append_node H d n x roll = Inl (Err CannotAppendEmptyNode)
    else if 2 ^ d \<le> next_leaf roll then append_node H d n x roll = Inl (Err TreeFull)
    else \<exists>roll'. append_node H d n x roll = Inr (tree_root H d L', roll') \<and>
      roll_inv H d n roll' (L' # take (n - 1) hist) \<and> next_leaf roll' = Suc (next_leaf roll) \<and>
      sequence_number roll' = saturating_add (sequence_number roll) 1 \<and>
      unat (cl_index (get_change_log roll')) = next_leaf roll \<and>
      cl_path (get_change_log roll') = path_at H d L' (next_leaf roll)"
  using append_node_eq [OF assms(1), of x] wroteD [of H d n hist "next_leaf roll" x roll]
  unfolding L'_def next_leaf_def by (fastforce split: if_splits)

theorem append_functional_witness:
  "\<exists>roll roll'. append_node toy_hash 2 4 [2] roll =
      Inr (tree_root toy_hash 2 (toy_leaves(1 := [2])), roll') \<and>
    roll_inv toy_hash 2 4 roll' [toy_leaves(1 := [2]), toy_leaves, no_leaves]"
proof -
  obtain roll where roll: "roll_inv toy_hash 2 4 roll [toy_leaves, no_leaves]" "next_leaf roll = 1"
    using toy_state by blast
  show ?thesis
    using append_functional [OF roll(1), of "[2]"] roll(2) by auto
qed

text \<open>
  Appending a list of non-empty leaves that fits to a freshly initialized tree succeeds and
  gives the root of the tree that holds exactly this list.
\<close>

theorem append_all_from_initialize:
  assumes "dims d n" and "EMPTY \<notin> set xs" and "length xs \<le> 2 ^ d"
    and "initialize H d n (merkle_roll_new d n) = Inr (r, roll)"
  shows "\<exists>roll'. append_all (append_node H d n) xs roll = Inr roll' \<and>
    cl_root (get_change_log roll') =
      tree_root H d (\<lambda>j. if j < length xs then xs ! j else EMPTY) \<and>
    next_leaf roll' = length xs"
proof -
  have inv: "roll_inv H d n roll [no_leaves]" and "next_leaf roll = 0"
    using initialize_spec [OF assms(1), of H] assms(4) by (auto simp: next_leaf_def)
  then obtain roll' hist' where "append_all (append_node H d n) xs roll = Inr roll'"
    "roll_inv H d n roll' hist'" "hist' ! 0 = store_at no_leaves 0 xs" "next_leaf roll' = length xs"
    using roll.append_all_ok [OF inv assms(2)] assms(3) by auto
  moreover have "store_at no_leaves 0 xs = (\<lambda>j. if j < length xs then xs ! j else EMPTY)"
    by (rule ext) (simp add: store_at_def)
  ultimately show ?thesis
    using current_root [of H d n roll' hist'] by (auto simp: roll_inv_def)
qed

theorem append_all_from_initialize_witness:
  "\<exists>roll roll'. append_all (append_node toy_hash 2 4) [[1], [2], [3]] roll = Inr roll' \<and>
    cl_root (get_change_log roll') = [1, 1, 1, 2, 1, 3, 0]"
proof -
  obtain r roll where init: "initialize toy_hash 2 4 (merkle_roll_new 2 4) = Inr (r, roll)"
    using toy_state by blast
  have "tree_root toy_hash 2 (\<lambda>j. if j < length [[1], [2], [3 :: u8]] then [[1], [2], [3]] ! j else EMPTY) =
      [1, 1, 1, 2, 1, 3, 0]"
    by code_simp
  then show ?thesis
    using append_all_from_initialize [OF toy_dims _ _ init, of "[[1], [2], [3]]"] by auto
qed

section \<open>Errors and proofs of membership\<close>

text \<open>
  C6. No panic and no endless loop: on a state satisfying the invariant, with an index inside the
  tree and at most \<open>MAX_DEPTH\<close> proof nodes of any contents, \<open>set_leaf\<close> succeeds or returns one of
  three documented errors.
\<close>

theorem set_leaf_no_panic:
  assumes "roll_inv H d n roll hist" and "unat i < 2 ^ d" and "length pv \<le> d"
  shows "(\<exists>r. set_leaf H d n root leaf x pv i roll = Inr r) \<or>
    set_leaf H d n root leaf x pv i roll \<in>
      {Inl (Err LeafIndexOutOfBounds), Inl (Err LeafContentsModified), Inl (Err InvalidProof)}"
proof (cases "path_index (rightmost_proof roll) < i")
  case False
  then have ix: "unat i \<le> unat (path_index (rightmost_proof roll))"
    by (simp add: word_less_nat_alt not_less)
  have total: "\<exists>r. update_buffers_from_proof H d x ps i (update_internal_counters n roll) = Inr r" for ps
    by (rule update_buffers_total [OF assms(1,2) ix])
  consider "check_valid_leaf H d n roll root leaf (filled H d pv) i True = Inl (Err LeafContentsModified)"
    | ps v where "check_valid_leaf H d n roll root leaf (filled H d pv) i True = Inr (v, ps)"
    using check_valid_leaf_cases [OF assms(1,2) length_filled [OF assms(3), of H],
        where root = root and leaf = leaf and allow = True]
      check_valid_leaf_True_not_RootNotFound [OF assms(1,2) length_filled [OF assms(3)]]
    by blast
  then show ?thesis
    using False assms(3) total by cases (auto simp: set_leaf_eq [OF assms(1)] try_apply_proof_def)
qed (simp add: set_leaf_eq [OF assms(1)])

theorem set_leaf_no_panic_witness:
  "\<exists>roll. roll_inv toy_hash 2 4 roll [toy_leaves, no_leaves] \<and>
    ((\<exists>r. set_leaf toy_hash 2 4 [7] [1] [2] [[5]] 0 roll = Inr r) \<or>
     set_leaf toy_hash 2 4 [7] [1] [2] [[5]] 0 roll \<in>
       {Inl (Err LeafIndexOutOfBounds), Inl (Err LeafContentsModified), Inl (Err InvalidProof)})"
proof -
  obtain roll where roll: "roll_inv toy_hash 2 4 roll [toy_leaves, no_leaves]"
    using toy_state by blast
  from set_leaf_no_panic [OF roll, of 0 "[[5]]" "[7]" "[1]" "[2]"] show ?thesis
    using roll by auto
qed

text \<open>
  C7. \<open>prove_leaf\<close> decides membership in the current tree: with the proof of the claimed leaf in
  any remembered tree it accepts exactly if the leaf still has these contents, and whenever it
  accepts some proof, the leaf has these contents or the replayed proof exhibits a hash collision.
  It never changes the state.
\<close>

theorem prove_leaf_membership:
  assumes "roll_inv H d n roll hist" and "unat i < 2 ^ d" and "unat i \<le> next_leaf roll"
  shows "(latest H d hist t \<longrightarrow>
      prove_leaf H d n (tree_root H d (hist ! t)) ((hist ! t) (unat i))
        (proof_at H d (hist ! t) (unat i)) i roll =
      (if (hist ! t) (unat i) = (hist ! 0) (unat i) then Inr (EMPTY, roll)
       else Inl (Err LeafContentsModified))) \<and>
    (prove_leaf H d n root leaf pv i roll = Inr (r, roll') \<longrightarrow>
      roll' = roll \<and> (leaf = (hist ! 0) (unat i) \<or> replay_collides H d n roll (hist ! 0) root leaf pv i))"
proof -
  have ix: "\<not> path_index (rightmost_proof roll) < i"
    using assms(3) by (simp add: next_leaf_def word_less_nat_alt)
  have "prove_leaf H d n (tree_root H d (hist ! t)) ((hist ! t) (unat i))
        (proof_at H d (hist ! t) (unat i)) i roll =
      (if (hist ! t) (unat i) = (hist ! 0) (unat i) then Inr (EMPTY, roll)
       else Inl (Err LeafContentsModified))" if "latest H d hist t"
    using that check_valid_leaf_right [OF assms(1,2) right_for_history(1), of t True]
      right_for_history(2) [of t hist H d] ix
    by (auto simp: latest_def prove_leaf_eq [OF assms(1)])
  moreover have "roll' = roll \<and>
      (leaf = (hist ! 0) (unat i) \<or> replay_collides H d n roll (hist ! 0) root leaf pv i)"
    if ok: "prove_leaf H d n root leaf pv i roll = Inr (r, roll')"
  proof -
    from ok obtain ps where "length pv \<le> d" "roll' = roll"
      "check_valid_leaf H d n roll root leaf (filled H d pv) i True = Inr (True, ps)"
      by (auto simp: prove_leaf_eq [OF assms(1)] result_simps split: if_splits)
    then show ?thesis
      using check_valid_leaf_sound(1) [OF assms(1,2) length_filled] by (auto simp: replay_collides_def)
  qed
  ultimately show ?thesis by blast
qed

theorem prove_leaf_membership_witness:
  "\<exists>roll. prove_leaf toy_hash 2 4 (tree_root toy_hash 2 no_leaves) EMPTY
      (proof_at toy_hash 2 no_leaves 1) 1 roll = Inr (EMPTY, roll)"
proof -
  obtain roll where roll: "roll_inv toy_hash 2 4 roll [toy_leaves, no_leaves]" "next_leaf roll = 1"
    using toy_state by blast
  have "latest toy_hash 2 [toy_leaves, no_leaves] 1"
    using toy_roots(3) by (simp add: latest_def)
  then show ?thesis
    using prove_leaf_membership [OF roll(1), of 1 1 EMPTY EMPTY "[]" EMPTY roll] roll(2)
    by (auto simp: toy_leaves_def)
qed

end
