(* ===== verification/Gummyroll_Props.thy ===== *)
theory Gummyroll_Props
  imports Gummyroll_Events Merkle_Roll_Props
begin

text \<open>
  The properties of the Gummyroll program. \<open>hash_nonzero\<close> states that the hash of no pair is the
  all-zero node, which the canopy uses to mark nodes that were never written. The witnesses use a
  tree of depth 3 with a buffer of 8 change logs and a canopy of one level.
\<close>

section \<open>A small account\<close>

lemma init_empty_gummyroll_ok:
  assumes sup: "(unat max_depth, unat max_buffer_size) \<in> set supported_dims" and p: "p \<le> unat max_depth"
    and len: "data_len = 80 + merkle_roll_size (unat max_depth) (unat max_buffer_size) + 32 * (2 ^ Suc p - 2)"
  shows "\<exists>ev acc. init_empty_gummyroll H tree_id auth append_auth clock_slot max_depth max_buffer_size
    (Zeroed data_len) = Inr (ev, acc)"
proof -
  have dims: "dims (unat max_depth) (unat max_buffer_size)"
    by (rule supported_dims_dims [OF sup])
  obtain roll where "initialize H (unat max_depth) (unat max_buffer_size)
      (merkle_roll_new (unat max_depth) (unat max_buffer_size)) =
      Inr (tree_root H (unat max_depth) no_leaves, roll)"
    using initialize_spec [OF dims] by blast
  moreover have "get_cached_path_length (replicate (2 ^ Suc p - 2) EMPTY) (unat max_depth) = Inr p"
    by (rule get_cached_path_length_eq) (use p dims in \<open>auto simp: dims_def\<close>)
  ultimately show ?thesis
    using sup len
    by (simp add: init_empty_gummyroll_def header_initialize_def zero_header_def zeroed_parts_def
        merkle_roll_get_size_def merkle_roll_apply_fn_def merkle_roll_depth_size_apply_fn_def Let_def
        update_canopy_def check_canopy_bytes_def canopy_bytes_len_def del: power_Suc)
qed

lemma toy_hash_nonzero: "hash_nonzero toy_hash"
  by (simp add: hash_nonzero_def toy_hash_def EMPTY_def numeral_eq_Suc)

lemma toy_account:
  "\<exists>ev acc. init_empty_gummyroll toy_hash [1] [2] [3] 0 3 8 (Zeroed 1392) = Inr (ev, acc)"
  by (rule init_empty_gummyroll_ok [where p = 1])
    (simp_all add: supported_dims_def merkle_roll_size_def)

lemma toy_account_inv:
  obtains acc where "gr_run toy_hash [1] acc no_leaves" "gummyroll_inv toy_hash acc [no_leaves]"
    "next_leaf (gr_roll acc) = 0" "hd_authority (gr_header acc) = [2]"
    "hd_append_authority (gr_header acc) = [3]" "gr_depth acc = 3" "gr_buffer acc = 8"
proof -
  obtain ev acc where acc: "init_empty_gummyroll toy_hash [1] [2] [3] 0 3 8 (Zeroed 1392) = Inr (ev, acc)"
    using toy_account by blast
  have small: "(1392 :: nat) < 2 ^ 32" by simp
  show thesis
    by (rule that [OF gr_run.init [OF acc small]])
      (use init_empty_gummyroll_inv [OF acc small toy_hash_nonzero] in auto)
qed

section \<open>Runs\<close>



text \<open>
  C9. Every successful instruction of a run is a step of the abstract specification: leaves are
  replaced and appended only as the tree's authorities permit and only where the claimed contents
  are the current ones, and only the authority changes the authorities.
\<close>

theorem gummyroll_run_refines:
  assumes "gr_run H tree_id acc L" and "hash_nonzero H"
    and "gr_exec H tree_id instr acc = Inr (ev, acc')" and "\<not> gr_instr_collides H acc L instr"
  shows "gr_spec (gr_depth acc) instr (gr_abs acc L) (gr_abs acc' (indexed_event ev L))"
proof -
  obtain hist where "gummyroll_inv H acc hist" "hist ! 0 = L"
    using gr_run_inv [OF assms(1,2)] by blast
  then show ?thesis
    using gr_exec_simulates [OF _ assms(3)] assms(4) by auto
qed

theorem gummyroll_run_refines_witness:
  "\<exists>acc ev acc'. gr_exec toy_hash [1] (AppendLeaf [2] [3] [7]) acc = Inr (ev, acc') \<and>
    gr_spec 3 (AppendLeaf [2] [3] [7]) (gr_abs acc no_leaves) (gr_abs acc' (indexed_event ev no_leaves))"
proof -
  obtain acc where acc: "gr_run toy_hash [1] acc no_leaves" "gummyroll_inv toy_hash acc [no_leaves]"
    "next_leaf (gr_roll acc) = 0" "hd_authority (gr_header acc) = [2]"
    "hd_append_authority (gr_header acc) = [3]" "gr_depth acc = 3"
    by (rule toy_account_inv)
  obtain ev acc' where ev: "gummyroll_append toy_hash [1] [2] [3] [7] acc = Inr (ev, acc')"
    using gummyroll_append_ok [OF acc(2,4,5), of "[7]" "[1]"] acc(3,6) by auto
  then have exec: "gr_exec toy_hash [1] (AppendLeaf [2] [3] [7]) acc = Inr (Some ev, acc')"
    by simp
  moreover have "gr_spec 3 (AppendLeaf [2] [3] [7]) (gr_abs acc no_leaves)
      (gr_abs acc' (indexed_event (Some ev) no_leaves))"
    using gummyroll_run_refines [OF acc(1) toy_hash_nonzero exec] acc(6) by simp
  ultimately show ?thesis by blast
qed

text \<open>
  C10. Initialization: an account that \<open>init_empty_gummyroll\<close> accepts is exactly a zeroed account of
  at least the right size, with supported dimensions and a canopy of \<open>2 ^ (p + 1) - 2\<close> nodes for
  some \<open>p\<close> up to the depth. It then stands for the empty tree and has the given authorities.
\<close>

theorem init_empty_gummyroll_spec:
  assumes "hash_nonzero H" and "data_len < 2 ^ 32"
  shows "(\<exists>ev acc. init_empty_gummyroll H tree_id auth append_auth clock_slot max_depth max_buffer_size
      (Zeroed data_len) = Inr (ev, acc)) \<longleftrightarrow>
    (unat max_depth, unat max_buffer_size) \<in> set supported_dims \<and>
    (\<exists>p\<le>unat max_depth. data_len =
      80 + merkle_roll_size (unat max_depth) (unat max_buffer_size) + 32 * (2 ^ Suc p - 2))"
    (is "?ok \<longleftrightarrow> ?dims \<and> ?len")
proof
  assume ?ok
  then obtain ev acc where ok: "init_empty_gummyroll H tree_id auth append_auth clock_slot max_depth
      max_buffer_size (Zeroed data_len) = Inr (ev, acc)" by blast
  note inv = init_empty_gummyroll_inv [OF ok assms(2,1)]
  have sup: ?dims
    using gummyroll_invD(1) [OF inv(1)] inv(5,6) by simp
  let ?size = "merkle_roll_size (unat max_depth) (unat max_buffer_size)"
  have size: "80 + ?size \<le> data_len" "gr_canopy acc = replicate ((data_len - 80 - ?size) div 32) EMPTY"
    "(data_len - 80 - ?size) mod 32 = 0"
    using ok sup by (auto simp: init_empty_gummyroll_def header_initialize_def zero_header_def
        zeroed_parts_def merkle_roll_get_size_def Let_def result_simps update_canopy_def
        check_canopy_bytes_def canopy_bytes_len_def split: if_splits)
  have "length (gr_canopy acc) = 2 ^ Suc (cached_len acc) - 2" "cached_len acc \<le> unat max_depth"
    using canopy_invD(1,2) [OF gummyroll_invD(4) [OF inv(1)]] inv(5) by auto
  moreover have "data_len = 80 + ?size + 32 * ((data_len - 80 - ?size) div 32)"
    using size(1,3) by auto
  ultimately show "?dims \<and> ?len"
    using sup size(2) by (metis length_replicate)
next
  assume "?dims \<and> ?len"
  then show ?ok
    using init_empty_gummyroll_ok by blast
qed

theorem init_empty_gummyroll_spec_witness:
  "\<exists>ev acc. init_empty_gummyroll toy_hash [1] [2] [3] 0 3 8 (Zeroed 1392) = Inr (ev, acc)"
proof -
  have "(unat (3 :: u32), unat (8 :: u32)) \<in> set supported_dims"
    by (simp add: supported_dims_def)
  moreover have "\<exists>p\<le>unat (3 :: u32). (1392 :: nat) =
      80 + merkle_roll_size (unat (3 :: u32)) (unat (8 :: u32)) + 32 * (2 ^ Suc p - 2)"
    by (rule exI [of _ 1]) (simp add: merkle_roll_size_def)
  ultimately show ?thesis
    using init_empty_gummyroll_spec [OF toy_hash_nonzero, of 1392 "[1]" "[2]" "[3]" 0 3 8] by simp
qed

section \<open>Proofs completed from the canopy\<close>

text \<open>
  C11. A client may leave out the nodes the canopy holds: with the lower part of the leaf's proof in
  any remembered tree, \<open>replace_leaf\<close> succeeds if the leaf is unchanged since then, and the account
  then stands for the current tree with this leaf replaced; otherwise it is refused.
\<close>

theorem replace_leaf_with_canopy:
  assumes "gummyroll_inv H acc hist" and "unat i < 2 ^ gr_depth acc"
    and "unat i \<le> next_leaf (gr_roll acc)" and "hd_authority (gr_header acc) = authority"
    and "latest H (gr_depth acc) hist t"
  defines "pv \<equiv> take (gr_depth acc - cached_len acc) (proof_at H (gr_depth acc) (hist ! t) (unat i))"
  shows "if (hist ! t) (unat i) = (hist ! 0) (unat i)
    then \<exists>ev acc'. replace_leaf H tree_id authority (tree_root H (gr_depth acc) (hist ! t))
          ((hist ! t) (unat i)) x i pv acc = Inr (ev, acc') \<and>
        event_root ev = tree_root H (gr_depth acc) ((hist ! 0)(unat i := x)) \<and>
        gummyroll_inv H acc' ((hist ! 0)(unat i := x) # take (gr_buffer acc - 1) hist)
    else replace_leaf H tree_id authority (tree_root H (gr_depth acc) (hist ! t))
          ((hist ! t) (unat i)) x i pv acc = Inl (Err ConcurrentMerkleTreeError)"
proof -
  have rep: "gr_represents H (gr_depth acc) (gr_buffer acc) authority
      (hd_append_authority (gr_header acc)) acc hist"
    using assms(1,4) by (simp add: gr_represents_def)
  show ?thesis
    using replace_leaf_complete [OF assms(1-5), of tree_id x] committed_represents(1,2) [OF _ rep]
    unfolding pv_def by (fastforce simp: gr_represents_def split: if_splits)
qed

theorem replace_leaf_with_canopy_witness:
  "\<exists>acc ev acc'. cached_len acc = 1 \<and>
    replace_leaf toy_hash [1] [2] (tree_root toy_hash 3 no_leaves) EMPTY [9] 0
      (take 2 (proof_at toy_hash 3 no_leaves 0)) acc = Inr (ev, acc')"
proof -
  obtain ev acc where ok: "init_empty_gummyroll toy_hash [1] [2] [3] 0 3 8 (Zeroed 1392) = Inr (ev, acc)"
    using toy_account by blast
  note inv = init_empty_gummyroll_inv [OF ok _ toy_hash_nonzero, simplified]
  have "gr_canopy acc = replicate 2 EMPTY"
    using ok by (auto simp: init_empty_gummyroll_def header_initialize_def zero_header_def
        zeroed_parts_def merkle_roll_get_size_def Let_def result_simps update_canopy_def
        supported_dims_def merkle_roll_size_def)
  then have len: "cached_len acc = 1"
    using get_cached_path_length_eq [of "gr_canopy acc" 1 3] inv(5) by (simp add: cached_len_def)
  have "latest toy_hash (gr_depth acc) [no_leaves] 0"
    by (simp add: latest_def)
  from replace_leaf_with_canopy [OF inv(1) _ _ _ this, of 0 "[2]" "[1]" "[9]"]
  show ?thesis
    using inv(2,3,5) len by auto
qed

text \<open>
  C12. Whatever the account's contents, \<open>replace_leaf\<close> succeeds only for an index inside the tree and
  only under the stored authority. (The library alone accepts the index one past the last leaf of a
  full tree; completing the proof from the canopy panics on it.)
\<close>

theorem replace_leaf_guards:
  assumes "replace_leaf H tree_id authority root prev new i pv acc = Inr (ev, acc')"
    and "length (gr_canopy acc) + 2 < 2 ^ 32"
  shows "unat i < 2 ^ gr_depth acc \<and> hd_authority (gr_header acc) = authority \<and>
    gr_header acc' = gr_header acc"
proof -
  obtain r where fill: "fill_in_proof_from_canopy H (gr_canopy acc) (gr_canopy_rest acc) (gr_depth acc)
      i pv = Inr r" and sup: "(gr_depth acc, gr_buffer acc) \<in> set supported_dims"
    and hdr: "gr_header acc' = gr_header acc"
    using assms(1) by (auto simp: replace_leaf_def Let_def result_simps merkle_roll_get_size_def
        gr_depth_def gr_buffer_def split: if_splits)
  have "gr_depth acc < 31"
    using supported_dims_dims [OF sup] by (simp add: dims_def)
  then show ?thesis
    using fill_in_proof_from_canopy_index [OF fill _ assms(2)] replace_leaf_authority [OF assms(1)] hdr
    by simp
qed

theorem replace_leaf_guards_witness:
  "\<exists>acc ev acc'. replace_leaf toy_hash [1] [2] (tree_root toy_hash 3 no_leaves) EMPTY [9] 0
      (take (3 - cached_len acc) (proof_at toy_hash 3 no_leaves 0)) acc = Inr (ev, acc') \<and>
    unat (0 :: u32) < 2 ^ gr_depth acc \<and> hd_authority (gr_header acc) = [2] \<and>
    gr_header acc' = gr_header acc"
proof -
  obtain acc where acc: "gummyroll_inv toy_hash acc [no_leaves]"
    "next_leaf (gr_roll acc) = 0" "hd_authority (gr_header acc) = [2]" "gr_depth acc = 3"
    by (rule toy_account_inv)
  have "latest toy_hash (gr_depth acc) [no_leaves] 0"
    by (simp add: latest_def)
  then obtain ev acc' where ok: "replace_leaf toy_hash [1] [2] (tree_root toy_hash 3 no_leaves) EMPTY [9] 0
      (take (3 - cached_len acc) (proof_at toy_hash 3 no_leaves 0)) acc = Inr (ev, acc')"
    using replace_leaf_complete [OF acc(1), of 0 "[2]" 0 "[1]" "[9]"] acc(2,3,4) by auto
  have "length (gr_canopy acc) + 2 < 2 ^ 32"
    using canopy_small gummyroll_invD(4,6) [OF acc(1)] by blast
  then show ?thesis
    using replace_leaf_guards [OF ok] ok by blast
qed

section \<open>Events\<close>



end
