(* ===== verification/Bubblegum_Props.thy ===== *)
theory Bubblegum_Props
  imports Bubblegum_Reach Gummyroll_Props
begin

text \<open>
  The properties of Bubblegum. The hypotheses \<open>hash_ok\<close> (no hash is all zero) and \<open>pda_ok\<close> (program
  addresses derived from different seeds differ) are what the program relies on of keccak and of
  address derivation. The witnesses use the concatenating hash and an address derivation that
  concatenates the seeds, last one first.
\<close>

section \<open>A small program state\<close>

lemma bit_ucast_byte:
  fixes m :: u64
  assumes "k < 64"
  shows "bit (ucast (drop_bit (8 * (k div 8)) m) :: u8) (k mod 8) \<longleftrightarrow> bit m k"
  by (simp add: bit_ucast_iff bit_drop_bit_eq)

lemma le_bytes_inj:
  fixes m n :: u64
  assumes "le_bytes 8 m = le_bytes 8 n"
  shows "m = n"
proof (rule bit_word_eqI)
  fix k assume k: "k < LENGTH(64)"
  then have "k div 8 < 8" by simp
  then have "le_bytes 8 m ! (k div 8) = le_bytes 8 n ! (k div 8)" "k div 8 < length [0..<8]"
    using assms by simp_all
  then have "(ucast (drop_bit (8 * (k div 8)) m) :: u8) = ucast (drop_bit (8 * (k div 8)) n)"
    by (simp add: le_bytes_def)
  then show "bit m k \<longleftrightarrow> bit n k"
    using bit_ucast_byte [of k m] bit_ucast_byte [of k n] k by simp
qed

definition toy_pda :: pda where
  "toy_pda seeds = concat (rev seeds)"

lemma toy_pda_ok: "pda_ok toy_pda"
proof -
  have "a = b \<and> m = n" if "voucher_key toy_pda a m = voucher_key toy_pda b n" for a b m n
  proof -
    have "le_bytes 8 m @ (a @ VOUCHER_PREFIX) = le_bytes 8 n @ (b @ VOUCHER_PREFIX)"
      using that by (simp add: voucher_key_def toy_pda_def)
    moreover have "length (le_bytes 8 m) = length (le_bytes 8 n)"
      by (simp add: le_bytes_def)
    ultimately have "le_bytes 8 m = le_bytes 8 n" "a = b"
      by auto
    then show ?thesis
      using le_bytes_inj by blast
  qed
  then show ?thesis
    by (auto simp: pda_ok_def toy_pda_def)
qed

lemma toy_hash_ok: "hash_ok toy_hash"
  by (auto simp: hash_ok_def toy_hash_nonzero leaf_to_node_def toy_hash_def EMPTY_def numeral_eq_Suc
      split: leaf_schema.splits)

abbreviation toy_reach :: "bubblegum_accounts \<Rightarrow> (pubkey \<Rightarrow> assets) \<Rightarrow> bool" where
  "toy_reach \<equiv> bg_reach toy_hash toy_pda (\<lambda>_. [4]) (\<lambda>_ x. Some (x :: unit)) (\<lambda>_ _. True) 0"

definition toy_message :: metadata_args where
  "toy_message = \<lparr>ma_name = ''a'', ma_symbol = '''', ma_uri = '''', ma_seller_fee_basis_points = 0,
     ma_primary_sale_happened = False, ma_is_mutable = False, ma_edition_nonce = None,
     ma_token_standard = None, ma_collection = None, ma_uses = None,
     ma_token_program_version = Original, ma_creators = []\<rparr>"

definition toy_leaf :: leaf_schema where
  "toy_leaf = LeafV1 (get_asset_id toy_pda [5] 0) [7] [8] 0 (toy_hash [[4]]) (hash_creators toy_hash [])"

lemma toy_created:
  obtains w0 evs w where "toy_reach w0 (\<lambda>_ _. None)"
    "create_tree toy_hash toy_pda 0 [5] [3] 3 8 w0 = Inr (evs, w)"
    "\<exists>acc. live_tree [5] w = Inr acc \<and> next_leaf (gr_roll acc) = 0 \<and>
      hd_append_authority (gr_header acc) = [3] \<and> gr_depth acc = 3"
proof -
  define w0 :: bubblegum_accounts where
    "w0 = \<lparr>ba_trees = [[5] \<mapsto> Zeroed 1392], ba_nonces = Map.empty, ba_vouchers = Map.empty\<rparr>"
  have r0: "toy_reach w0 (\<lambda>_ _. None)"
    by (rule bg_reach.genesis) (auto simp: w0_def)
  obtain ev acc where init: "init_empty_gummyroll toy_hash [5] (toy_pda [[5]]) [3] 0 3 8 (Zeroed 1392) =
      Inr (ev, acc)"
    using init_empty_gummyroll_ok [of 3 8 1 1392 toy_hash "[5]" "toy_pda [[5]]" "[3]" 0]
    by (auto simp: supported_dims_def merkle_roll_size_def)
  define w where "w = w0\<lparr>ba_trees := (ba_trees w0)([5] \<mapsto> Live acc),
      ba_nonces := (ba_nonces w0)(toy_pda [[5]] \<mapsto> 0)\<rparr>"
  have "create_tree toy_hash toy_pda 0 [5] [3] 3 8 w0 = Inr ([ChangeLogEvent ev], w)"
    by (simp add: create_tree_def w0_def init w_def)
  moreover have "live_tree [5] w = Inr acc"
    by (simp add: live_tree_def w_def)
  moreover have small: "(1392 :: nat) < 2 ^ 32" by simp
  ultimately show thesis
    using that [OF r0] init_empty_gummyroll_inv [OF init small toy_hash_nonzero] by simp
qed

lemma toy_tree:
  obtains w acc hist where "toy_reach w (\<lambda>_ _. None)" "live_tree [5] w = Inr acc"
    "bg_rep toy_hash toy_pda [5] w acc hist (\<lambda>_. None)" "next_leaf (gr_roll acc) = 0"
    "hd_append_authority (gr_header acc) = [3]" "gr_depth acc = 3"
proof -
  obtain w0 evs w where w: "toy_reach w0 (\<lambda>_ _. None)"
    "create_tree toy_hash toy_pda 0 [5] [3] 3 8 w0 = Inr (evs, w)"
    "\<exists>acc. live_tree [5] w = Inr acc \<and> next_leaf (gr_roll acc) = 0 \<and>
      hd_append_authority (gr_header acc) = [3] \<and> gr_depth acc = 3"
    by (rule toy_created)
  have r: "toy_reach w (\<lambda>_ _. None)"
    by (rule bg_reach.create [OF w(1,2)])
  obtain acc where acc: "live_tree [5] w = Inr acc" "next_leaf (gr_roll acc) = 0"
    "hd_append_authority (gr_header acc) = [3]" "gr_depth acc = 3"
    using w(3) by blast
  obtain hist where rep: "bg_rep toy_hash toy_pda [5] w acc hist (\<lambda>_. None)"
    using bg_reach_rep [OF r toy_hash_ok toy_pda_ok acc(1)] by blast
  show thesis
    by (rule that [OF r acc(1) rep acc(2-4)])
qed

lemma toy_minted:
  obtains w AA acc hist where "toy_reach w AA" "live_tree [5] w = Inr acc" "AA [5] = [0 \<mapsto> toy_leaf]"
    "bg_rep toy_hash toy_pda [5] w acc hist (AA [5])" "next_leaf (gr_roll acc) = 1"
    "hd_append_authority (gr_header acc) = [3]" "gr_depth acc = 3"
proof -
  obtain w acc hist where w: "toy_reach w (\<lambda>_ _. None)" "live_tree [5] w = Inr acc"
    "bg_rep toy_hash toy_pda [5] w acc hist (\<lambda>_. None)" "next_leaf (gr_roll acc) = 0"
    "hd_append_authority (gr_header acc) = [3]" "gr_depth acc = 3"
    by (rule toy_tree)
  have tree: "tree_rep toy_hash toy_pda [5] w acc hist (\<lambda>_. None)"
    using w(3) by (simp add: bg_rep_def)
  obtain evs w' where mint: "bg_exec toy_hash toy_pda (\<lambda>_. [4]) [5] (MintV1 [3] [7] [8] toy_message) w =
      Inr (evs, w')"
    using mint_v1_ok [OF tree toy_hash_ok w(5), of "\<lambda>_. [4]" "[7]" "[8]" toy_message] w(4,6) by auto
  have free: "\<not> bg_collides toy_hash toy_pda [5] w acc (\<lambda>_. None) (MintV1 [3] [7] [8] toy_message)"
    by (simp add: bg_collides_def)
  obtain acc' hist' where rep': "bg_rep toy_hash toy_pda [5] w' acc' hist' (indexed_assets evs (\<lambda>_. None))"
    and hdr: "gr_header acc' = gr_header acc"
    and spec: "bg_spec toy_hash toy_pda (\<lambda>_. [4]) [5] (gr_depth acc) [3] (MintV1 [3] [7] [8] toy_message)
      (bg_abs toy_pda [5] w acc (\<lambda>_. None)) (bg_abs toy_pda [5] w' acc' (indexed_assets evs (\<lambda>_. None)))"
    using bg_exec_simulates [OF w(3) toy_hash_ok toy_pda_ok mint free] w(5)
    by (auto simp: bg_simulates_def)
  have A: "indexed_assets evs (\<lambda>_. None) = [0 \<mapsto> toy_leaf]" "next_leaf (gr_roll acc') = 1"
    using spec unfolding bg_abs_def w(4)
    by (auto simp: toy_leaf_def toy_message_def unat_eq_zero elim!: bg_spec_MintE)
  show thesis
    by (rule that [OF bg_reach.step [OF w(1) mint w(2) free] bg_rep_live [OF rep']])
      (use rep' hdr w(5,6) A in \<open>auto simp: gr_depth_def\<close>)
qed

section \<open>Runs\<close>



text \<open>
  C15. No asset exists twice. In every reachable state, in each tree: an asset in the tree sits at the
  leaf whose index is its nonce and has the id derived from tree and nonce; an asset held as a voucher
  has an empty leaf; all nonces are below the number of assets minted; and the stored root is the root
  over the hashes of exactly these assets.
\<close>

theorem bubblegum_assets_unique:
  assumes "bg_reach H pda ser invoke data_is_empty rent w AA" and "hash_ok H" and "pda_ok pda"
    and "live_tree slab w = Inr acc"
  shows "(\<forall>i s. AA slab i = Some s \<longrightarrow> unat (ls_nonce s) = i \<and> i < next_leaf (gr_roll acc) \<and>
        ls_id s = get_asset_id pda slab (ls_nonce s)) \<and>
    (\<forall>n s. vouchers_of pda slab w n = Some s \<longrightarrow>
        ls_nonce s = n \<and> AA slab (unat n) = None \<and> unat n < next_leaf (gr_roll acc)) \<and>
    cl_root (get_change_log (gr_roll acc)) = tree_root H (gr_depth acc) (leaf_of H \<circ> AA slab)"
proof -
  obtain hist where rep: "bg_rep H pda slab w acc hist (AA slab)"
    using bg_reach_rep [OF assms] by blast
  have tree: "tree_rep H pda slab w acc hist (AA slab)"
    and vou: "voucher_rep pda slab w (AA slab) (next_leaf (gr_roll acc))"
    using rep by (auto simp: bg_rep_def)
  have "i < next_leaf (gr_roll acc)" if "AA slab i = Some s" for i s
    using tree_rep_empty [OF tree assms(2), of i] that by (cases "next_leaf (gr_roll acc) \<le> i") auto
  moreover have "ls_nonce s = n \<and> AA slab (unat n) = None \<and> unat n < next_leaf (gr_roll acc)"
    if v: "vouchers_of pda slab w n = Some s" for n s
  proof -
    obtain v where "ba_vouchers w (voucher_key pda slab n) = Some v" "s = vo_leaf_schema v"
      using v by (auto simp: vouchers_of_def)
    then show ?thesis
      using voucher_repD [OF vou] by blast
  qed
  moreover have "cl_root (get_change_log (gr_roll acc)) = tree_root H (gr_depth acc) (leaf_of H \<circ> AA slab)"
    using current_root [of H] gummyroll_invD(3) [OF tree_repD(2) [OF tree]] leaves_of_assets [OF tree]
    by (metis roll_inv_def)
  ultimately show ?thesis
    using tree_repD(5,6) [OF tree] by blast
qed

theorem bubblegum_assets_unique_witness:
  "\<exists>w AA acc. toy_reach w AA \<and> live_tree [5] w = Inr acc \<and> AA [5] = [0 \<mapsto> toy_leaf] \<and>
    cl_root (get_change_log (gr_roll acc)) = tree_root toy_hash (gr_depth acc) (leaf_of toy_hash \<circ> AA [5])"
proof -
  obtain w AA acc hist where w: "toy_reach w AA" "live_tree [5] w = Inr acc" "AA [5] = [0 \<mapsto> toy_leaf]"
    "bg_rep toy_hash toy_pda [5] w acc hist (AA [5])" "next_leaf (gr_roll acc) = 1"
    "hd_append_authority (gr_header acc) = [3]" "gr_depth acc = 3"
    by (rule toy_minted)
  then show ?thesis
    using bubblegum_assets_unique [OF w(1) toy_hash_ok toy_pda_ok w(2)] by blast
qed

section \<open>Single instructions\<close>

text \<open>
  C16. A transfer needs consent: if it succeeds in a reachable state then the asset stored at that
  leaf has exactly the given owner and delegate, one of the two signed, and afterwards the asset
  belongs to the new owner with no other delegate, all else about it unchanged.
\<close>

theorem transfer_needs_consent:
  assumes "bg_reach H pda ser invoke data_is_empty rent w AA" and "hash_ok H" and "pda_ok pda"
    and "transfer H pda slab owner owner_signs delegate delegate_signs new_owner pv root dh ch nonce i w =
      Inr (evs, w')"
    and "live_tree slab w = Inr acc"
    and "\<not> bg_collides H pda slab w acc (AA slab)
      (Transfer owner owner_signs delegate delegate_signs new_owner pv root dh ch nonce i)"
  shows "(owner_signs \<or> delegate_signs) \<and>
    (\<exists>s. AA slab (unat i) = Some s \<and> ls_owner s = owner \<and> ls_delegate s = delegate \<and>
      indexed_assets evs (AA slab) = (AA slab)(unat i \<mapsto>
        LeafV1 (ls_id s) new_owner new_owner (ls_nonce s) (ls_data_hash s) (ls_creator_hash s)))"
proof -
  obtain hist where rep: "bg_rep H pda slab w acc hist (AA slab)"
    using bg_reach_rep [OF assms(1-3,5)] by blast
  from transfer_simulates [OF rep assms(2,4,6), of ser] show ?thesis
    by (auto simp: bg_simulates_def bg_abs_def elim!: bg_spec_TransferE)
qed

theorem transfer_needs_consent_witness:
  "\<exists>w AA acc pv root evs w'. toy_reach w AA \<and> live_tree [5] w = Inr acc \<and>
    transfer toy_hash toy_pda [5] [7] True [8] False [9] pv root (toy_hash [[4]])
      (hash_creators toy_hash []) 0 0 w = Inr (evs, w') \<and>
    indexed_assets evs (AA [5]) 0 = Some (LeafV1 (get_asset_id toy_pda [5] 0) [9] [9] 0 (toy_hash [[4]])
      (hash_creators toy_hash []))"
proof -
  obtain w AA acc hist where w: "toy_reach w AA" "live_tree [5] w = Inr acc" "AA [5] = [0 \<mapsto> toy_leaf]"
    "bg_rep toy_hash toy_pda [5] w acc hist (AA [5])" "next_leaf (gr_roll acc) = 1"
    "hd_append_authority (gr_header acc) = [3]" "gr_depth acc = 3"
    by (rule toy_minted)
  define pv where "pv = take (gr_depth acc - cached_len acc) (proof_at toy_hash (gr_depth acc) (hist ! 0) 0)"
  define root where "root = tree_root toy_hash (gr_depth acc) (hist ! 0)"
  let ?new = "LeafV1 (get_asset_id toy_pda [5] 0) [9] [9] 0 (toy_hash [[4]]) (hash_creators toy_hash [])"
  have tree: "tree_rep toy_hash toy_pda [5] w acc hist (AA [5])"
    using w(4) by (simp add: bg_rep_def)
  obtain ev w' where cpi: "replace_leaf_cpi toy_hash toy_pda [5] pv root (leaf_to_node toy_hash toy_leaf)
      (leaf_to_node toy_hash ?new) 0 w = Inr (ev, w')"
    using replace_cpi_ok [OF tree, of 0 "Some ?new"] w(3,5) by (auto simp: pv_def root_def)
  have nonce: "ba_nonces w (toy_pda [[5]]) \<noteq> None"
    using bg_rep_nonce [OF w(4)] .
  then have ok: "transfer toy_hash toy_pda [5] [7] True [8] False [9] pv root (toy_hash [[4]])
      (hash_creators toy_hash []) 0 0 w = Inr ([LeafSchemaEvent (leaf_to_event toy_hash ?new), ev], w')"
    using cpi by (auto simp: transfer_def authority_nonce_def Let_def leaf_new_v0_def toy_leaf_def)
  have free: "\<not> bg_collides toy_hash toy_pda [5] w acc (AA [5])
      (Transfer [7] True [8] False [9] pv root (toy_hash [[4]]) (hash_creators toy_hash []) 0 0)"
    using transfer_not_collides [OF tree, of 0 toy_leaf True False "[9]"] w(3,5)
    by (simp add: pv_def root_def current_proof_def toy_leaf_def)
  obtain s where s: "AA [5] (unat (0 :: u32)) = Some s"
    "indexed_assets [LeafSchemaEvent (leaf_to_event toy_hash ?new), ev] (AA [5]) = (AA [5])(unat (0 :: u32) \<mapsto>
      LeafV1 (ls_id s) [9] [9] (ls_nonce s) (ls_data_hash s) (ls_creator_hash s))"
    using transfer_needs_consent [OF w(1) toy_hash_ok toy_pda_ok ok w(2) free] by blast
  have "s = toy_leaf"
    using s(1) w(3) by simp
  then have "indexed_assets [LeafSchemaEvent (leaf_to_event toy_hash ?new), ev] (AA [5]) 0 = Some ?new"
    unfolding s(2) by (simp add: toy_leaf_def)
  then show ?thesis
    using w(1,2) ok by blast
qed

text \<open>
  C17. In a reachable state, minting succeeds exactly if the tree is not full and the signer is the
  tree's append authority.
\<close>

theorem mint_v1_succeeds_iff:
  assumes "bg_reach H pda ser invoke data_is_empty rent w AA" and "hash_ok H" and "pda_ok pda"
    and "live_tree slab w = Inr acc"
  shows "(\<exists>evs w'. mint_v1 H pda ser slab mint_authority owner delegate message w = Inr (evs, w')) \<longleftrightarrow>
    hd_append_authority (gr_header acc) = mint_authority \<and> next_leaf (gr_roll acc) < 2 ^ gr_depth acc"
proof -
  obtain hist where rep: "bg_rep H pda slab w acc hist (AA slab)"
    using bg_reach_rep [OF assms] by blast
  then have tree: "tree_rep H pda slab w acc hist (AA slab)"
    by (simp add: bg_rep_def)
  have "hd_append_authority (gr_header acc) = mint_authority \<and> next_leaf (gr_roll acc) < 2 ^ gr_depth acc"
    if "mint_v1 H pda ser slab mint_authority owner delegate message w = Inr (evs, w')" for evs w'
    using mint_simulates [OF rep that] by (auto simp: bg_simulates_def bg_abs_def elim!: bg_spec_MintE)
  then show ?thesis
    using mint_v1_ok [OF tree assms(2)] by blast
qed

theorem mint_v1_succeeds_iff_witness:
  "\<exists>w evs w'. mint_v1 toy_hash toy_pda (\<lambda>_. [4]) [5] [3] [7] [8] toy_message w = Inr (evs, w')"
proof -
  obtain w acc hist where w: "toy_reach w (\<lambda>_ _. None)" "live_tree [5] w = Inr acc"
    "bg_rep toy_hash toy_pda [5] w acc hist (\<lambda>_. None)" "next_leaf (gr_roll acc) = 0"
    "hd_append_authority (gr_header acc) = [3]" "gr_depth acc = 3"
    by (rule toy_tree)
  show ?thesis
    using mint_v1_succeeds_iff [OF w(1) toy_hash_ok toy_pda_ok w(2), of "[3]" "[7]" "[8]" toy_message]
      w(4,5,6) by auto
qed

text \<open>
  The two halves of a redemption on the tree: the leaf is emptied and the voucher opened, then the
  leaf written back and the voucher closed.
\<close>

definition canopy_proof :: "hashv \<Rightarrow> gummyroll_account \<Rightarrow> nat \<Rightarrow> leaves \<Rightarrow> node list" where
  "canopy_proof H acc j L = take (gr_depth acc - cached_len acc) (proof_at H (gr_depth acc) L j)"

lemma redeem_ok:
  assumes tree: "tree_rep H pda slab w acc hist A" and L: "hist ! 0 = L"
    and lt: "unat i < next_leaf (gr_roll acc)" and A: "A (unat i) = Some s"
    and id: "ls_id s = get_asset_id pda slab (ls_nonce s)"
    and none: "ba_vouchers w (voucher_key pda slab (ls_nonce s)) = None"
  shows "\<exists>evs w1 acc1 hist1. redeem H pda slab (ls_owner s) (ls_delegate s)
      (canopy_proof H acc (unat i) L) (tree_root H (gr_depth acc) L) (ls_data_hash s)
      (ls_creator_hash s) (ls_nonce s) i w = Inr (evs, w1) \<and>
    tree_rep H pda slab w1 acc1 hist1 (A(unat i := None)) \<and> hist1 ! 0 = L(unat i := EMPTY) \<and>
    gr_depth acc1 = gr_depth acc \<and> cached_len acc1 = cached_len acc \<and>
    next_leaf (gr_roll acc1) = next_leaf (gr_roll acc) \<and>
    ba_vouchers w1 = (ba_vouchers w)(voucher_key pda slab (ls_nonce s) \<mapsto> voucher_new s i slab)"
proof -
  have s: "leaf_new_v0 (get_asset_id pda slab (ls_nonce s)) (ls_owner s) (ls_delegate s) (ls_nonce s)
      (ls_data_hash s) (ls_creator_hash s) = s"
    using id by (cases s) (simp add: leaf_new_v0_def)
  obtain c where nonce: "ba_nonces w (pda [slab]) = Some c"
    using tree by (auto simp: tree_rep_def)
  obtain ev u acc1 hist1 where cpi: "replace_leaf_cpi H pda slab (canopy_proof H acc (unat i) L)
      (tree_root H (gr_depth acc) L) (leaf_to_node H s) EMPTY i w = Inr (ev, u)"
    and u: "tree_rep H pda slab u acc1 hist1 (A(unat i := None))"
      "hist1 ! 0 = L(unat i := EMPTY)" "gr_header acc1 = gr_header acc" "cached_len acc1 = cached_len acc"
      "next_leaf (gr_roll acc1) = next_leaf (gr_roll acc)" "ba_vouchers u = ba_vouchers w"
    using replace_cpi_ok [OF tree lt, of None] A
    by (auto simp: canopy_proof_def L simp del: fun_upd_apply)
  define w1 where "w1 = u\<lparr>ba_vouchers := (ba_vouchers u)(voucher_key pda slab (ls_nonce s) \<mapsto>
      voucher_new s i slab)\<rparr>"
  have "redeem H pda slab (ls_owner s) (ls_delegate s) (canopy_proof H acc (unat i) L)
      (tree_root H (gr_depth acc) L) (ls_data_hash s) (ls_creator_hash s) (ls_nonce s) i w =
    Inr ([LeafSchemaEvent (leaf_to_event H s), ev], w1)"
    using cpi none nonce by (simp add: redeem_def authority_nonce_def Let_def s w1_def)
  moreover have "tree_rep H pda slab w1 acc1 hist1 (A(unat i := None))"
    using u(1) by (simp add: tree_rep_def w1_def)
  moreover have "gr_depth acc1 = gr_depth acc"
    using u(3) by (simp add: gr_depth_def)
  moreover have "ba_vouchers w1 = (ba_vouchers w)(voucher_key pda slab (ls_nonce s) \<mapsto>
      voucher_new s i slab)"
    by (simp add: w1_def u(6))
  ultimately show ?thesis
    using u(2,4,5) by blast
qed

lemma cancel_redeem_ok:
  assumes tree: "tree_rep H pda slab w acc hist A" and L: "hist ! 0 = L"
    and lt: "unat i < next_leaf (gr_roll acc)" and A: "A (unat i) = None"
    and id: "ls_id s = get_asset_id pda slab (ls_nonce s)" and n: "unat (ls_nonce s) = unat i"
    and vou: "ba_vouchers w (voucher_key pda slab (ls_nonce s)) = Some (voucher_new s i slab)"
  shows "\<exists>evs w2 acc2 hist2. cancel_redeem H pda slab (voucher_key pda slab (ls_nonce s)) (ls_owner s)
      (canopy_proof H acc (unat i) L) (tree_root H (gr_depth acc) L) w = Inr (evs, w2) \<and>
    tree_rep H pda slab w2 acc2 hist2 (A(unat i := Some s)) \<and>
    hist2 ! 0 = L(unat i := leaf_to_node H s) \<and> gr_depth acc2 = gr_depth acc \<and>
    ba_vouchers w2 (voucher_key pda slab (ls_nonce s)) = None"
proof -
  obtain c where nonce: "ba_nonces w (pda [slab]) = Some c"
    using tree by (auto simp: tree_rep_def)
  have new: "unat (ls_nonce s') = unat i \<and> ls_id s' = get_asset_id pda slab (ls_nonce s')"
    if "Some s = Some s'" for s'
    using that n id by simp
  obtain ev u acc2 hist2 where cpi: "replace_leaf_cpi H pda slab (canopy_proof H acc (unat i) L)
      (tree_root H (gr_depth acc) L) EMPTY (leaf_to_node H s) i w = Inr (ev, u)"
    and u: "tree_rep H pda slab u acc2 hist2 (A(unat i := Some s))"
      "hist2 ! 0 = L(unat i := leaf_to_node H s)" "gr_header acc2 = gr_header acc"
    using replace_cpi_ok [OF tree lt, of "Some s"] new A
    by (auto simp: canopy_proof_def L simp del: fun_upd_apply)
  define w2 where "w2 = u\<lparr>ba_vouchers := (ba_vouchers u)(voucher_key pda slab (ls_nonce s) := None)\<rparr>"
  have "cancel_redeem H pda slab (voucher_key pda slab (ls_nonce s)) (ls_owner s)
      (canopy_proof H acc (unat i) L) (tree_root H (gr_depth acc) L) w =
    Inr ([LeafSchemaEvent (leaf_to_event H s), ev], w2)"
    using cpi vou nonce
    by (simp add: cancel_redeem_def authority_nonce_def voucher_new_def Let_def
        assert_pubkey_equal_def cmp_pubkeys_def w2_def)
  moreover have "tree_rep H pda slab w2 acc2 hist2 (A(unat i := Some s))"
    using u(1) by (simp add: tree_rep_def w2_def)
  moreover have "gr_depth acc2 = gr_depth acc"
    using u(3) by (simp add: gr_depth_def)
  ultimately show ?thesis
    using u(2) by (auto simp: w2_def)
qed

text \<open>
  C18. Redeeming an asset and cancelling the redemption is a round trip: with the current root and
  the proof without the nodes the canopy holds, \<open>redeem\<close> succeeds for the asset's owner and creates
  the voucher, then \<open>cancel_redeem\<close> succeeds for the owner, closes the voucher, and the tree has the
  root it had before.
\<close>

theorem redeem_cancel_roundtrip:
  assumes "bg_reach H pda ser invoke data_is_empty rent w AA" and "hash_ok H" and "pda_ok pda"
    and "live_tree slab w = Inr acc" and "AA slab (unat i) = Some s"
  defines "d \<equiv> gr_depth acc" and "L \<equiv> leaf_of H \<circ> AA slab" and "n \<equiv> ls_nonce s"
  defines "pf \<equiv> \<lambda>L. take (gr_depth acc - cached_len acc) (proof_at H (gr_depth acc) L (unat i))"
  shows "\<exists>evs w1 evs' w2 acc2.
    redeem H pda slab (ls_owner s) (ls_delegate s) (pf L) (tree_root H d L) (ls_data_hash s)
      (ls_creator_hash s) n i w = Inr (evs, w1) \<and>
    vouchers_of pda slab w1 n = Some s \<and>
    cancel_redeem H pda slab (voucher_key pda slab n) (ls_owner s) (pf (L(unat i := EMPTY)))
      (tree_root H d (L(unat i := EMPTY))) w1 = Inr (evs', w2) \<and>
    vouchers_of pda slab w2 n = None \<and> live_tree slab w2 = Inr acc2 \<and>
    cl_root (get_change_log (gr_roll acc2)) = tree_root H d L"
proof -
  obtain hist where rep: "bg_rep H pda slab w acc hist (AA slab)"
    using bg_reach_rep [OF assms(1-4)] by blast
  have tree: "tree_rep H pda slab w acc hist (AA slab)"
    and vou: "voucher_rep pda slab w (AA slab) (next_leaf (gr_roll acc))"
    using rep by (auto simp: bg_rep_def)
  note repD = tree_repD [OF tree]
  have L: "hist ! 0 = L"
    using leaves_of_assets [OF tree] by (simp add: L_def)
  have n: "unat n = unat i" and aid: "ls_id s = get_asset_id pda slab n"
    using repD(5,6) [OF assms(5)] by (simp_all add: n_def)
  have lt: "unat i < next_leaf (gr_roll acc)"
    using tree_rep_empty [OF tree assms(2), of "unat i"] assms(5)
    by (cases "next_leaf (gr_roll acc) \<le> unat i") auto
  have none: "ba_vouchers w (voucher_key pda slab n) = None"
    using voucher_repD [OF vou, of n] assms(5) n by (cases "ba_vouchers w (voucher_key pda slab n)") auto
  have pf: "pf L' = canopy_proof H acc (unat i) L'" for L'
    by (simp add: pf_def canopy_proof_def)
  obtain evs w1 acc1 hist1 where redeem: "redeem H pda slab (ls_owner s) (ls_delegate s) (pf L)
      (tree_root H d L) (ls_data_hash s) (ls_creator_hash s) n i w = Inr (evs, w1)"
    and w1: "tree_rep H pda slab w1 acc1 hist1 ((AA slab)(unat i := None))"
      "hist1 ! 0 = L(unat i := EMPTY)" "gr_depth acc1 = d" "cached_len acc1 = cached_len acc"
      "next_leaf (gr_roll acc1) = next_leaf (gr_roll acc)"
      "ba_vouchers w1 = (ba_vouchers w)(voucher_key pda slab n \<mapsto> voucher_new s i slab)"
    using redeem_ok [OF tree L lt assms(5)] aid none by (auto simp: n_def d_def pf)
  have lt1: "unat i < next_leaf (gr_roll acc1)"
    using lt w1(5) by simp
  have pf1: "canopy_proof H acc1 (unat i) L' = pf L'" for L'
    using w1(3,4) by (simp add: pf_def canopy_proof_def d_def)
  obtain evs' w2 acc2 hist2 where cancel: "cancel_redeem H pda slab (voucher_key pda slab n)
      (ls_owner s) (pf (L(unat i := EMPTY))) (tree_root H d (L(unat i := EMPTY))) w1 = Inr (evs', w2)"
    and w2: "tree_rep H pda slab w2 acc2 hist2 ((AA slab)(unat i := None, unat i := Some s))"
      "hist2 ! 0 = L(unat i := EMPTY, unat i := leaf_to_node H s)" "gr_depth acc2 = d"
      "ba_vouchers w2 (voucher_key pda slab n) = None"
    using cancel_redeem_ok [OF w1(1,2) lt1 _ aid [unfolded n_def] n [unfolded n_def]] w1(3,6)
    unfolding pf1 n_def by (auto simp del: fun_upd_apply simp: fun_upd_same)
  have "live_tree slab w2 = Inr acc2"
    using tree_repD(1) [OF w2(1)] by (simp add: live_tree_def)
  moreover have "L(unat i := EMPTY, unat i := leaf_to_node H s) = L"
    using assms(5) by (simp add: L_def fun_eq_iff)
  moreover have "cl_root (get_change_log (gr_roll acc2)) = tree_root H d (hist2 ! 0)"
    using current_root [of H] gummyroll_invD(3) [OF tree_repD(2) [OF w2(1)]] w2(3)
    by (metis roll_inv_def)
  moreover have "vouchers_of pda slab w1 n = Some s" "vouchers_of pda slab w2 n = None"
    by (simp_all add: vouchers_of_def w1(6) w2(4) voucher_new_def)
  ultimately show ?thesis
    using redeem cancel w2(2) by metis
qed

theorem redeem_cancel_roundtrip_witness:
  "\<exists>w pv root evs w1. redeem toy_hash toy_pda [5] [7] [8] pv root (toy_hash [[4]])
      (hash_creators toy_hash []) 0 0 w = Inr (evs, w1) \<and>
    vouchers_of toy_pda [5] w1 0 = Some toy_leaf"
proof -
  obtain w AA acc hist where w: "toy_reach w AA" "live_tree [5] w = Inr acc" "AA [5] = [0 \<mapsto> toy_leaf]"
    "bg_rep toy_hash toy_pda [5] w acc hist (AA [5])" "next_leaf (gr_roll acc) = 1"
    "hd_append_authority (gr_header acc) = [3]" "gr_depth acc = 3"
    by (rule toy_minted)
  have s: "AA [5] (unat (0 :: u32)) = Some toy_leaf"
    using w(3) by simp
  have f: "ls_owner toy_leaf = [7]" "ls_delegate toy_leaf = [8]" "ls_nonce toy_leaf = 0"
    "ls_data_hash toy_leaf = toy_hash [[4]]" "ls_creator_hash toy_leaf = hash_creators toy_hash []"
    by (simp_all add: toy_leaf_def)
  from redeem_cancel_roundtrip [OF w(1) toy_hash_ok toy_pda_ok w(2) s, unfolded f] show ?thesis
    by blast
qed




end
