(* ===== verification/Gumball_Props.thy ===== *)
theory Gumball_Props
  imports Gumball_Lines Bubblegum_Props
begin

text \<open>The properties of the gumball machine.\<close>

section \<open>A small machine\<close>

definition toy_env :: gumball_env where
  "toy_env = \<lparr>ge_hashv = toy_hash, ge_bubblegum_pda = toy_pda, ge_pda = (\<lambda>_. [3]), ge_ser = (\<lambda>_. [4]),
     ge_id = [6], ge_compute_budget_id = [1], ge_load_instruction_at = (\<lambda>_ _. Some [6]),
     ge_bs58_encode = (\<lambda>_. ''x''), ge_native_mint = [9]\<rparr>"

definition toy_header :: gumball_machine_header where
  "toy_header = \<lparr>gh_url_base = [104], gh_name_base = [110], gh_symbol = [], gh_seller_fee_basis_points = 0,
     gh_is_mutable = 0, gh_retain_authority = 0, gh_config_line_encode_method = 1, gh_creators = [],
     gh_price = 5, gh_go_live_date = 0, gh_mint = [9], gh_bot_wallet = [], gh_receiver = [10],
     gh_authority = [11], gh_collection_key = default_pubkey, gh_extension_len = 0,
     gh_max_mint_size = 2, gh_remaining = 2, gh_max_items = 2, gh_total_items_added = 0,
     gh_smallest_uninitialized_index = 2\<rparr>"

definition toy_machine :: gumball_account where
  "toy_machine = \<lparr>gm_header = toy_header, gm_config_data = [0, 0, 0, 0, 1, 0, 0, 0]\<rparr>"

lemma toy_machine_data:
  "indices_of toy_machine = [0, 1]" "lines_of toy_machine = []" "gm_header toy_machine = toy_header"
  "remaining_of toy_machine = 2" "gh_max_items toy_header = 2" "gh_extension_len toy_header = 0"
  by (simp_all add: indices_of_def lines_of_def toy_machine_def toy_header_def remaining_of_def
      from_le_bytes_Cons)

lemma toy_env_data:
  "ge_hashv toy_env = toy_hash" "ge_bubblegum_pda toy_env = toy_pda" "ge_ser toy_env = (\<lambda>_. [4])"
  "willy_wonka toy_env machine = [3]" "ge_native_mint toy_env = [9]"
  by (simp_all add: toy_env_def willy_wonka_def)

lemma toy_open: "sale_open toy_env [1, 0] 1 1 toy_machine"
  by (simp add: sale_open_def toy_machine_def toy_header_def toy_env_def
      assert_valid_single_instruction_transaction_def slice_range_def from_le_bytes_Cons)

lemma toy_items: "items_ok toy_env toy_header 0 [] [0, 1]"
  by (auto simp: items_ok_def item_metadata_def toy_header_def get_metadata_args_def Let_def
      encode_method_from_def from_utf8_unwrap_def)

lemma toy_sale:
  obtains w acc evs gm' w' where "toy_reach w (\<lambda>_ _. None)" "live_tree [5] w = Inr acc"
    "next_leaf (gr_roll acc) = 0" "hd_append_authority (gr_header acc) = [3]" "gr_depth acc = 3"
    "find_and_mint_compressed_nfts toy_env [12] [7] rb [1, 0] 1 [5] 1 (toy_machine, w) =
      Inr (evs, 1, gm', w')"
proof -
  obtain w acc hist where w: "toy_reach w (\<lambda>_ _. None)" "live_tree [5] w = Inr acc"
    "bg_rep toy_hash toy_pda [5] w acc hist (\<lambda>_. None)" "next_leaf (gr_roll acc) = 0"
    "hd_append_authority (gr_header acc) = [3]" "gr_depth acc = 3"
    by (rule toy_tree)
  have size: "sale_size 1 toy_machine = 1"
    by (simp add: sale_size_def toy_machine_def toy_header_def)
  obtain evs gm' w' where "find_and_mint_compressed_nfts toy_env [12] [7] rb [1, 0] 1 [5] 1 (toy_machine, w) =
      Inr (evs, 1, gm', w')"
    using find_and_mint_ok [OF toy_open, of "[5]" w acc hist "\<lambda>_. None" "[12]" "[7]" rb]
      w toy_items toy_hash_ok by (auto simp: toy_machine_data toy_env_data size)
  then show thesis
    by (rule that [OF w(1,2,4-6)])
qed

section \<open>Sales\<close>

text \<open>
  C20. A machine never sells an item twice. Take a machine whose indices are initialised, and any
  sequence of purchases (paid in SOL or in tokens), changes of the lines already added, changes of
  the header and changes to the accounts of other programs: the items sold are distinct, they are
  among the items that were for sale, and the items still for sale are exactly the others.
\<close>

theorem gumball_sales_distinct:
  assumes "sales (sale_step E pay_sol pay_token machine) ((gm, w), x) items ((gm', w'), x')"
    and "indices_of gm = map of_nat [0..<max_items_of gm]" and "remaining_of gm \<le> max_items_of gm"
  shows "distinct items \<and> set items \<subseteq> of_nat ` {..<remaining_of gm} \<and>
    pool_of gm' = mset_set (of_nat ` {..<remaining_of gm} - set items)"
proof -
  have "inj_on (of_nat :: nat \<Rightarrow> u32) {..<remaining_of gm}"
  proof (rule inj_onI)
    fix a b assume ab: "a \<in> {..<remaining_of gm}" "b \<in> {..<remaining_of gm}" "(of_nat a :: u32) = of_nat b"
    have "remaining_of gm < 2 ^ 32"
      using unat_bound [of "gh_remaining (gm_header gm)"] by (simp add: remaining_of_def)
    moreover have "unat (of_nat a :: u32) = unat (of_nat b :: u32)"
      by (simp only: ab(3))
    ultimately show "a = b"
      using ab(1,2) by (simp only: unat_of_nat) simp
  qed
  then have "mset_set ((of_nat :: nat \<Rightarrow> u32) ` {..<remaining_of gm}) =
      image_mset of_nat (mset_set {..<remaining_of gm})"
    by (simp add: image_mset_mset_set)
  also have "\<dots> = mset (map (of_nat :: nat \<Rightarrow> u32) [0..<remaining_of gm])"
    by (simp add: atLeast_upt)
  finally have pool: "(pool_of \<circ> fst \<circ> fst) ((gm, w), x) = mset_set (of_nat ` {..<remaining_of gm})"
    using assms(2,3) by (simp add: pool_of_def take_map)
  from gumball.sales_distinct [OF assms(1) pool] show ?thesis
    by simp
qed

theorem gumball_sales_distinct_witness:
  "\<exists>w gm' w'. sales (sale_step toy_env (\<lambda>_ _ _ x. Some (x :: unit)) (\<lambda>_ _ _ _ x. Some x) [12])
      ((toy_machine, w), ()) (dispensed toy_machine gm') ((gm', w'), ()) \<and>
    length (dispensed toy_machine gm') = 1 \<and>
    pool_of gm' = mset_set ({0, 1} - set (dispensed toy_machine gm'))"
proof -
  obtain w acc evs gm' w' where w: "toy_reach w (\<lambda>_ _. None)" "live_tree [5] w = Inr acc"
    "next_leaf (gr_roll acc) = 0" "hd_append_authority (gr_header acc) = [3]" "gr_depth acc = 3"
    "find_and_mint_compressed_nfts toy_env [12] [7] [] [1, 0] 1 [5] 1 (toy_machine, w) = Inr (evs, 1, gm', w')"
    by (rule toy_sale)
  note inv = find_and_mint_inv [OF w(6)]
  have mul: "checked_mul 5 (ucast (1 :: u32)) = Some (5 :: u64)"
    by (simp add: checked_mul_def)
  have "dispense_nft_sol toy_env (\<lambda>_ _ _ x. Some (x :: unit)) [12] [7] [10] [] [1, 0] 1 [5] 1 (toy_machine, w) () =
      Inr (evs, (gm', w'), ())"
    using w(6) inv(3) mul by (simp add: dispense_nft_sol_def Let_def toy_machine_def toy_header_def toy_env_data)
  then have step: "sale_step toy_env (\<lambda>_ _ _ x. Some (x :: unit)) (\<lambda>_ _ _ _ x. Some x) [12]
      ((toy_machine, w), ()) (dispensed toy_machine gm') ((gm', w'), ())"
    by (rule sale_step.sol)
  have s: "sales (sale_step toy_env (\<lambda>_ _ _ x. Some (x :: unit)) (\<lambda>_ _ _ _ x. Some x) [12])
      ((toy_machine, w), ()) (dispensed toy_machine gm') ((gm', w'), ())"
    using sales.sale [where step = "sale_step toy_env (\<lambda>_ _ _ x. Some (x :: unit)) (\<lambda>_ _ _ _ x. Some x) [12]",
        OF step sales.none] by simp
  have two: "(of_nat :: nat \<Rightarrow> u32) ` {..<2} = {0, 1}" "[0..<2] = [0, 1 :: nat]"
    by (auto simp: numeral_eq_Suc lessThan_Suc)
  have "pool_of gm' = mset_set ({0, 1} - set (dispensed toy_machine gm'))"
    using gumball_sales_distinct [OF s] by (simp add: toy_machine_data two)
  then show ?thesis
    using s inv(7) by auto
qed

text \<open>
  C21. What a successful purchase does, whatever the tree and the state of Bubblegum: the sale is
  open; the number of items is the number asked for, at least one, cut to what remains; that many
  items leave the pool; the announced NFTs are those items, in order, with the metadata the header
  and the config lines give them; each is a new leaf of the tree owned by and delegated to the
  payer; and the state of Bubblegum stays reachable.
\<close>

theorem find_and_mint_spec:
  assumes "find_and_mint_compressed_nfts E machine payer rb ins t slab k (gm, w) = Inr (evs, n, gm', w')"
    and "bg_reach (ge_hashv E) (ge_bubblegum_pda E) (ge_ser E) invoke data_is_empty rent w AA"
    and "hash_ok (ge_hashv E)" and "pda_ok (ge_bubblegum_pda E)" and "live_tree slab w = Inr acc"
  shows "sale_open E ins t k gm \<and> n = min (max k 1) (gh_remaining (gm_header gm)) \<and>
    length (dispensed gm gm') = unat n \<and> pool_of gm = pool_of gm' + mset (dispensed gm gm') \<and>
    gm_header gm' = (gm_header gm)\<lparr>gh_remaining := gh_remaining (gm_header gm) - n\<rparr> \<and>
    lines_of gm' = lines_of gm \<and>
    map (\<lambda>i. item_metadata E (gm_header gm) (line_size_of gm) (lines_of gm) (unat i)) (dispensed gm gm') =
      map Inr (new_nfts evs) \<and>
    bg_reach (ge_hashv E) (ge_bubblegum_pda E) (ge_ser E) invoke data_is_empty rent w'
      (AA(slab := indexed_assets evs (AA slab))) \<and>
    (\<exists>acc'. live_tree slab w' = Inr acc' \<and> next_leaf (gr_roll acc') = next_leaf (gr_roll acc) + unat n) \<and>
    (\<forall>j<unat n. \<exists>s. indexed_assets evs (AA slab) (next_leaf (gr_roll acc) + j) = Some s \<and>
      minted_leaf E payer (new_nfts evs ! j) s)"
proof -
  note inv = find_and_mint_inv [OF assms(1)]
  obtain hist where rep: "bg_rep (ge_hashv E) (ge_bubblegum_pda E) slab w acc hist (AA slab)"
    using bg_reach_rep [OF assms(2-5)] by blast
  have len: "length (new_nfts evs) = unat n"
    using arg_cong [OF inv(8), of length] inv(7) by simp
  obtain acc' hist' where m: "bg_rep (ge_hashv E) (ge_bubblegum_pda E) slab w' acc' hist' (indexed_assets evs (AA slab))"
    "next_leaf (gr_roll acc') = next_leaf (gr_roll acc) + unat n"
    "\<forall>j<unat n. \<exists>s. indexed_assets evs (AA slab) (next_leaf (gr_roll acc) + j) = Some s \<and>
      minted_leaf E payer (new_nfts evs ! j) s"
    using mint_all_rep [OF rep inv(9)] unfolding len by blast
  show ?thesis
    using inv(1-7) inv(8) [unfolded comp_def] mint_all_reach [OF assms(2) rep inv(9)] bg_rep_live [OF m(1)] m(2,3)
    unfolding sale_size_def by blast
qed

theorem find_and_mint_spec_witness:
  "\<exists>w acc evs gm' w'. live_tree [5] w = Inr acc \<and>
    find_and_mint_compressed_nfts toy_env [12] [7] [] [1, 0] 1 [5] 1 (toy_machine, w) = Inr (evs, 1, gm', w') \<and>
    (\<exists>s. indexed_assets evs (\<lambda>_. None) 0 = Some s \<and> minted_leaf toy_env [7] (new_nfts evs ! 0) s)"
proof -
  obtain w acc evs gm' w' where w: "toy_reach w (\<lambda>_ _. None)" "live_tree [5] w = Inr acc"
    "next_leaf (gr_roll acc) = 0" "hd_append_authority (gr_header acc) = [3]" "gr_depth acc = 3"
    "find_and_mint_compressed_nfts toy_env [12] [7] [] [1, 0] 1 [5] 1 (toy_machine, w) = Inr (evs, 1, gm', w')"
    by (rule toy_sale)
  have r: "bg_reach (ge_hashv toy_env) (ge_bubblegum_pda toy_env) (ge_ser toy_env) (\<lambda>_ x. Some (x :: unit))
      (\<lambda>_ _. True) 0 w (\<lambda>_ _. None)" "hash_ok (ge_hashv toy_env)" "pda_ok (ge_bubblegum_pda toy_env)"
    unfolding toy_env_data using w(1) toy_hash_ok toy_pda_ok by blast+
  have "\<forall>j<unat (1 :: u32). \<exists>s. indexed_assets evs (\<lambda>_. None) (next_leaf (gr_roll acc) + j) = Some s \<and>
      minted_leaf toy_env [7] (new_nfts evs ! j) s"
    using find_and_mint_spec [OF w(6) r w(2)] by blast
  then show ?thesis
    using w(2,6) unfolding w(3) by auto
qed




end
