(* ===== verification/Gumball_Setup_Props.thy ===== *)
theory Gumball_Setup_Props
  imports Gumball_Props
begin

text \<open>The properties of setting up a gumball machine.\<close>

text \<open>
  C24. Initialising the indices finishes: for a new machine whose indices fit into its account, the
  authority's \<open>k\<close>-th call succeeds and leaves the first \<open>250000 k\<close> indices initialised to their
  positions and the lines alone; after \<open>max_items / 250000\<close> calls, rounded up, the index array is the
  identity and the machine may sell.
\<close>

theorem initialize_indices_complete:
  assumes "gh_smallest_uninitialized_index (gm_header gm) = 0" and "gh_authority (gm_header gm) = auth"
    and "4 * max_items_of gm \<le> length (gm_config_data gm)" and "max_items_of gm + 250000 < 2 ^ 32"
  shows "\<exists>gm'. init_chunks k auth gm = Inr gm' \<and> lines_of gm' = lines_of gm \<and>
    unat (gh_smallest_uninitialized_index (gm_header gm')) = min (k * 250000) (max_items_of gm) \<and>
    take (min (k * 250000) (max_items_of gm)) (indices_of gm') =
      map of_nat [0..<min (k * 250000) (max_items_of gm)] \<and>
    (max_items_of gm \<le> k * 250000 \<longrightarrow> indices_of gm' = map of_nat [0..<max_items_of gm] \<and>
      gh_smallest_uninitialized_index (gm_header gm') = gh_max_items (gm_header gm'))"
proof -
  have "init_upto 0 gm"
    using assms by (simp add: init_upto_def init_fits_def)
  then obtain gm' where g: "init_chunks k auth gm = Inr gm'"
    "init_upto (min (k * 250000) (max_items_of gm)) gm'"
    "gh_max_items (gm_header gm') = gh_max_items (gm_header gm)" "lines_of gm' = lines_of gm"
    using init_chunks_upto [OF _ assms(2)] by blast
  have t: "take (min (k * 250000) (max_items_of gm)) (indices_of gm') =
      map of_nat [0..<min (k * 250000) (max_items_of gm)]"
    "unat (gh_smallest_uninitialized_index (gm_header gm')) = min (k * 250000) (max_items_of gm)"
    using g(2) by (auto simp: init_upto_def init_fits_def)
  have len: "length (indices_of gm') = max_items_of gm"
    using init_fitsD(1) [of "min (k * 250000) (max_items_of gm)" gm'] g(2,3) by (simp add: init_upto_def)
  have "indices_of gm' = map of_nat [0..<max_items_of gm]"
    "gh_smallest_uninitialized_index (gm_header gm') = gh_max_items (gm_header gm')"
    if "max_items_of gm \<le> k * 250000"
    using t that len g(3) by (simp_all add: min_absorb2 word_unat_eq_iff)
  then show ?thesis
    using g(1,4) t by blast
qed

theorem initialize_indices_complete_witness:
  "\<exists>gm'. init_chunks 1 [11] (toy_machine\<lparr>gm_header := toy_header\<lparr>gh_smallest_uninitialized_index := 0\<rparr>\<rparr>) =
      Inr gm' \<and> indices_of gm' = [0, 1]"
proof -
  let ?gm = "toy_machine\<lparr>gm_header := toy_header\<lparr>gh_smallest_uninitialized_index := 0\<rparr>\<rparr>"
  have m: "max_items_of ?gm = 2" "gh_authority (gm_header ?gm) = [11]"
    "4 * max_items_of ?gm \<le> length (gm_config_data ?gm)"
    by (simp_all add: toy_machine_def toy_header_def)
  have two: "[0..<2] = [0, 1 :: nat]" by (simp add: numeral_eq_Suc)
  show ?thesis
    using initialize_indices_complete [of ?gm "[11]" 1] m by (auto simp: two)
qed

text \<open>An update of added lines overwrites their bytes.\<close>

lemma update_config_lines_ok:
  assumes "length (gm_config_data gm) = 4 * max_items_of gm + line_size_of gm * max_items_of gm"
    and "4 * max_items_of gm + line_size_of gm * max_items_of gm < 2 ^ 64" and "line_size_of gm \<noteq> 0"
    and new: "length new = m * line_size_of gm"
    and "unat start + m \<le> unat (gh_total_items_added (gm_header gm))"
    and "unat (gh_total_items_added (gm_header gm)) \<le> max_items_of gm"
  defines "lines' \<equiv> take (unat start * line_size_of gm) (lines_of gm) @ new @
      drop ((unat start + m) * line_size_of gm) (lines_of gm)"
  shows "overwrite (lines_of gm) (unat start * line_size_of gm) new = Inr lines'"
    and "update_config_lines auth start new gm =
      (if gh_authority (gm_header gm) \<noteq> auth then Inl Panic
       else Inr (gm\<lparr>gm_config_data := uncast_u32 (indices_of gm) @ lines'\<rparr>))"
proof -
  let ?l = "line_size_of gm"
  have lines: "length (lines_of gm) = max_items_of gm * ?l"
    using assms(1) by (simp add: lines_of_def)
  have "(unat start + m) * ?l \<le> max_items_of gm * ?l"
    by (rule mult_right_mono) (use assms(5,6) in simp_all)
  then have le: "unat start * ?l + length new \<le> length (lines_of gm)"
    by (simp add: lines new add_mult_distrib)
  moreover have "max_items_of gm * ?l < 2 ^ 64"
    using assms(2) by (simp add: mult.commute)
  ultimately have fits: "length new < 2 ^ 64" "unat start * ?l < 2 ^ 64"
    using lines by linarith+
  have idx: "uncast_u32 (indices_of gm) = take (4 * max_items_of gm) (gm_config_data gm)"
    unfolding indices_of_def
    by (rule uncast_cast [of _ "max_items_of gm"]) (use assms(1) in simp)
  show ow: "overwrite (lines_of gm) (unat start * ?l) new = Inr lines'"
    using le by (simp add: overwrite_def new add_mult_distrib lines'_def)
  have "update_config_lines auth start new gm = Inr gm' \<longleftrightarrow> gh_authority (gm_header gm) = auth \<and>
      gm' = gm\<lparr>gm_config_data := uncast_u32 (indices_of gm) @ lines'\<rparr>" for gm'
    unfolding update_config_lines_eq idx using assms(1-3,5) new fits ow by auto
  moreover have "update_config_lines auth start new gm = Inl Panic"
    if "gh_authority (gm_header gm) \<noteq> auth"
    using that assms(2,3) by (simp add: update_config_lines_def Let_def usize_mul_def)
  ultimately show "update_config_lines auth start new gm =
      (if gh_authority (gm_header gm) \<noteq> auth then Inl Panic
       else Inr (gm\<lparr>gm_config_data := uncast_u32 (indices_of gm) @ lines'\<rparr>))"
    by (cases "gh_authority (gm_header gm) = auth") simp_all
qed

text \<open>
  C25. Updating config lines: for lines already added to a machine whose account has its size, the
  authority's update succeeds, replaces exactly these lines by the new ones, in order, and leaves all
  other lines, the header and the indices alone; anyone else's update fails.
\<close>

theorem update_config_lines_replaces:
  assumes "length (gm_config_data gm) = 4 * max_items_of gm + line_size_of gm * max_items_of gm"
    and "4 * max_items_of gm + line_size_of gm * max_items_of gm < 2 ^ 64" and "line_size_of gm \<noteq> 0"
    and "length new = line_size_of gm * m"
    and "unat start + m \<le> unat (gh_total_items_added (gm_header gm))"
    and "unat (gh_total_items_added (gm_header gm)) \<le> max_items_of gm"
  shows "(update_config_lines auth start new gm =
      (if gh_authority (gm_header gm) \<noteq> auth then Inl Panic
       else Inr (gm\<lparr>gm_config_data := uncast_u32 (indices_of gm) @ take (unat start * line_size_of gm) (lines_of gm) @
          new @ drop ((unat start + m) * line_size_of gm) (lines_of gm)\<rparr>))) \<and>
    (\<forall>gm' j. update_config_lines auth start new gm = Inr gm' \<longrightarrow>
      chunk (line_size_of gm) j (lines_of gm') =
        (if unat start \<le> j \<and> j < unat start + m then chunk (line_size_of gm) (j - unat start) new
         else chunk (line_size_of gm) j (lines_of gm)) \<and>
      indices_of gm' = indices_of gm \<and> gm_header gm' = gm_header gm)"
proof -
  let ?l = "line_size_of gm"
  have new: "length new = m * ?l"
    using assms(4) by simp
  have lines: "length (lines_of gm) = max_items_of gm * ?l"
    using assms(1) by (simp add: lines_of_def)
  have am: "unat start + m \<le> max_items_of gm"
    using assms(5,6) by simp
  have idx: "length (uncast_u32 (indices_of gm)) = 4 * max_items_of gm"
    using assms(1) uncast_cast [of "take (4 * max_items_of gm) (gm_config_data gm)" "max_items_of gm"]
    by (simp add: indices_of_def)
  note ok = update_config_lines_ok [OF assms(1-3) new assms(5,6)]
  have "chunk ?l j (lines_of gm') =
      (if unat start \<le> j \<and> j < unat start + m then chunk ?l (j - unat start) new else chunk ?l j (lines_of gm))"
    if "update_config_lines auth start new gm = Inr gm'" for gm' j
  proof -
    have "lines_of gm' = take (unat start * ?l) (lines_of gm) @ new @ drop ((unat start + m) * ?l) (lines_of gm)"
      using that idx unfolding ok(2) by (auto simp: lines_of_def split: if_splits)
    then show ?thesis
      using chunk_overwrite [OF lines new am ok(1)] by simp
  qed
  then show ?thesis
    using ok(2) update_config_lines_pool(1,2) by blast
qed

theorem update_config_lines_replaces_witness:
  "\<exists>gm gm'. update_config_lines [11] 0 [7, 8] gm = Inr gm' \<and> chunk 2 0 (lines_of gm') = [7, 8] \<and>
    chunk 2 1 (lines_of gm') = [3, 4]"
proof -
  define gm where "gm = toy_machine\<lparr>gm_header := toy_header\<lparr>gh_extension_len := 2, gh_total_items_added := 2\<rparr>,
    gm_config_data := [0, 0, 0, 0, 1, 0, 0, 0, 1, 2, 3, 4]\<rparr>"
  have data: "lines_of gm = [1, 2, 3, 4]" "line_size_of gm = 2" "max_items_of gm = 2"
    "length (gm_config_data gm) = 12" "unat (gh_total_items_added (gm_header gm)) = 2"
    "gh_authority (gm_header gm) = [11]"
    by (simp_all add: gm_def lines_of_def toy_header_def)
  have p: "length (gm_config_data gm) = 4 * max_items_of gm + line_size_of gm * max_items_of gm"
    "4 * max_items_of gm + line_size_of gm * max_items_of gm < 2 ^ 64" "line_size_of gm \<noteq> 0"
    "length [7, 8 :: u8] = line_size_of gm * 1" "unat (0 :: u64) + 1 \<le> unat (gh_total_items_added (gm_header gm))"
    "unat (gh_total_items_added (gm_header gm)) \<le> max_items_of gm"
    by (simp_all add: data)
  note u = update_config_lines_replaces [OF p, of "[11]"]
  obtain gm' where ok: "update_config_lines [11] 0 [7, 8] gm = Inr gm'"
    using conjunct1 [OF u] unfolding data(6) by (simp only: if_False simp_thms)
  have "chunk (line_size_of gm) j (lines_of gm') = (if unat (0 :: u64) \<le> j \<and> j < unat (0 :: u64) + 1
      then chunk (line_size_of gm) (j - unat (0 :: u64)) [7, 8] else chunk (line_size_of gm) j (lines_of gm))" for j
    using conjunct2 [OF u] ok by blast
  then have "chunk 2 j (lines_of gm') = (if j < 1 then chunk 2 j [7, 8] else chunk 2 j [1, 2, 3, 4])" for j
    unfolding data by simp
  from this [of 0] this [of 1] have "chunk 2 0 (lines_of gm') = [7, 8]" "chunk 2 1 (lines_of gm') = [3, 4]"
    by (simp_all add: chunk_def)
  then show ?thesis
    using ok by blast
qed

text \<open>
  Adding config lines: given room for the new lines, the authority's call succeeds, counts the new
  lines as added and for sale, and writes their bytes from the byte offset \<open>total_items_added\<close> on,
  cut at the end of the account; so the first batch reads back as it was given.
\<close>

theorem add_config_lines_writes:
  assumes "length (gm_config_data gm) = 4 * max_items_of gm + line_size_of gm * max_items_of gm"
    and "line_size_of gm \<noteq> 0" and "length new = line_size_of gm * m"
    and "k = unat (gh_total_items_added (gm_header gm))" and "k + m \<le> max_items_of gm"
    and "remaining_of gm \<le> k"
  shows "\<exists>h'. h' = (gm_header gm)\<lparr>gh_total_items_added := gh_total_items_added (gm_header gm) + of_nat m,
      gh_remaining := gh_remaining (gm_header gm) + of_nat m\<rparr> \<and>
    unat (gh_total_items_added h') = k + m \<and> unat (gh_remaining h') = remaining_of gm + m \<and>
    add_config_lines auth new gm =
      (if gh_authority (gm_header gm) \<noteq> auth then Inl Panic
       else Inr \<lparr>gm_header = h', gm_config_data = uncast_u32 (indices_of gm) @ take k (lines_of gm) @
         take (length (lines_of gm) - k) new @ drop (k + length new) (lines_of gm)\<rparr>) \<and>
    (k = 0 \<longrightarrow> (\<forall>gm' j. add_config_lines auth new gm = Inr gm' \<longrightarrow> chunk (line_size_of gm) j (lines_of gm') =
      (if j < m then chunk (line_size_of gm) j new else chunk (line_size_of gm) j (lines_of gm))))"
proof -
  let ?l = "line_size_of gm"
  have lines: "length (lines_of gm) = max_items_of gm * ?l"
    using assms(1) by (simp add: lines_of_def)
  have new: "length new = m * ?l"
    using assms(3) by simp
  have kl: "k \<le> length (lines_of gm)"
    using assms(2,5) by (simp add: lines) (metis One_nat_def Suc_leI add_leD1 le_trans mult.right_neutral mult_le_mono2)
  have mx: "max_items_of gm < 2 ^ 32"
    using unat_bound [of "gh_max_items (gm_header gm)"] by simp
  have m: "unat (of_nat m :: u32) = m"
    using assms(5) mx by (simp add: unat_of_nat)
  have sums: "unat (gh_total_items_added (gm_header gm) + of_nat m) = k + m"
    "unat (gh_remaining (gm_header gm) + of_nat m) = remaining_of gm + m"
    using assms(4-6) mx m by (simp_all add: unat_word_ariths remaining_of_def)
  have idx: "uncast_u32 (indices_of gm) = take (4 * max_items_of gm) (gm_config_data gm)"
    unfolding indices_of_def
    by (rule uncast_cast [of _ "max_items_of gm"]) (use assms(1) in simp)
  have ow: "overwrite (lines_of gm) k new =
      Inr (take k (lines_of gm) @ take (length (lines_of gm) - k) new @ drop (k + length new) (lines_of gm))"
    using kl by (simp add: overwrite_def)
  define gm1 where "gm1 = \<lparr>gm_header = (gm_header gm)\<lparr>gh_total_items_added := gh_total_items_added (gm_header gm) + of_nat m,
      gh_remaining := gh_remaining (gm_header gm) + of_nat m\<rparr>, gm_config_data = uncast_u32 (indices_of gm) @
      take k (lines_of gm) @ take (length (lines_of gm) - k) new @ drop (k + length new) (lines_of gm)\<rparr>"
  have ok: "add_config_lines auth new gm = Inr gm' \<longleftrightarrow> gh_authority (gm_header gm) = auth \<and> gm' = gm1" for gm'
    unfolding add_config_lines_eq idx gm1_def using assms(1-6) mx ow by (auto simp: remaining_of_def)
  have fail: "add_config_lines auth new gm = Inl Panic" if "gh_authority (gm_header gm) \<noteq> auth"
    using that assms(2) mx by (simp add: add_config_lines_def Let_def usize_mul_def)
  have res: "add_config_lines auth new gm = (if gh_authority (gm_header gm) \<noteq> auth then Inl Panic else Inr gm1)"
    using fail ok by (cases "gh_authority (gm_header gm) = auth") simp_all
  have "chunk ?l j (lines_of gm') = (if j < m then chunk ?l j new else chunk ?l j (lines_of gm))"
    if "k = 0" "add_config_lines auth new gm = Inr gm'" for gm' j
  proof -
    have "lines_of gm' = take k (lines_of gm) @ take (length (lines_of gm) - k) new @ drop (k + length new) (lines_of gm)"
      using that(2) ok assms(1) idx by (simp add: lines_of_def gm1_def)
    then show ?thesis
      using chunk_overwrite [OF lines new, of 0, simplified] assms(5) ow that(1) by simp
  qed
  then show ?thesis
    using res sums by (simp add: gm1_def)
qed

theorem add_config_lines_writes_witness:
  "\<exists>gm gm'. add_config_lines [11] [7, 8] gm = Inr gm' \<and> chunk 2 0 (lines_of gm') = [7, 8]"
proof -
  define gm where "gm = toy_machine\<lparr>gm_header := toy_header\<lparr>gh_extension_len := 2, gh_remaining := 0\<rparr>,
    gm_config_data := [0, 0, 0, 0, 1, 0, 0, 0, 1, 2, 3, 4]\<rparr>"
  have data: "line_size_of gm = 2" "max_items_of gm = 2" "length (gm_config_data gm) = 12"
    "unat (gh_total_items_added (gm_header gm)) = 0" "gh_authority (gm_header gm) = [11]" "remaining_of gm = 0"
    by (simp_all add: gm_def toy_header_def remaining_of_def)
  have p: "length (gm_config_data gm) = 4 * max_items_of gm + line_size_of gm * max_items_of gm"
    "line_size_of gm \<noteq> 0" "length [7, 8 :: u8] = line_size_of gm * 1"
    "0 = unat (gh_total_items_added (gm_header gm))" "0 + 1 \<le> max_items_of gm" "remaining_of gm \<le> 0"
    by (simp_all add: data)
  note u = add_config_lines_writes [OF p, of "[11]"]
  obtain gm' where ok: "add_config_lines [11] [7, 8] gm = Inr gm'"
    using u unfolding data(5) by (elim exE conjE) (simp only: if_False simp_thms)
  have "chunk 2 0 (lines_of gm') = chunk 2 0 [7, 8 :: u8]"
    using u ok unfolding data(1) by (metis zero_less_one)
  then show ?thesis
    using ok by (auto simp: chunk_def)
qed

text \<open>A second batch of two-byte lines overwrites the first one's line and leaves its own unset.\<close>

lemma add_config_lines_overlap:
  "\<exists>gm gm1 gm2. add_config_lines [11] [7, 8] gm = Inr gm1 \<and> add_config_lines [11] [5, 6] gm1 = Inr gm2 \<and>
    lines_of gm2 = [7, 5, 6, 0] \<and> unat (gh_total_items_added (gm_header gm2)) = 2"
proof -
  let ?gm = "toy_machine\<lparr>gm_header := toy_header\<lparr>gh_extension_len := 2, gh_remaining := 0\<rparr>,
    gm_config_data := [0, 0, 0, 0, 1, 0, 0, 0, 0, 0, 0, 0]\<rparr>"
  show ?thesis
    by (rule exI [of _ ?gm]) (simp add: add_config_lines_def Let_def toy_header_def usize_mul_def
        usize_add_def split_at_def overwrite_def checked_add_def lines_of_def)
qed

text \<open>The state after a sale: sizes, and the items sold.\<close>

lemma sale_state:
  assumes sold: "find_and_mint_compressed_nfts E machine payer rb ins t slab k (gm, w) = Inr (evs, n, gm1, w1)"
    and le: "remaining_of gm \<le> max_items_of gm"
  shows "length (gm_config_data gm1) = 4 * max_items_of gm1 + line_size_of gm1 * max_items_of gm1"
    and "max_items_of gm1 = max_items_of gm" and "line_size_of gm1 = line_size_of gm"
    and "length (indices_of gm1) = max_items_of gm"
    and "dispensed gm gm1 = batch (remaining_of gm) (unat n) (indices_of gm1)"
    and "remaining_of gm1 < length (indices_of gm1)"
    and "last (dispensed gm gm1) = indices_of gm1 ! remaining_of gm1"
proof -
  note inv = find_and_mint_inv [OF sold]
  show data: "length (gm_config_data gm1) = 4 * max_items_of gm1 + line_size_of gm1 * max_items_of gm1"
    "max_items_of gm1 = max_items_of gm" "line_size_of gm1 = line_size_of gm"
    using inv(1,3,10) by (auto simp: sale_open_def)
  show len: "length (indices_of gm1) = max_items_of gm"
    using data(1,2) by (simp add: indices_of_def length_cast_u32)
  have n: "0 < unat n" "unat n \<le> remaining_of gm"
    using inv(1,2) sale_size_pos [of k gm] sale_size_le [of k gm]
    by (auto simp: sale_open_def word_gt_0 unat_gt_0)
  show disp: "dispensed gm gm1 = batch (remaining_of gm) (unat n) (indices_of gm1)"
    using inv(5) n by (simp add: dispensed_def)
  show "remaining_of gm1 < length (indices_of gm1)"
    "last (dispensed gm gm1) = indices_of gm1 ! remaining_of gm1"
    using n len le inv(5) by (simp_all add: disp batch_def last_rev hd_drop_conv_nth)
qed

lemma added_lines_return_last:
  assumes sold: "find_and_mint_compressed_nfts E machine payer rb ins t slab k (gm, w) = Inr (evs, n, gm1, w1)"
    and le: "remaining_of gm \<le> max_items_of gm"
    and add: "add_config_lines auth new gm1 = Inr gm2" "new \<noteq> []"
  shows "last (dispensed gm gm1) \<in># pool_of gm2"
proof -
  note state = sale_state [OF sold le]
  let ?m = "length new div line_size_of gm1"
  have ok: "unat (gh_remaining (gm_header gm1)) + ?m < 2 ^ 32" "line_size_of gm1 dvd length new"
    "line_size_of gm1 \<noteq> 0"
    "gh_remaining (gm_header gm2) = gh_remaining (gm_header gm1) + of_nat ?m"
    "indices_of gm2 = indices_of gm1"
    using add state(1) by (auto simp: add_config_lines_eq indices_of_def)
  have "0 < ?m"
    using ok(2,3) add(2) by (simp add: div_greater_zero_iff dvd_imp_le)
  moreover have "remaining_of gm2 = remaining_of gm1 + ?m"
    using ok(1,4) by (simp add: remaining_of_def unat_word_ariths unat_of_nat)
  ultimately have "indices_of gm1 ! remaining_of gm1 \<in> set (take (remaining_of gm2) (indices_of gm2))"
    using ok(5) state(6) by (auto simp: in_set_conv_nth intro!: exI [of _ "remaining_of gm1"])
  then show ?thesis
    by (simp add: pool_of_def state(7))
qed

lemma initialized_again_returns_all:
  assumes sold: "find_and_mint_compressed_nfts E machine payer rb ins t slab k (gm, w) = Inr (evs, n, gm1, w1)"
    and le: "remaining_of gm \<le> max_items_of gm"
    and z: "line_size_of gm = 0" "gh_authority (gm_header gm) = auth" "max_items_of gm + 250000 < 2 ^ 32"
  shows "\<exists>gm2. initialize_indices_chunk auth gm1 = Inr gm2 \<and> set (dispensed gm gm1) \<subseteq> set_mset (pool_of gm2)"
proof -
  note inv = find_and_mint_inv [OF sold] and state = sale_state [OF sold le]
  have fits: "init_fits (max_items_of gm1) gm1"
    using inv(1,3) state(1-3) z by (simp add: init_fits_def sale_open_def)
  have h: "gh_authority (gm_header gm1) = auth" "gh_extension_len (gm_header gm1) = 0"
    using inv(3) z by (simp_all add: unat_eq_0)
  have "drop (max_items_of gm1) (indices_of gm1) = []" "take (max_items_of gm1) (indices_of gm1) = indices_of gm1"
    using state(2,4) by simp_all
  then obtain gm2 where gm2: "initialize_indices_chunk auth gm1 = Inr gm2"
    "gm_config_data gm2 = uncast_u32 (indices_of gm1) @ lines_of gm1"
    "gh_remaining (gm_header gm2) = gh_max_items (gm_header gm1)"
    "gh_max_items (gm_header gm2) = gh_max_items (gm_header gm1)"
    using initialize_indices_chunk_eq [OF fits, of "max_items_of gm1" _ auth] h by simp
  have "indices_of gm2 = indices_of gm1"
    using gm2(2,4) state(2,4) by (simp add: indices_of_def)
  then have "pool_of gm2 = mset (indices_of gm1)"
    using gm2(3) state(2,4) by (simp add: pool_of_def remaining_of_def)
  moreover have "set (dispensed gm gm1) \<subseteq> set (indices_of gm1)"
    by (auto simp: state(5) batch_def dest!: in_set_takeD in_set_dropD)
  ultimately show ?thesis
    using gm2(1) by auto
qed

text \<open>
  C26. What brings sold items back: after a purchase, adding config lines puts the item sold last back
  into the pool, and in a machine without config lines another call that initialises indices puts
  all sold items back.
\<close>

theorem sold_items_return:
  assumes "find_and_mint_compressed_nfts E machine payer rb ins t slab k (gm, w) = Inr (evs, n, gm1, w1)"
    and "remaining_of gm \<le> max_items_of gm"
  shows "(add_config_lines auth new gm1 = Inr gm2 \<and> new \<noteq> [] \<longrightarrow> last (dispensed gm gm1) \<in># pool_of gm2) \<and>
    (line_size_of gm = 0 \<and> gh_authority (gm_header gm) = auth \<and> max_items_of gm + 250000 < 2 ^ 32 \<longrightarrow>
      (\<exists>gm2. initialize_indices_chunk auth gm1 = Inr gm2 \<and> set (dispensed gm gm1) \<subseteq> set_mset (pool_of gm2)))"
  using added_lines_return_last [OF assms] initialized_again_returns_all [OF assms] by blast

theorem sold_items_return_witness:
  "\<exists>w gm' w' evs gm2. find_and_mint_compressed_nfts toy_env [12] [7] [] [1, 0] 1 [5] 1 (toy_machine, w) =
      Inr (evs, 1, gm', w') \<and> initialize_indices_chunk [11] gm' = Inr gm2 \<and>
    set (dispensed toy_machine gm') \<subseteq> set_mset (pool_of gm2)"
proof -
  obtain w acc evs gm' w' where w: "toy_reach w (\<lambda>_ _. None)" "live_tree [5] w = Inr acc"
    "next_leaf (gr_roll acc) = 0" "hd_append_authority (gr_header acc) = [3]" "gr_depth acc = 3"
    "find_and_mint_compressed_nfts toy_env [12] [7] [] [1, 0] 1 [5] 1 (toy_machine, w) = Inr (evs, 1, gm', w')"
    by (rule toy_sale)
  have le: "remaining_of toy_machine \<le> max_items_of toy_machine"
    "line_size_of toy_machine = 0 \<and> gh_authority (gm_header toy_machine) = [11] \<and>
      max_items_of toy_machine + 250000 < 2 ^ 32"
    by (simp_all add: toy_machine_data) (simp add: toy_header_def)
  obtain gm2 where "initialize_indices_chunk [11] gm' = Inr gm2"
    "set (dispensed toy_machine gm') \<subseteq> set_mset (pool_of gm2)"
    using conjunct2 [OF sold_items_return [OF w(6) le(1), of "[11]" "[]" gm']] le(2) by blast
  then show ?thesis
    using w(6) by blast
qed

text \<open>
  A machine without config lines and with the default encoding cannot sell its items 127 to 254:
  the config line is then the item's number as eight bytes, whose first byte is not ASCII and whose
  second is zero, so that reading the line as UTF-8 panics, and with it the purchase that draws such
  an item. The items 0 to 126 can be sold if the bases of the header are UTF-8.
\<close>

theorem default_encoding_panics:
  assumes "gh_config_line_encode_method h = encode_method_to_u8 UTF8" and "i < 255"
    and "valid_utf8 (gh_name_base h)" and "valid_utf8 (gh_symbol h)" and "valid_utf8 (gh_url_base h)"
  shows "(127 \<le> i \<longrightarrow> item_metadata E h l [] i = Inl Panic) \<and>
    (i < 127 \<longrightarrow> (\<exists>msg. item_metadata E h l [] i = Inr msg)) \<and>
    (gh_remaining h \<noteq> 0 \<and> unat (gh_remaining h) \<le> length idx \<and> 127 \<le> i \<and> i < length idx \<and>
      i = unat (swapped idx (chosen E rb (gh_remaining h)) (unat (gh_remaining h) - 1) ! (unat (gh_remaining h) - 1)) \<longrightarrow>
      fisher_yates_shuffle_and_fetch_nft_metadata E rb h idx 0 [] = Inl Panic)"
proof -
  have first: "item_line m [] i = of_nat (i + 1) # replicate 7 0" for m
    using le_bytes_small [of "i + 1"] assms(2) by (simp add: item_line_def)
  have rep: "(replicate 7 0 :: bytes) = [0, 0, 0, 0, 0, 0, 0]"
    by (simp add: numeral_eq_Suc)
  have bad: "\<not> valid_utf8 (of_nat (i + 1) # replicate 7 0)" if "127 \<le> i"
  proof -
    have "128 \<le> unat (of_nat (i + 1) :: u8)"
      using assms(2) that by (simp only: unat_of_nat) simp
    then have "\<not> (of_nat (i + 1) :: u8) < 0x80"
      by (simp add: word_less_nat_alt)
    then show ?thesis
      unfolding rep by (simp add: utf8_cont_def utf8_second3_def utf8_second4_def)
  qed
  have good: "valid_utf8 (of_nat (i + 1) # replicate 7 0)" if "i < 127"
  proof -
    have "unat (of_nat (i + 1) :: u8) < 128"
      using that by (simp only: unat_of_nat) simp
    then have "(of_nat (i + 1) :: u8) < 0x80"
      by (simp add: word_less_nat_alt)
    then show ?thesis
      unfolding rep by simp
  qed
  have enc: "encode_method_from (gh_config_line_encode_method h) = (Inr UTF8 :: (GumballError, _) result)"
    by (simp add: assms(1) encode_method_from_def encode_method_to_u8_def)
  have panic: "item_metadata E h m [] i = Inl Panic" if "127 \<le> i" for m
    using bad [OF that] enc assms(3-5) first [of m]
    by (simp add: item_metadata_def get_metadata_args_def Let_def from_utf8_unwrap_def del: of_nat_add of_nat_Suc)
  moreover have "\<exists>msg. item_metadata E h l [] i = Inr msg" if "i < 127"
    using good [OF that] enc assms(3-5) first [of l]
    by (simp add: item_metadata_def get_metadata_args_def Let_def from_utf8_unwrap_def del: of_nat_add of_nat_Suc)
  moreover have "fisher_yates_shuffle_and_fetch_nft_metadata E rb h idx 0 [] = Inl Panic"
    if "gh_remaining h \<noteq> 0" "unat (gh_remaining h) \<le> length idx" "127 \<le> i" "i < length idx"
      "i = unat (swapped idx (chosen E rb (gh_remaining h)) (unat (gh_remaining h) - 1) ! (unat (gh_remaining h) - 1))"
    using fisher_yates_eq [OF that(2) refl that(5), of "[]" 0] that(1,4) panic [OF that(3), of 0]
    by (simp del: One_nat_def)
  ultimately show ?thesis
    by blast
qed

theorem default_encoding_panics_witness:
  "item_metadata toy_env (toy_header\<lparr>gh_config_line_encode_method := 0\<rparr>) 0 [] 127 = Inl Panic"
  using default_encoding_panics [of "toy_header\<lparr>gh_config_line_encode_method := 0\<rparr>" 127 toy_env 0]
  by (simp add: encode_method_to_u8_def toy_header_def)



end
