(* ===== verification/Sugar_Shack.thy ===== *)
theory Sugar_Shack
  imports Bubblegum
begin

text \<open>
  \<open>contracts/programs/sugar-shack/src\<close>: a marketplace without escrow. Listing an NFT delegates it to
  the program address derived from the price; a purchase pays the marketplace, the creators and the
  lister, and transfers the NFT through Bubblegum with that address as signer. The system program's
  transfers are a parameter \<open>pay from to amount\<close> on its accounts \<open>x\<close>, and the checked arithmetic
  of the \<open>solana_safe_math\<close> crate is a parameter as well.
\<close>

section \<open>State\<close>

record marketplace_properties =
  mp_authority :: pubkey
  mp_share :: u16

definition MARKETPLACE_PROPERTIES_SIZE :: nat where
  "MARKETPLACE_PROPERTIES_SIZE = 8 + 32 + 2 + 1"

text \<open>The bytes of "mymarketplace".\<close>

definition MARKETPLACE_PROPERTIES_PREFIX :: bytes where
  "MARKETPLACE_PROPERTIES_PREFIX = [109, 121, 109, 97, 114, 107, 101, 116, 112, 108, 97, 99, 101]"

datatype SugarError =
    SugarAccountConstraint
  | SafeMathError
  | TransferFailed
  | SugarBubblegumCpi BubblegumError

record safe_math =
  sm_add :: "u64 \<Rightarrow> u64 \<Rightarrow> u64 option"
  sm_sub :: "u64 \<Rightarrow> u64 \<Rightarrow> u64 option"
  sm_mul :: "u64 \<Rightarrow> u64 \<Rightarrow> u64 option"
  sm_div :: "u64 \<Rightarrow> u64 \<Rightarrow> u64 option"

text \<open>The documented behaviour of the crate: the standard library's checked operations.\<close>

definition safe_math_ok :: "safe_math \<Rightarrow> bool" where
  "safe_math_ok M \<longleftrightarrow>
     sm_add M = checked_add \<and> sm_sub M = checked_sub \<and> sm_mul M = checked_mul \<and> sm_div M = checked_div"

abbreviation safe :: "u64 option \<Rightarrow> (SugarError, u64) result" where
  "safe r \<equiv> ok_or r (Err SafeMathError)"

record sugar_env =
  se_hashv :: hashv
  se_bubblegum_pda :: pda
  se_pda :: pda
  se_math :: safe_math

definition marketplace_key :: "sugar_env \<Rightarrow> pubkey" where
  "marketplace_key E = se_pda E [MARKETPLACE_PROPERTIES_PREFIX]"

text \<open>The address that an NFT listed at a price is delegated to.\<close>

definition listing_delegate :: "sugar_env \<Rightarrow> u64 \<Rightarrow> pubkey" where
  "listing_delegate E price = se_pda E [le_bytes 8 price]"

section \<open>Administration\<close>

text \<open>
  The properties account is a singleton at the address \<open>marketplace_key\<close>: \<open>None\<close> until initialised.
  An account constraint gives \<open>SugarAccountConstraint\<close>.
\<close>

definition initialize_marketplace ::
  "u16 \<Rightarrow> pubkey \<Rightarrow> marketplace_properties option \<Rightarrow> (SugarError, marketplace_properties) result" where
  "initialize_marketplace royalty_share authority props =
     and_then (ensure (props = None) (Err SugarAccountConstraint)) (\<lambda>_.
     and_then (ensure (royalty_share \<le> 10000) Panic) (\<lambda>_.
     Inr \<lparr>mp_authority = authority, mp_share = royalty_share\<rparr>))"

definition update_marketplace_properties ::
  "pubkey \<Rightarrow> pubkey option \<Rightarrow> u16 option \<Rightarrow> marketplace_properties option \<Rightarrow>
   (SugarError, marketplace_properties) result" where
  "update_marketplace_properties signer authority share props =
     and_then (ok_or props (Err SugarAccountConstraint)) (\<lambda>p.
     and_then (ensure (signer = mp_authority p) Panic) (\<lambda>_.
     let p1 = (case authority of Some ay \<Rightarrow> p\<lparr>mp_authority := ay\<rparr> | None \<Rightarrow> p);
         p2 = (case share of Some s \<Rightarrow> p1\<lparr>mp_share := s\<rparr> | None \<Rightarrow> p1)
     in Inr p2))"

text \<open>
  Lamports are a store over account keys, since the recipient may be any account, also the
  marketplace's own. \<open>is_exempt\<close> is the rent exemption test of the runtime.
\<close>

definition withdraw_fees ::
  "sugar_env \<Rightarrow> (u64 \<Rightarrow> nat \<Rightarrow> bool) \<Rightarrow> pubkey \<Rightarrow> pubkey \<Rightarrow> u64 \<Rightarrow> marketplace_properties option \<Rightarrow>
   (pubkey \<Rightarrow> u64) \<Rightarrow> (SugarError, pubkey \<Rightarrow> u64) result" where
  "withdraw_fees E is_exempt signer fee_payout_recipient lamports_to_withdraw props lamports =
     and_then (ok_or props (Err SugarAccountConstraint)) (\<lambda>p.
     and_then (ensure (signer = mp_authority p) Panic) (\<lambda>_.
     and_then (safe (sm_sub (se_math E) (lamports (marketplace_key E)) lamports_to_withdraw)) (\<lambda>balance_after.
     and_then (ensure (is_exempt balance_after MARKETPLACE_PROPERTIES_SIZE) Panic) (\<lambda>_.
     let lamports1 = lamports(marketplace_key E := balance_after)
     in and_then (safe (sm_add (se_math E) (lamports1 fee_payout_recipient) lamports_to_withdraw)) (\<lambda>payout.
        Inr (lamports1(fee_payout_recipient := payout)))))))"

section \<open>Listings\<close>

definition modify_compressed_nft_delegate ::
  "sugar_env \<Rightarrow> pubkey \<Rightarrow> pubkey \<Rightarrow> pubkey \<Rightarrow> pubkey \<Rightarrow> node list \<Rightarrow> node \<Rightarrow> node \<Rightarrow> u64 \<Rightarrow> u32 \<Rightarrow> node \<Rightarrow>
   bubblegum_accounts \<Rightarrow> (SugarError, bubblegum_event list \<times> bubblegum_accounts) result" where
  "modify_compressed_nft_delegate E owner former_delegate new_delegate merkle_slab remaining_accounts
     data_hash creator_hash nonce index root w =
     map_failure SugarBubblegumCpi (delegate_leaf (se_hashv E) (se_bubblegum_pda E) merkle_slab owner
       former_delegate new_delegate remaining_accounts root data_hash creator_hash nonce index w)"

definition create_or_modify_listing ::
  "sugar_env \<Rightarrow> pubkey \<Rightarrow> pubkey \<Rightarrow> pubkey \<Rightarrow> pubkey \<Rightarrow> node list \<Rightarrow> u64 \<Rightarrow> node \<Rightarrow> node \<Rightarrow> u64 \<Rightarrow> u32 \<Rightarrow>
   node \<Rightarrow> bubblegum_accounts \<Rightarrow> (SugarError, bubblegum_event list \<times> bubblegum_accounts) result" where
  "create_or_modify_listing E owner former_delegate new_delegate merkle_slab remaining_accounts price
     data_hash creator_hash nonce index root w =
     and_then (ensure (new_delegate = listing_delegate E price) (Err SugarAccountConstraint)) (\<lambda>_.
     modify_compressed_nft_delegate E owner former_delegate new_delegate merkle_slab remaining_accounts
       data_hash creator_hash nonce index root w)"

definition remove_listing ::
  "sugar_env \<Rightarrow> pubkey \<Rightarrow> pubkey \<Rightarrow> pubkey \<Rightarrow> pubkey \<Rightarrow> node list \<Rightarrow> node \<Rightarrow> node \<Rightarrow> u64 \<Rightarrow> u32 \<Rightarrow> node \<Rightarrow>
   bubblegum_accounts \<Rightarrow> (SugarError, bubblegum_event list \<times> bubblegum_accounts) result" where
  "remove_listing E owner former_delegate new_delegate merkle_slab remaining_accounts data_hash
     creator_hash nonce index root w =
     modify_compressed_nft_delegate E owner former_delegate new_delegate merkle_slab remaining_accounts
       data_hash creator_hash nonce index root w"

section \<open>Purchases\<close>

text \<open>
  The loop over the creators: pays each its share of the allocation, adds up what was paid and
  collects the address and share of each for the creator hash.
\<close>

fun pay_creators ::
  "sugar_env \<Rightarrow> (pubkey \<Rightarrow> pubkey \<Rightarrow> u64 \<Rightarrow> 'x \<Rightarrow> 'x option) \<Rightarrow> pubkey \<Rightarrow> u64 \<Rightarrow> u8 list \<Rightarrow> pubkey list \<Rightarrow>
   u64 \<Rightarrow> bytes list \<Rightarrow> 'x \<Rightarrow> (SugarError, u64 \<times> bytes list \<times> 'x) result" where
  "pay_creators E pay purchaser basis_point [] accounts paid creator_data x = Inr (paid, creator_data, x)"
| "pay_creators E pay purchaser basis_point (share # shares) [] paid creator_data x =
     Inl (Err SugarAccountConstraint)"
| "pay_creators E pay purchaser basis_point (share # shares) (creator # accounts) paid creator_data x =
     and_then (safe (sm_mul (se_math E) (ucast share) 100)) (\<lambda>bps.
     and_then (safe (sm_mul (se_math E) basis_point bps)) (\<lambda>amount.
     and_then (ok_or (pay purchaser creator amount x) (Err TransferFailed)) (\<lambda>x'.
     and_then (safe (sm_add (se_math E) paid amount)) (\<lambda>paid'.
     pay_creators E pay purchaser basis_point shares accounts paid'
       (creator_data @ [creator @ [share]]) x'))))"

text \<open>
  The proof accounts follow the creators' accounts. The listing's address signs the transfer, in
  every account of the call that has it.
\<close>

definition purchase ::
  "sugar_env \<Rightarrow> (pubkey \<Rightarrow> pubkey \<Rightarrow> u64 \<Rightarrow> 'x \<Rightarrow> 'x option) \<Rightarrow> pubkey \<Rightarrow> pubkey \<Rightarrow> pubkey \<Rightarrow> pubkey \<Rightarrow>
   pubkey list \<Rightarrow> u64 \<Rightarrow> node \<Rightarrow> u64 \<Rightarrow> u32 \<Rightarrow> node \<Rightarrow> u8 list \<Rightarrow> marketplace_properties option \<Rightarrow>
   bubblegum_accounts \<times> 'x \<Rightarrow>
   (SugarError, bubblegum_event list \<times> bubblegum_accounts \<times> 'x) result" where
  "purchase E pay former_owner purchaser delegate merkle_slab remaining_accounts price data_hash nonce
     index root creator_shares props wx =
     (let (w, x) = wx
      in and_then (ensure (delegate = listing_delegate E price) (Err SugarAccountConstraint)) (\<lambda>_.
     and_then (ok_or props (Err SugarAccountConstraint)) (\<lambda>p.
     and_then (safe (sm_div (se_math E) price 10000)) (\<lambda>basis_point_of_price.
     and_then (safe (sm_mul (se_math E) basis_point_of_price (ucast (mp_share p)))) (\<lambda>amount_to_pay_marketplace.
     and_then (ok_or (pay purchaser (marketplace_key E) amount_to_pay_marketplace x) (Err TransferFailed)) (\<lambda>x.
     and_then (safe (sm_sub (se_math E) price amount_to_pay_marketplace)) (\<lambda>total_remaining.
     and_then (safe (sm_div (se_math E) total_remaining 10000)) (\<lambda>basis_point_of_remaining.
     and_then (ensure (length creator_shares \<le> length remaining_accounts) Panic) (\<lambda>_.
     let creator_accounts = take (length creator_shares) remaining_accounts;
         proof_accounts = drop (length creator_shares) remaining_accounts
     in and_then (pay_creators E pay purchaser basis_point_of_remaining creator_shares creator_accounts
          0 [] x) (\<lambda>(amount_paid_out_to_creators, creator_data, x).
        and_then (safe (sm_sub (se_math E) total_remaining amount_paid_out_to_creators)) (\<lambda>rest.
        and_then (ok_or (pay purchaser former_owner rest x) (Err TransferFailed)) (\<lambda>x.
        let creator_hash = se_hashv E creator_data
        in and_then (map_failure SugarBubblegumCpi (transfer (se_hashv E) (se_bubblegum_pda E) merkle_slab
             former_owner (former_owner = delegate) delegate True purchaser proof_accounts root
             data_hash creator_hash nonce index w)) (\<lambda>(evs, w').
           Inr (evs, w', x))))))))))))))"

end
