(* ===== verification/Sugar_Run.thy ===== *)
theory Sugar_Run
  imports Sugar_Shack Bubblegum_Reach
begin

text \<open>
  What a purchase on the marketplace pays to whom, in natural numbers, and the equivalence of the
  handler with paying that list and transferring the NFT.
\<close>

section \<open>Payments\<close>

fun pay_all :: "(pubkey \<Rightarrow> pubkey \<Rightarrow> u64 \<Rightarrow> 'x \<Rightarrow> 'x option) \<Rightarrow> pubkey \<Rightarrow> (pubkey \<times> nat) list \<Rightarrow> 'x \<Rightarrow> 'x option" where
  "pay_all pay from [] x = Some x"
| "pay_all pay from ((to, a) # ps) x =
     (case pay from to (of_nat a) x of None \<Rightarrow> None | Some x' \<Rightarrow> pay_all pay from ps x')"

lemma pay_all_append:
  "pay_all pay from (ps @ qs) x =
     (case pay_all pay from ps x of None \<Rightarrow> None | Some x' \<Rightarrow> pay_all pay from qs x')"
  by (induction ps arbitrary: x) (auto split: option.splits)

definition marketplace_fee :: "marketplace_properties \<Rightarrow> u64 \<Rightarrow> nat" where
  "marketplace_fee p price = unat price div 10000 * unat (mp_share p)"

definition creator_amounts :: "nat \<Rightarrow> u8 list \<Rightarrow> nat list" where
  "creator_amounts basis_point shares = map (\<lambda>s. basis_point * (unat s * 100)) shares"

definition purchase_payments ::
  "sugar_env \<Rightarrow> marketplace_properties \<Rightarrow> u64 \<Rightarrow> pubkey \<Rightarrow> pubkey list \<Rightarrow> u8 list \<Rightarrow> (pubkey \<times> nat) list" where
  "purchase_payments E p price former_owner creators shares =
     (let fee = marketplace_fee p price;
          amounts = creator_amounts ((unat price - fee) div 10000) shares
      in (marketplace_key E, fee) # zip creators amounts @
         [(former_owner, unat price - fee - sum_list amounts)])"

text \<open>The two things that can go wrong with the amounts.\<close>

definition affordable :: "marketplace_properties \<Rightarrow> u64 \<Rightarrow> u8 list \<Rightarrow> bool" where
  "affordable p price shares \<longleftrightarrow>
     marketplace_fee p price \<le> unat price \<and>
     sum_list (creator_amounts ((unat price - marketplace_fee p price) div 10000) shares) \<le>
       unat price - marketplace_fee p price"

definition creator_data_of :: "pubkey list \<Rightarrow> u8 list \<Rightarrow> bytes list" where
  "creator_data_of creators shares = map (\<lambda>(c, s). c @ [s]) (zip creators shares)"

lemma payments_sum:
  assumes "affordable p price shares" and "length creators = length shares"
  shows "(\<Sum>(to, a)\<leftarrow>purchase_payments E p price former_owner creators shares. a) = unat price"
proof -
  have "(\<Sum>(to, a)\<leftarrow>zip creators (creator_amounts b shares). a) = sum_list (creator_amounts b shares)" for b
  proof -
    have "map (\<lambda>(to, a). a) (zip creators (creator_amounts b shares)) = creator_amounts b shares"
      using assms(2) by (auto simp: creator_amounts_def list_eq_iff_nth_eq)
    then show ?thesis by simp
  qed
  then show ?thesis
    using assms(1) by (simp add: purchase_payments_def affordable_def Let_def) linarith
qed

lemma sum_creator_amounts: "sum_list (creator_amounts b shares) = b * (sum_list (map unat shares) * 100)"
  by (induction shares) (simp_all add: creator_amounts_def algebra_simps)

lemma affordable_100:
  assumes "mp_share p \<le> 10000" and "sum_list (map unat shares) \<le> 100"
  shows "affordable p price shares"
proof -
  have bound: "b div 10000 * n \<le> b" if "n \<le> 10000" for b n :: nat
    using mult_le_mono2 [OF that, of "b div 10000"] div_times_less_eq_dividend [of b 10000] by linarith
  have "unat (mp_share p) \<le> 10000"
    using assms(1) by (simp add: word_le_nat_alt)
  moreover have "sum_list (map unat shares) * 100 \<le> 10000"
    using assms(2) by simp
  ultimately show ?thesis
    by (simp add: affordable_def marketplace_fee_def sum_creator_amounts bound del: of_nat_mult)
qed

section \<open>The loop over the creators\<close>

lemma unat_share: "unat (ucast (s :: u8) :: u64) = unat s"
  using unat_bound [of s] by (simp add: unsigned_ucast_eq take_bit_nat_eq_self)

lemma pay_creators_iff:
  assumes "safe_math_ok (se_math E)" and "length accounts = length shares"
  shows "pay_creators E pay from bp shares accounts paid cd x = Inr (paid', cd', x') \<longleftrightarrow>
    unat paid + sum_list (creator_amounts (unat bp) shares) < 2 ^ 64 \<and>
    paid' = of_nat (unat paid + sum_list (creator_amounts (unat bp) shares)) \<and>
    cd' = cd @ creator_data_of accounts shares \<and>
    pay_all pay from (zip accounts (creator_amounts (unat bp) shares)) x = Some x'"
  using assms(2)
proof (induction shares arbitrary: accounts paid cd x)
  case Nil
  have "unat paid < 2 ^ 64"
    using unat_bound [of paid] by simp
  then show ?case
    using Nil by (auto simp: creator_amounts_def creator_data_of_def)
next
  case (Cons s shares)
  obtain c accs where acc: "accounts = c # accs" "length accs = length shares"
    using Cons.prems by (cases accounts) auto
  have M: "sm_mul (se_math E) = checked_mul" "sm_add (se_math E) = checked_add"
    using assms(1) by (simp_all add: safe_math_ok_def)
  have hundred: "unat (of_nat (unat s * 100) :: u64) = unat s * 100" "unat s * 100 < 2 ^ 64"
    using unat_bound [of s] by (simp_all only: unat_of_nat) simp_all
  let ?a = "unat bp * (unat s * 100)"
  have step: "pay_creators E pay from bp (s # shares) accounts paid cd x = Inr (paid', cd', x') \<longleftrightarrow>
    ?a < 2 ^ 64 \<and> (\<exists>x1. pay from c (of_nat ?a) x = Some x1 \<and> unat paid + ?a < 2 ^ 64 \<and>
      pay_creators E pay from bp shares accs (of_nat (unat paid + ?a)) (cd @ [c @ [s]]) x1 = Inr (paid', cd', x'))"
    using hundred by (auto simp: acc M result_simps checked_mul_iff checked_add_iff unat_share unat_of_nat
        simp del: of_nat_mult of_nat_add)
  have u: "unat (of_nat (unat paid + ?a) :: u64) = unat paid + ?a" if "unat paid + ?a < 2 ^ 64"
    using that by (simp only: unat_of_nat) simp
  show ?case
    unfolding step Cons.IH [OF acc(2)]
    by (auto simp: creator_amounts_def creator_data_of_def acc u add.assoc split: option.splits simp del: of_nat_add of_nat_mult)
qed

section \<open>Purchases\<close>

lemma purchase_iff:
  assumes M: "safe_math_ok (se_math E)"
  shows "purchase E pay former_owner purchaser delegate slab accounts price data_hash nonce index root
      shares props (w, x) = Inr (evs, w', x') \<longleftrightarrow>
    (\<exists>p. props = Some p \<and> delegate = listing_delegate E price \<and> length shares \<le> length accounts \<and>
      affordable p price shares \<and>
      pay_all pay purchaser (purchase_payments E p price former_owner (take (length shares) accounts) shares) x =
        Some x' \<and>
      transfer (se_hashv E) (se_bubblegum_pda E) slab former_owner (former_owner = delegate) delegate True
        purchaser (drop (length shares) accounts) root data_hash
        (se_hashv E (creator_data_of (take (length shares) accounts) shares)) nonce index w = Inr (evs, w'))"
proof -
  have ops: "sm_add (se_math E) = checked_add" "sm_sub (se_math E) = checked_sub"
    "sm_mul (se_math E) = checked_mul" "sm_div (se_math E) = checked_div"
    using M by (simp_all add: safe_math_ok_def)
  have share: "unat (ucast (v :: u16) :: u64) = unat v" for v
    using unat_bound [of v] by (simp add: unsigned_ucast_eq take_bit_nat_eq_self)
  have d64: "unat a div 10000 < 2 ^ 64" for a :: u64
    by (rule le_less_trans [OF div_le_dividend]) (use unat_bound [of a] in simp)
  have u: "unat (of_nat k :: u64) = k" if "k < 2 ^ 64" for k
    using that by (simp only: unat_of_nat) simp
  have dv: "checked_div a 10000 = Some (of_nat (unat a div 10000) :: u64)" for a
    using d64 [of a] by (simp add: checked_div_def word_unat_eq_iff unat_div unat_of_nat)
  have P: "unat price < 2 ^ 64"
    using unat_bound [of price] by simp
  let ?accs = "take (length shares) accounts"
  have pc: "pay_creators E pay purchaser (of_nat b) shares ?accs 0 [] x = Inr (paid', cd', x') \<longleftrightarrow>
      sum_list (creator_amounts b shares) < 2 ^ 64 \<and> paid' = of_nat (sum_list (creator_amounts b shares)) \<and>
      cd' = creator_data_of ?accs shares \<and>
      pay_all pay purchaser (zip ?accs (creator_amounts b shares)) x = Some x'"
    if "length shares \<le> length accounts" "b < 2 ^ 64" for b paid' cd' x x'
    using that by (simp add: pay_creators_iff [OF M] u)
  have fee: "unat (of_nat (unat price div 10000) :: u64) * unat (ucast (mp_share p) :: u64) = marketplace_fee p price" for p
    using d64 [of price] by (simp add: u share marketplace_fee_def)
  show ?thesis
  proof (cases props)
    case None
    then show ?thesis
      by (auto simp: purchase_def result_simps)
  next
    case (Some p)
    let ?f = "marketplace_fee p price"
    let ?b = "(unat price - ?f) div 10000"
    let ?S = "sum_list (creator_amounts ?b shares)"
    have bu: "?b < 2 ^ 64" "unat price - ?f < 2 ^ 64"
      using P by (meson div_le_dividend diff_le_self le_less_trans)+
    have "purchase E pay former_owner purchaser delegate slab accounts price data_hash nonce index root
        shares props (w, x) = Inr (evs, w', x') \<longleftrightarrow>
      delegate = listing_delegate E price \<and> ?f \<le> unat price \<and> length shares \<le> length accounts \<and> ?S \<le> unat price - ?f \<and>
      (\<exists>x1 x2. pay purchaser (marketplace_key E) (of_nat ?f) x = Some x1 \<and>
        pay_all pay purchaser (zip ?accs (creator_amounts ?b shares)) x1 = Some x2 \<and>
        pay purchaser former_owner (of_nat (unat price - ?f - ?S)) x2 = Some x' \<and>
        transfer (se_hashv E) (se_bubblegum_pda E) slab former_owner (former_owner = delegate) delegate True
          purchaser (drop (length shares) accounts) root data_hash
          (se_hashv E (creator_data_of ?accs shares)) nonce index w = Inr (evs, w'))"
    proof (cases "?f \<le> unat price \<and> length shares \<le> length accounts")
      case True
      then have f64: "?f < 2 ^ 64"
        using P by linarith
      have mul: "checked_mul (of_nat (unat price div 10000)) (ucast (mp_share p)) = Some (of_nat ?f :: u64)"
        using f64 by (simp add: checked_mul_iff fee)
      have sub: "checked_sub price (of_nat ?f) = Some (of_nat (unat price - ?f))"
        using f64 True by (simp add: checked_sub_iff u)
      have dv': "checked_div (of_nat (unat price - ?f)) 10000 = Some (of_nat ?b :: u64)"
        using dv [of "of_nat (unat price - ?f)"] bu(2) by (simp add: u)
      have last: "checked_sub (of_nat (unat price - ?f)) (of_nat ?S) = Some c \<longleftrightarrow>
          ?S \<le> unat price - ?f \<and> c = (of_nat (unat price - ?f - ?S) :: u64)" if "?S < 2 ^ 64" for c
        using that bu(2) by (simp add: checked_sub_iff u)
      have S64: "?S \<le> unat price - ?f \<Longrightarrow> ?S < 2 ^ 64"
        using bu(2) by linarith
      show ?thesis
        using True S64
        by (auto simp: purchase_def Some ops dv [of price] mul sub dv' last pc [OF conjunct2 [OF True] bu(1)] result_simps
            simp del: of_nat_add of_nat_mult of_nat_diff)
    next
      case False
      have "checked_mul (of_nat (unat price div 10000)) (ucast (mp_share p)) = Some a \<Longrightarrow>
          checked_sub price a = Some c \<Longrightarrow> ?f \<le> unat price" for a c :: u64
        by (auto simp: checked_mul_iff checked_sub_iff fee u)
      then show ?thesis
        using False by (auto simp: purchase_def Some ops dv result_simps)
    qed
    then show ?thesis
      by (auto simp: Some affordable_def purchase_payments_def Let_def pay_all_append split: option.splits)
  qed
qed

end
