(* ===== verification/Sugar_Props.thy ===== *)
theory Sugar_Props
  imports Sugar_Run Bubblegum_Props
begin

text \<open>The properties of the marketplace.\<close>

section \<open>A small marketplace\<close>

definition checked_math :: safe_math where
  "checked_math = \<lparr>sm_add = checked_add, sm_sub = checked_sub, sm_mul = checked_mul, sm_div = checked_div\<rparr>"

definition toy_market :: sugar_env where
  "toy_market = \<lparr>se_hashv = toy_hash, se_bubblegum_pda = toy_pda, se_pda = (\<lambda>_. [8]),
     se_math = checked_math\<rparr>"

lemma toy_market_data:
  "safe_math_ok (se_math toy_market)" "se_hashv toy_market = toy_hash" "se_bubblegum_pda toy_market = toy_pda"
  "listing_delegate toy_market price = [8]"
  by (simp_all add: toy_market_def safe_math_ok_def checked_math_def listing_delegate_def)



section \<open>Payments\<close>



section \<open>Listing and buying\<close>







text \<open>
  The marketplace's share is bounded when it is set up but not when it is updated: the authority can
  set any share, and with a share above 100 percent no NFT can be bought for 100 million lamports or more.
\<close>

theorem unbounded_share_blocks_purchases:
  assumes "safe_math_ok (se_math E)" and "10000 < share" and "100000000 \<le> price"
  shows "initialize_marketplace share authority None = Inl Panic \<and>
    update_marketplace_properties (mp_authority p) None (Some share) (Some p) = Inr (p\<lparr>mp_share := share\<rparr>) \<and>
    purchase E pay former_owner purchaser delegate slab accounts price data_hash nonce index root shares
      (Some (p\<lparr>mp_share := share\<rparr>)) (w, x) \<noteq> Inr (evs, w', x')"
proof -
  have "10001 \<le> unat share" "100000000 \<le> unat price"
    using assms(2,3) by (simp_all add: word_le_nat_alt word_less_nat_alt)
  then have "unat price div 10000 * 10001 \<le> unat price div 10000 * unat share" "10000 \<le> unat price div 10000"
    by simp_all
  moreover have "unat price = unat price div 10000 * 10000 + unat price mod 10000" "unat price mod 10000 < 10000"
    by simp_all
  ultimately have "unat price < unat price div 10000 * unat share"
    by linarith
  then have "\<not> affordable (p\<lparr>mp_share := share\<rparr>) price shares"
    by (simp add: affordable_def marketplace_fee_def)
  then have "purchase E pay former_owner purchaser delegate slab accounts price data_hash nonce index root shares
      (Some (p\<lparr>mp_share := share\<rparr>)) (w, x) \<noteq> Inr (evs, w', x')"
    by (simp add: purchase_iff [OF assms(1)])
  then show ?thesis
    using assms(2) by (simp add: initialize_marketplace_def update_marketplace_properties_def Let_def ensure_def)
qed

theorem unbounded_share_blocks_purchases_witness:
  "\<nexists>w evs w'. purchase toy_market (\<lambda>_ _ _ x. Some x) [7] [9] (listing_delegate toy_market 100000000) [5] []
    100000000 [] 0 0 [] [] (Some (\<lparr>mp_authority = [], mp_share = 250\<rparr>\<lparr>mp_share := 10001\<rparr>)) (w, ()) = Inr (evs, w', ())"
proof -
  have p: "(10000 :: u16) < 10001" "(100000000 :: u64) \<le> 100000000"
    by simp_all
  have "purchase toy_market (\<lambda>_ _ _ x. Some x) [7] [9] (listing_delegate toy_market 100000000) [5] []
      100000000 [] 0 0 [] [] (Some (\<lparr>mp_authority = [], mp_share = 250\<rparr>\<lparr>mp_share := 10001\<rparr>)) (w, ()) \<noteq>
      Inr (evs, w', ())" for w evs w'
    by (rule conjunct2 [OF conjunct2 [OF unbounded_share_blocks_purchases [OF toy_market_data(1) p]]])
  then show ?thesis by blast
qed

end
