(* ===== verification/Merkle_Reference.thy ===== *)
theory Merkle_Reference
  imports Merkle_Tree
begin

text \<open>
  \<open>lib/merkle-tree-reference/src/lib.rs\<close>: the off-chain Merkle tree, with all its nodes, that clients
  and tests keep beside the on-chain one. A node is shared through \<open>Rc<RefCell<TreeNode>>\<close>: the
  model has a heap, a list of nodes, in which a reference is a position and allocation appends. The
  loops follow references and have no obvious bound, so they are partial functions: \<open>None\<close> is a loop
  that does not end. Levels and ids (\<open>u32\<close>, \<open>u128\<close>) are natural numbers.
\<close>

record tree_node =
  tn_node :: node
  tn_left :: "nat option"
  tn_right :: "nat option"
  tn_parent :: "nat option"
  tn_level :: nat
  tn_id :: nat

type_synonym heap = "tree_node list"

fun ref_empty_node :: "hashv \<Rightarrow> nat \<Rightarrow> node" where
  "ref_empty_node H 0 = EMPTY"
| "ref_empty_node H (Suc level) = H [ref_empty_node H level, ref_empty_node H level]"

definition tree_node_new :: "node \<Rightarrow> nat \<Rightarrow> nat \<Rightarrow> nat \<Rightarrow> nat \<Rightarrow> tree_node" where
  "tree_node_new node left right level i =
     \<lparr>tn_node = node, tn_left = Some left, tn_right = Some right, tn_parent = None, tn_level = level, tn_id = i\<rparr>"

definition tree_node_new_empty :: "hashv \<Rightarrow> nat \<Rightarrow> nat \<Rightarrow> tree_node" where
  "tree_node_new_empty H level i =
     \<lparr>tn_node = ref_empty_node H level, tn_left = None, tn_right = None, tn_parent = None, tn_level = level,
      tn_id = i\<rparr>"

definition assign_parent :: "heap \<Rightarrow> nat \<Rightarrow> nat \<Rightarrow> heap" where
  "assign_parent h a parent = h[a := (h ! a)\<lparr>tn_parent := Some parent\<rparr>]"

section \<open>Building the tree\<close>

text \<open>
  One round of the loop of \<open>build_root\<close>, on the heap, the queue and the sequence number: the front of
  the queue is joined with its right neighbour, or with a new empty node if the next node in the
  queue belongs to another level.
\<close>

definition build_step :: "hashv \<Rightarrow> heap \<Rightarrow> nat \<Rightarrow> nat \<Rightarrow> nat list \<Rightarrow> nat \<Rightarrow> heap \<times> nat list \<times> nat" where
  "build_step H h left next tree seq_num =
     (let level = tn_level (h ! left);
          (h1, right, tree1, seq1) =
            (if level \<noteq> tn_level (h ! next)
             then (h @ [tree_node_new_empty H level seq_num], length h, next # tree, seq_num + 1)
             else (h, next, tree, seq_num));
          hashed_parent = H [tn_node (h1 ! left), tn_node (h1 ! right)];
          parent = length h1;
          h2 = h1 @ [tree_node_new hashed_parent left right (level + 1) seq1];
          h3 = assign_parent h2 left parent;
          h4 = assign_parent h3 right parent
      in (h4, tree1 @ [parent], seq1 + 1))"

partial_function (option) build_loop ::
  "hashv \<Rightarrow> heap \<Rightarrow> nat list \<Rightarrow> nat \<Rightarrow> (heap \<times> nat list) option" where
  "build_loop H h tree seq_num =
     (case tree of
        left # next # rest \<Rightarrow>
          (case build_step H h left next rest seq_num of
             (h', tree', seq') \<Rightarrow> build_loop H h' tree' seq')
      | _ \<Rightarrow> Some (h, tree))"

definition build_root :: "hashv \<Rightarrow> heap \<Rightarrow> nat list \<Rightarrow> ('e, heap \<times> node) result" where
  "build_root H h leaves =
     (case build_loop H h leaves (length leaves) of
        None \<Rightarrow> Inl Diverge
      | Some (h', tree) \<Rightarrow> (case tree of [] \<Rightarrow> Inl Panic | r # _ \<Rightarrow> Inr (h', tn_node (h' ! r))))"

record merkle_tree =
  mt_heap :: heap
  mt_leaf_nodes :: "nat list"
  mt_root :: node

definition merkle_tree_new :: "hashv \<Rightarrow> node list \<Rightarrow> ('e, merkle_tree) result" where
  "merkle_tree_new H leaves =
     (let h = map (\<lambda>(i, node). (tree_node_new_empty H 0 i)\<lparr>tn_node := node\<rparr>) (enumerate 0 leaves);
          leaf_nodes = [0..<length leaves]
      in and_then (build_root H h leaf_nodes) (\<lambda>(h', root).
         Inr \<lparr>mt_heap = h', mt_leaf_nodes = leaf_nodes, mt_root = root\<rparr>))"

section \<open>Walking to the root\<close>

text \<open>\<open>unwrap\<close> of a missing child panics.\<close>

partial_function (option) proof_loop :: "heap \<Rightarrow> nat \<Rightarrow> node list \<Rightarrow> ('e, node list) result option" where
  "proof_loop h node proof =
     (case tn_parent (h ! node) of
        None \<Rightarrow> Some (Inr proof)
      | Some parent \<Rightarrow>
         (case tn_left (h ! parent) of
            None \<Rightarrow> Some (Inl Panic)
          | Some left \<Rightarrow>
              if tn_id (h ! left) = tn_id (h ! node)
              then (case tn_right (h ! parent) of
                  None \<Rightarrow> Some (Inl Panic)
                | Some right \<Rightarrow> proof_loop h parent (proof @ [tn_node (h ! right)]))
              else proof_loop h parent (proof @ [tn_node (h ! left)])))"

definition get_proof_of_leaf :: "merkle_tree \<Rightarrow> nat \<Rightarrow> ('e, node list) result" where
  "get_proof_of_leaf t idx =
     (if idx < length (mt_leaf_nodes t)
      then (case proof_loop (mt_heap t) (mt_leaf_nodes t ! idx) [] of None \<Rightarrow> Inl Diverge | Some r \<Rightarrow> r)
      else Inl Panic)"

partial_function (option) update_loop :: "hashv \<Rightarrow> heap \<Rightarrow> nat \<Rightarrow> ('e, heap \<times> node) result option" where
  "update_loop H h node =
     (case tn_parent (h ! node) of
        None \<Rightarrow> Some (Inr (h, tn_node (h ! node)))
      | Some parent \<Rightarrow>
         (case tn_left (h ! parent) of
            None \<Rightarrow> Some (Inl Panic)
          | Some left \<Rightarrow>
              if tn_id (h ! left) = tn_id (h ! node)
              then (case tn_right (h ! parent) of
                  None \<Rightarrow> Some (Inl Panic)
                | Some right \<Rightarrow>
                    update_loop H (h[parent := (h ! parent)
                      \<lparr>tn_node := H [tn_node (h ! node), tn_node (h ! right)]\<rparr>]) parent)
              else update_loop H (h[parent := (h ! parent)
                  \<lparr>tn_node := H [tn_node (h ! left), tn_node (h ! node)]\<rparr>]) parent))"

definition update_root_from_leaf :: "hashv \<Rightarrow> merkle_tree \<Rightarrow> nat \<Rightarrow> ('e, merkle_tree) result" where
  "update_root_from_leaf H t leaf_idx =
     (case update_loop H (mt_heap t) (mt_leaf_nodes t ! leaf_idx) of
        None \<Rightarrow> Inl Diverge
      | Some r \<Rightarrow> and_then r (\<lambda>(h', root). Inr (t\<lparr>mt_heap := h', mt_root := root\<rparr>)))"

definition get_leaf_node :: "merkle_tree \<Rightarrow> nat \<Rightarrow> ('e, node) result" where
  "get_leaf_node t idx =
     (if idx < length (mt_leaf_nodes t) then Inr (tn_node (mt_heap t ! (mt_leaf_nodes t ! idx)))
      else Inl Panic)"

definition add_leaf :: "hashv \<Rightarrow> merkle_tree \<Rightarrow> node \<Rightarrow> nat \<Rightarrow> ('e, merkle_tree) result" where
  "add_leaf H t leaf leaf_idx =
     and_then (ensure (leaf_idx < length (mt_leaf_nodes t)) Panic) (\<lambda>_.
     let a = mt_leaf_nodes t ! leaf_idx;
         t' = t\<lparr>mt_heap := (mt_heap t)[a := (mt_heap t ! a)\<lparr>tn_node := leaf\<rparr>]\<rparr>
     in update_root_from_leaf H t' leaf_idx)"

definition remove_leaf :: "hashv \<Rightarrow> merkle_tree \<Rightarrow> nat \<Rightarrow> ('e, merkle_tree) result" where
  "remove_leaf H t leaf_idx =
     and_then (ensure (leaf_idx < length (mt_leaf_nodes t)) Panic) (\<lambda>_.
     let a = mt_leaf_nodes t ! leaf_idx;
         t' = t\<lparr>mt_heap := (mt_heap t)[a := (mt_heap t ! a)\<lparr>tn_node := EMPTY\<rparr>]\<rparr>
     in update_root_from_leaf H t' leaf_idx)"

section \<open>Recomputing a root\<close>

text \<open>\<open>index >> i\<close> on a \<open>u32\<close> panics from \<open>i = 32\<close> on.\<close>

fun ref_recompute_from :: "hashv \<Rightarrow> nat \<Rightarrow> node \<Rightarrow> node list \<Rightarrow> u32 \<Rightarrow> ('e, node) result" where
  "ref_recompute_from H i leaf [] index = Inr leaf"
| "ref_recompute_from H i leaf (s # proof) index =
     and_then (ensure (i < 32) Panic) (\<lambda>_.
     ref_recompute_from H (i + 1)
       (if drop_bit i index AND 1 = 0 then H [leaf, s] else H [s, leaf]) proof index)"

definition ref_recompute :: "hashv \<Rightarrow> node \<Rightarrow> node list \<Rightarrow> u32 \<Rightarrow> ('e, node) result" where
  "ref_recompute H leaf proof index = ref_recompute_from H 0 leaf proof index"

end
