(* ===== verification/Reference_Build.thy ===== *)
theory Reference_Build
  imports Merkle_Reference
begin

text \<open>
  Building the reference tree: the queue always holds the unjoined nodes of one level and the joined
  ones of the next, a node's address is its id, and every node has the hash of the subtree it stands
  for. \<open>A (k, j)\<close> is the address of the node at level \<open>k\<close> and position \<open>j\<close>.
\<close>

section \<open>The shape of a heap under construction\<close>

type_synonym places = "nat \<times> nat \<rightharpoonup> nat"

text \<open>The number of nodes at each level, before padding, over \<open>n\<close> leaves.\<close>

fun width :: "nat \<Rightarrow> nat \<Rightarrow> nat" where
  "width n 0 = n"
| "width n (Suc l) = (width n l + 1) div 2"

definition linked :: "heap \<Rightarrow> places \<Rightarrow> nat \<Rightarrow> nat \<Rightarrow> nat \<Rightarrow> bool" where
  "linked h A k j a \<longleftrightarrow>
     (\<exists>p l r. A (Suc k, j div 2) = Some p \<and> A (k, 2 * (j div 2)) = Some l \<and>
        A (k, Suc (2 * (j div 2))) = Some r \<and> tn_left (h ! p) = Some l \<and> tn_right (h ! p) = Some r \<and>
        tn_parent (h ! a) = Some p)"

text \<open>\<open>V\<close> gives the hash every node should have.\<close>

type_synonym hashes = "nat \<Rightarrow> nat \<Rightarrow> node"

abbreviation tree_hashes :: "hashv \<Rightarrow> leaves \<Rightarrow> hashes" where
  "tree_hashes H L \<equiv> \<lambda>k j. node_at H k j L"

definition placed :: "hashes \<Rightarrow> heap \<Rightarrow> places \<Rightarrow> bool" where
  "placed V h A \<longleftrightarrow>
     (\<forall>k j a. A (k, j) = Some a \<longrightarrow>
        a < length h \<and> tn_id (h ! a) = a \<and> tn_level (h ! a) = k \<and> tn_node (h ! a) = V k j) \<and>
     (\<forall>x y a. A x = Some a \<longrightarrow> A y = Some a \<longrightarrow> x = y)"

text \<open>
  At level \<open>l\<close> the first \<open>2 i\<close> of \<open>m\<close> nodes have been joined into \<open>i\<close> nodes of the next level: these
  and all nodes below are linked to their parents, the others have no parent yet.
\<close>

abbreviation joined :: "nat \<Rightarrow> nat \<Rightarrow> nat \<Rightarrow> nat \<Rightarrow> bool" where
  "joined l i k j \<equiv> k < l \<or> k = l \<and> j < 2 * i"

abbreviation waiting :: "nat \<Rightarrow> nat \<Rightarrow> nat \<Rightarrow> nat \<Rightarrow> nat \<Rightarrow> bool" where
  "waiting l i m k j \<equiv> k = l \<and> j < m \<or> k = Suc l \<and> j < i"

definition building :: "hashes \<Rightarrow> nat \<Rightarrow> heap \<Rightarrow> places \<Rightarrow> nat \<Rightarrow> nat \<Rightarrow> nat \<Rightarrow> bool" where
  "building V n h A l i m \<longleftrightarrow>
     placed V h A \<and>
     (\<forall>k j a. A (k, j) = Some a \<and> joined l i k j \<longrightarrow> linked h A k j a) \<and>
     (\<forall>k j a. A (k, j) = Some a \<and> \<not> joined l i k j \<longrightarrow> tn_parent (h ! a) = None \<and> waiting l i m k j) \<and>
     (\<forall>k j. \<not> joined l i k j \<and> waiting l i m k j \<longrightarrow> (\<exists>a. A (k, j) = Some a)) \<and>
     (\<forall>j<n. A (0, j) = Some j)"

lemma placedD:
  assumes "placed V h A" and "A (k, j) = Some a"
  shows "a < length h" "tn_id (h ! a) = a" "tn_level (h ! a) = k" "tn_node (h ! a) = V k j"
    and "A (k', j') = Some a \<Longrightarrow> k' = k \<and> j' = j"
  using assms unfolding placed_def by blast+

lemma placedI:
  assumes "\<And>k j a. A (k, j) = Some a \<Longrightarrow>
      a < length h \<and> tn_id (h ! a) = a \<and> tn_level (h ! a) = k \<and> tn_node (h ! a) = V k j"
    and "\<And>x y a. A x = Some a \<Longrightarrow> A y = Some a \<Longrightarrow> x = y"
  shows "placed V h A"
  unfolding placed_def using assms by blast

lemma buildingD:
  assumes "building V n h A l i m"
  shows "placed V h A"
    and "\<And>k j a. A (k, j) = Some a \<Longrightarrow> joined l i k j \<Longrightarrow> linked h A k j a"
    and "\<And>k j a. A (k, j) = Some a \<Longrightarrow> \<not> joined l i k j \<Longrightarrow> tn_parent (h ! a) = None"
    and "\<And>k j a. A (k, j) = Some a \<Longrightarrow> \<not> joined l i k j \<Longrightarrow> waiting l i m k j"
    and "\<And>k j. \<not> joined l i k j \<Longrightarrow> waiting l i m k j \<Longrightarrow> \<exists>a. A (k, j) = Some a"
    and "\<And>j. j < n \<Longrightarrow> A (0, j) = Some j"
  using assms unfolding building_def by blast+

lemma buildingI:
  assumes "placed V h A"
    and "\<And>k j a. A (k, j) = Some a \<Longrightarrow> joined l i k j \<Longrightarrow> linked h A k j a"
    and "\<And>k j a. A (k, j) = Some a \<Longrightarrow> \<not> joined l i k j \<Longrightarrow> tn_parent (h ! a) = None"
    and "\<And>k j a. A (k, j) = Some a \<Longrightarrow> \<not> joined l i k j \<Longrightarrow> waiting l i m k j"
    and "\<And>k j. \<not> joined l i k j \<Longrightarrow> waiting l i m k j \<Longrightarrow> \<exists>a. A (k, j) = Some a"
    and "\<And>j. j < n \<Longrightarrow> A (0, j) = Some j"
  shows "building V n h A l i m"
  unfolding building_def using assms by blast

lemma linkedE:
  assumes "linked h A k j a"
  obtains p l r where "A (Suc k, j div 2) = Some p" "A (k, 2 * (j div 2)) = Some l"
    "A (k, Suc (2 * (j div 2))) = Some r" "tn_left (h ! p) = Some l" "tn_right (h ! p) = Some r"
    "tn_parent (h ! a) = Some p"
  using assms unfolding linked_def by blast

lemma linkedI:
  assumes "A (Suc k, j div 2) = Some p" "A (k, 2 * (j div 2)) = Some l"
    "A (k, Suc (2 * (j div 2))) = Some r" "tn_left (h ! p) = Some l" "tn_right (h ! p) = Some r"
    "tn_parent (h ! a) = Some p"
  shows "linked h A k j a"
  using assms unfolding linked_def by blast

text \<open>Old links survive when nodes are added and other parents are assigned.\<close>

lemma linked_mono:
  assumes "linked h A k j a" and "placed V h A"
    and "\<And>x b. A x = Some b \<Longrightarrow> A' x = Some b"
    and "\<And>b. b < length h \<Longrightarrow> tn_left (h' ! b) = tn_left (h ! b) \<and> tn_right (h' ! b) = tn_right (h ! b)"
    and "tn_parent (h' ! a) = tn_parent (h ! a)"
  shows "linked h' A' k j a"
proof -
  from assms(1) obtain p l r where p: "A (Suc k, j div 2) = Some p" "A (k, 2 * (j div 2)) = Some l"
    "A (k, Suc (2 * (j div 2))) = Some r" "tn_left (h ! p) = Some l" "tn_right (h ! p) = Some r"
    "tn_parent (h ! a) = Some p"
    by (rule linkedE)
  have "tn_left (h' ! p) = tn_left (h ! p) \<and> tn_right (h' ! p) = tn_right (h ! p)"
    by (rule assms(4), rule placedD(1) [OF assms(2) p(1)])
  then show ?thesis
    by (intro linkedI [of A' k j p l r]) (use p assms(3,5) in auto)
qed

section \<open>Adding nodes\<close>

lemma ref_empty_node_eq: "ref_empty_node H k = node_at H k j no_leaves"
proof (induction k arbitrary: j)
  case (Suc k)
  show ?case
    by (simp add: Suc [symmetric])
qed simp

lemma placed_add:
  assumes "placed V h A" and "\<And>b. b < length h \<Longrightarrow>
      tn_id (h' ! b) = tn_id (h ! b) \<and> tn_level (h' ! b) = tn_level (h ! b) \<and> tn_node (h' ! b) = tn_node (h ! b)"
    and "length h' = Suc (length h)"
    and "tn_id (h' ! length h) = length h" "tn_level (h' ! length h) = k0" "tn_node (h' ! length h) = V k0 j0"
  shows "placed V h' (A((k0, j0) \<mapsto> length h))"
proof (rule placedI)
  fix k j a assume a: "(A((k0, j0) \<mapsto> length h)) (k, j) = Some a"
  show "a < length h' \<and> tn_id (h' ! a) = a \<and> tn_level (h' ! a) = k \<and> tn_node (h' ! a) = V k j"
  proof (cases "(k, j) = (k0, j0)")
    case True
    then show ?thesis using a assms(3-6) by auto
  next
    case False
    then have "A (k, j) = Some a" using a by auto
    from placedD(1-4) [OF assms(1) this] show ?thesis
      using assms(2) [of a] assms(3) by simp
  qed
next
  fix x y a assume a: "(A((k0, j0) \<mapsto> length h)) x = Some a" "(A((k0, j0) \<mapsto> length h)) y = Some a"
  have old: "b < length h" if "A z = Some b" for z b
    using placedD(1) [OF assms(1), of "fst z" "snd z" b] that by simp
  have new: "z = (k0, j0) \<longleftrightarrow> b = length h" if "(A((k0, j0) \<mapsto> length h)) z = Some b" for z b
    using that old [of z b] by (auto split: if_splits)
  show "x = y"
  proof (cases "a = length h")
    case True
    then show ?thesis using new [OF a(1)] new [OF a(2)] by simp
  next
    case False
    then have "A x = Some a" "A y = Some a" using a by (auto split: if_splits)
    then show ?thesis
      using placedD(5) [OF assms(1), of "fst x" "snd x" a "fst y" "snd y"] by (simp add: prod_eq_iff)
  qed
qed

text \<open>Padding: an empty node after the last one of a level.\<close>

lemma empty_hash:
  assumes e: "\<And>j. n \<le> j \<Longrightarrow> L j = EMPTY" and w: "n \<le> m * 2 ^ l"
  shows "ref_empty_node H l = node_at H l m L"
proof -
  have "L j = EMPTY" if "j div 2 ^ l = m" for j
  proof (rule e)
    have "m * 2 ^ l \<le> j"
      using that by (metis div_times_less_eq_dividend)
    then show "n \<le> j" using w by simp
  qed
  from node_at_empty [OF this] show ?thesis
    using ref_empty_node_eq [of H l 0] by simp
qed

lemma add_pad:
  assumes b: "building V n h A l i (Suc (2 * i))" and e: "ref_empty_node H l = V l (Suc (2 * i))"
  shows "building V n (h @ [tree_node_new_empty H l (length h)]) (A((l, Suc (2 * i)) \<mapsto> length h)) l i (2 * i + 2)"
    (is "building V n ?h ?A l i _")
proof -
  note D = buildingD [OF b]
  have old: "a < length h" if "A (k, j) = Some a" for k j a
    by (rule placedD(1) [OF D(1) that])
  have fresh: "A (l, Suc (2 * i)) = None"
    using D(4) [of l "Suc (2 * i)"] by (cases "A (l, Suc (2 * i))") auto
  have pl: "placed V ?h ?A"
    by (rule placed_add [OF D(1)]) (simp_all add: nth_append tree_node_new_empty_def e)
  have ext: "?A x = Some a" if "A x = Some a" for x a
    using that fresh by auto
  have orig: "A (k, j) = Some a" if "?A (k, j) = Some a" "(k, j) \<noteq> (l, Suc (2 * i))" for k j a
    using that by auto
  show ?thesis
  proof (rule buildingI [OF pl])
    fix k j a assume a: "?A (k, j) = Some a" "joined l i k j"
    then have a': "A (k, j) = Some a" by (auto split: if_splits)
    show "linked ?h ?A k j a"
      by (rule linked_mono [OF D(2) [OF a' a(2)] D(1) ext])
        (use old [OF a'] in \<open>simp_all add: nth_append\<close>)
  next
    fix k j a assume a: "?A (k, j) = Some a" "\<not> joined l i k j"
    show "tn_parent (?h ! a) = None"
    proof (cases "(k, j) = (l, Suc (2 * i))")
      case True
      then show ?thesis using a(1) by (auto simp: tree_node_new_empty_def nth_append)
    next
      case False
      note a' = orig [OF a(1) False]
      show ?thesis using D(3) [OF a' a(2)] old [OF a'] by (simp add: nth_append)
    qed
    show "waiting l i (2 * i + 2) k j"
    proof (cases "(k, j) = (l, Suc (2 * i))")
      case False
      then show ?thesis using D(4) [OF orig [OF a(1) False] a(2)] by auto
    qed simp
  next
    fix k j assume "\<not> joined l i k j" "waiting l i (2 * i + 2) k j"
    then show "\<exists>a. ?A (k, j) = Some a"
      using D(5) [of k j] by (cases "(k, j) = (l, Suc (2 * i))") auto
  next
    fix j assume "j < n"
    then show "?A (0, j) = Some j"
      by (intro ext D(6))
  qed
qed

text \<open>Joining two nodes under a new parent.\<close>

definition join_nodes :: "hashv \<Rightarrow> heap \<Rightarrow> nat \<Rightarrow> nat \<Rightarrow> nat \<Rightarrow> heap" where
  "join_nodes H h l a b =
     assign_parent (assign_parent
       (h @ [tree_node_new (H [tn_node (h ! a), tn_node (h ! b)]) a b (l + 1) (length h)])
       a (length h)) b (length h)"

lemma join_nodes_facts:
  assumes "a < length h" and "b < length h"
  shows "length (join_nodes H h l a b) = Suc (length h)"
    and "join_nodes H h l a b ! length h = tree_node_new (H [tn_node (h ! a), tn_node (h ! b)]) a b (l + 1) (length h)"
    and "\<And>c. c < length h \<Longrightarrow> c \<noteq> a \<Longrightarrow> c \<noteq> b \<Longrightarrow> join_nodes H h l a b ! c = h ! c"
    and "\<And>c. c = a \<or> c = b \<Longrightarrow> join_nodes H h l a b ! c = (h ! c)\<lparr>tn_parent := Some (length h)\<rparr>"
  using assms by (auto simp: join_nodes_def assign_parent_def nth_append nth_list_update)

lemma join_nodes_keeps:
  assumes "a < length h" and "b < length h" and "c < length h"
  shows "tn_id (join_nodes H h l a b ! c) = tn_id (h ! c)"
    and "tn_level (join_nodes H h l a b ! c) = tn_level (h ! c)"
    and "tn_node (join_nodes H h l a b ! c) = tn_node (h ! c)"
    and "tn_left (join_nodes H h l a b ! c) = tn_left (h ! c)"
    and "tn_right (join_nodes H h l a b ! c) = tn_right (h ! c)"
  using assms by (auto simp: join_nodes_def assign_parent_def nth_append nth_list_update)

lemma add_parent:
  assumes b: "building V n h A l i m" and m: "Suc (2 * i) < m"
    and l: "A (l, 2 * i) = Some a" and r: "A (l, Suc (2 * i)) = Some c"
    and v: "V (Suc l) i = H [V l (2 * i), V l (Suc (2 * i))]"
  shows "building V n (join_nodes H h l a c) (A((Suc l, i) \<mapsto> length h)) l (Suc i) m"
    (is "building V n ?h ?A l _ m")
proof -
  note D = buildingD [OF b]
  have old: "e < length h" if "A (k, j) = Some e" for k j e
    by (rule placedD(1) [OF D(1) that])
  note J = join_nodes_facts [where H = H and l = l, OF old [OF l] old [OF r]]
    and K = join_nodes_keeps [where H = H and l = l, OF old [OF l] old [OF r]]
  have fresh: "A (Suc l, i) = None"
    using D(4) [of "Suc l" i] by (cases "A (Suc l, i)") auto
  have pl: "placed V ?h ?A"
    by (rule placed_add [OF D(1)])
      (simp_all add: J K tree_node_new_def v placedD(4) [OF D(1) l] placedD(4) [OF D(1) r])
  have ext: "?A x = Some e" if "A x = Some e" for x e
    using that fresh by auto
  have orig: "A (k, j) = Some e" if "?A (k, j) = Some e" "(k, j) \<noteq> (Suc l, i)" for k j e
    using that by auto
  have both: "(k, j) = (l, 2 * i) \<or> (k, j) = (l, Suc (2 * i))"
    if "A (k, j) = Some e" "e = a \<or> e = c" for k j e
    using that placedD(5) [OF D(1) l, of k j] placedD(5) [OF D(1) r, of k j] by blast
  have up: "linked ?h ?A l j e" if j: "j = 2 * i \<or> j = Suc (2 * i)" and e: "e = a \<or> e = c" for j e
    by (rule linkedI [of _ _ _ "length h" a c])
      (use j in \<open>auto simp: J(2) J(4) [OF e] tree_node_new_def l r intro: ext\<close>)
  show ?thesis
  proof (rule buildingI [OF pl])
    fix k j e assume a: "?A (k, j) = Some e" "joined l (Suc i) k j"
    then have a': "A (k, j) = Some e" by (intro orig) auto
    show "linked ?h ?A k j e"
    proof (cases "joined l i k j")
      case True
      then have "\<not> (e = a \<or> e = c)" using both [OF a'] by auto
      then show ?thesis
        by (intro linked_mono [OF D(2) [OF a' True] D(1) ext])
          (use old [OF a'] in \<open>simp_all add: K J\<close>)
    next
      case False
      then have j: "k = l" "j = 2 * i \<or> j = Suc (2 * i)" using a(2) by auto
      have "e = a \<or> e = c" using a' j l r by auto
      from up [OF j(2) this] show ?thesis by (simp add: j(1))
    qed
  next
    fix k j e assume a: "?A (k, j) = Some e" "\<not> joined l (Suc i) k j"
    show "tn_parent (?h ! e) = None"
    proof (cases "(k, j) = (Suc l, i)")
      case True
      then show ?thesis using a(1) by (auto simp: J(2) tree_node_new_def)
    next
      case False
      note a' = orig [OF a(1) False]
      have "e \<noteq> a" "e \<noteq> c" using both [OF a'] a(2) by auto
      then show ?thesis using D(3) [OF a'] a(2) old [OF a'] by (auto simp: J(3))
    qed
    show "waiting l (Suc i) m k j"
    proof (cases "(k, j) = (Suc l, i)")
      case False
      have "\<not> joined l i k j" using a(2) by auto
      from D(4) [OF orig [OF a(1) False] this] show ?thesis by auto
    qed simp
  next
    fix k j assume "\<not> joined l (Suc i) k j" "waiting l (Suc i) m k j"
    then show "\<exists>e. ?A (k, j) = Some e"
      using D(5) [of k j] by (cases "(k, j) = (Suc l, i)") auto
  next
    fix j assume "j < n"
    then show "?A (0, j) = Some j"
      by (intro ext D(6))
  qed
qed

lemma building_next:
  assumes b: "building V n h A l i m" and m: "m \<le> 2 * i" and i: "m' = i"
  shows "building V n h A (Suc l) 0 m'"
proof -
  note D = buildingD [OF b]
  show ?thesis
  proof (rule buildingI [OF D(1)])
    fix k j a assume a: "A (k, j) = Some a" "joined (Suc l) 0 k j"
    have "joined l i k j" using a(2) D(4) [OF a(1)] m by (cases "j < 2 * i") auto
    then show "linked h A k j a" by (rule D(2) [OF a(1)])
  next
    fix k j a assume a: "A (k, j) = Some a" "\<not> joined (Suc l) 0 k j"
    then have n: "\<not> joined l i k j" by auto
    show "tn_parent (h ! a) = None" by (rule D(3) [OF a(1) n])
    show "waiting (Suc l) 0 m' k j" using D(4) [OF a(1) n] a(2) i by auto
  next
    fix k j assume "\<not> joined (Suc l) 0 k j" "waiting (Suc l) 0 m' k j"
    then show "\<exists>a. A (k, j) = Some a" using D(5) [of k j] i by auto
  qed (rule D(6))
qed

section \<open>The loop\<close>

definition queue_of :: "places \<Rightarrow> nat \<Rightarrow> nat \<Rightarrow> nat \<Rightarrow> nat list" where
  "queue_of A l i m = map (\<lambda>j. the (A (l, j))) [2 * i..<m] @ map (\<lambda>j. the (A (Suc l, j))) [0..<i]"

lemma build_step_join:
  assumes "tn_level (h ! a) = l" and "tn_level (h ! b) = l"
  shows "build_step H h a b rest (length h) =
    (join_nodes H h l a b, rest @ [length h], length (join_nodes H h l a b))"
  using assms by (simp add: build_step_def join_nodes_def assign_parent_def Let_def)

lemma build_step_pad:
  assumes "tn_level (h ! a) = l" and "tn_level (h ! b) \<noteq> l" and "a < length h"
    and "h' = h @ [tree_node_new_empty H l (length h)]"
  shows "build_step H h a b rest (length h) =
    (join_nodes H h' l a (length h), b # rest @ [length h'], length (join_nodes H h' l a (length h)))"
  using assms by (simp add: build_step_def join_nodes_def assign_parent_def Let_def nth_append tree_node_new_empty_def)

lemma queue_of_front:
  assumes "2 * i < m" and "A (l, 2 * i) = Some a"
  shows "queue_of A l i m =
    a # map (\<lambda>j. the (A (l, j))) [Suc (2 * i)..<m] @ map (\<lambda>j. the (A (Suc l, j))) [0..<i]"
  using assms by (simp add: queue_of_def upt_conv_Cons)

lemma queue_of_upd:
  "queue_of (A((Suc l, i) \<mapsto> c)) l (Suc i) m =
    map (\<lambda>j. the (A (l, j))) [2 * Suc i..<m] @ map (\<lambda>j. the (A (Suc l, j))) [0..<i] @ [c]"
  by (simp add: queue_of_def)

lemma queue_of_next: "m \<le> 2 * i \<Longrightarrow> m' = i \<Longrightarrow> queue_of A l i m = queue_of A (Suc l) 0 m'"
  by (simp add: queue_of_def)

lemma build_loop_step:
  assumes "build_step H h a b rest s = (h', q', s')"
  shows "build_loop H h (a # b # rest) s = build_loop H h' q' s'"
  by (subst build_loop.simps) (simp add: assms)

text \<open>One pass over a level, from the first of its nodes to the last.\<close>

lemma build_level:
  assumes "building (tree_hashes H L) n h A l i (width n l)" and "1 < width n l" and "2 * i \<le> width n l"
    and e: "ref_empty_node H l = node_at H l (width n l) L"
  shows "\<exists>h' A'. building (tree_hashes H L) n h' A' (Suc l) 0 (width n (Suc l)) \<and>
    build_loop H h (queue_of A l i (width n l)) (length h) =
    build_loop H h' (queue_of A' (Suc l) 0 (width n (Suc l))) (length h')"
  using assms(1,3)
proof (induction "width n l - 2 * i" arbitrary: h A i rule: less_induct)
  case less
  let ?m = "width n l"
  note D = buildingD [OF less.prems(1)]
  have w: "width n (Suc l) = Suc i" if "?m = Suc (2 * i) \<or> ?m = Suc (Suc (2 * i))"
    using that by auto
  consider "?m = 2 * i" | "?m = Suc (2 * i)" | "Suc (2 * i) < ?m"
    using less.prems(2) by linarith
  then show ?case
  proof cases
    case 1
    then have w': "width n (Suc l) = i" by simp
    have m: "?m \<le> 2 * i" using 1 by simp
    show ?thesis
      by (intro exI conjI, rule building_next [OF less.prems(1) m w'],
          simp only: queue_of_next [OF m w'])
  next
    case 2
    obtain a where a: "A (l, 2 * i) = Some a"
      using D(5) [of l "2 * i"] 2 by auto
    have "0 < i" using 2 assms(2) by simp
    then obtain b where b: "A (Suc l, 0) = Some b"
      using D(5) [of "Suc l" 0] by auto
    let ?h = "h @ [tree_node_new_empty H l (length h)]" and ?A = "A((l, Suc (2 * i)) \<mapsto> length h)"
    let ?h' = "join_nodes H ?h l a (length h)" and ?A' = "?A((Suc l, i) \<mapsto> length ?h)"
    have "building (tree_hashes H L) n ?h ?A l i (2 * i + 2)"
      by (rule add_pad [OF less.prems(1) [unfolded 2] e [unfolded 2]])
    then have B: "building (tree_hashes H L) n ?h' ?A' l (Suc i) (2 * i + 2)"
      by (rule add_parent) (use a in simp_all)
    have q: "queue_of A l i ?m = a # b # map (\<lambda>j. the (A (Suc l, j))) [1..<i]"
      using \<open>0 < i\<close> by (simp add: queue_of_front [where A = A and l = l and i = i, OF _ a] 2 upt_conv_Cons [of 0] b)
    have q': "queue_of ?A' l (Suc i) (2 * i + 2) = b # map (\<lambda>j. the (A (Suc l, j))) [1..<i] @ [length ?h]"
      using \<open>0 < i\<close> by (simp add: queue_of_upd upt_conv_Cons [of 0] b)
    have "build_step H h a b (map (\<lambda>j. the (A (Suc l, j))) [1..<i]) (length h) =
      (?h', queue_of ?A' l (Suc i) (2 * i + 2), length ?h')"
      unfolding q'
      by (rule build_step_pad)
        (use placedD [OF D(1) a] placedD [OF D(1) b] in simp_all)
    then have "build_loop H h (queue_of A l i ?m) (length h) =
      build_loop H ?h' (queue_of ?A' l (Suc i) (2 * i + 2)) (length ?h')"
      unfolding q by (rule build_loop_step)
    moreover have "width n (Suc l) = Suc i" using w 2 by simp
    ultimately show ?thesis
      using building_next [OF B, of "width n (Suc l)"] queue_of_next [of "2 * i + 2" "Suc i" "width n (Suc l)" ?A' l]
      by auto
  next
    case 3
    obtain a where a: "A (l, 2 * i) = Some a"
      using D(5) [of l "2 * i"] 3 by auto
    obtain b where b: "A (l, Suc (2 * i)) = Some b"
      using D(5) [of l "Suc (2 * i)"] 3 by auto
    let ?rest = "map (\<lambda>j. the (A (l, j))) [2 * Suc i..<?m] @ map (\<lambda>j. the (A (Suc l, j))) [0..<i]"
    let ?h = "join_nodes H h l a b" and ?A = "A((Suc l, i) \<mapsto> length h)"
    have B: "building (tree_hashes H L) n ?h ?A l (Suc i) ?m"
      by (rule add_parent [OF less.prems(1) 3 a b]) simp
    have q: "queue_of A l i ?m = a # b # ?rest"
      using 3 by (simp add: queue_of_front [where A = A and l = l and i = i, OF _ a] upt_conv_Cons [of "Suc (2 * i)"] b)
    have "build_step H h a b ?rest (length h) = (?h, queue_of ?A l (Suc i) ?m, length ?h)"
      using build_step_join [of h a l b H ?rest] placedD [OF D(1) a] placedD [OF D(1) b]
      by (simp add: queue_of_upd)
    then have "build_loop H h (queue_of A l i ?m) (length h) =
      build_loop H ?h (queue_of ?A l (Suc i) ?m) (length ?h)"
      unfolding q by (rule build_loop_step)
    moreover have "\<exists>h' A'. building (tree_hashes H L) n h' A' (Suc l) 0 (width n (Suc l)) \<and>
      build_loop H ?h (queue_of ?A l (Suc i) ?m) (length ?h) =
      build_loop H h' (queue_of A' (Suc l) 0 (width n (Suc l))) (length h')"
      by (rule less.hyps [OF _ B]) (use 3 in simp_all)
    ultimately show ?thesis by simp
  qed
qed

section \<open>The whole tree\<close>

lemma width_eq: "width n l = (n + 2 ^ l - 1) div 2 ^ l"
proof (induction l)
  case (Suc l)
  have "width n (Suc l) = ((n + 2 ^ l - 1) div 2 ^ l + 1) div 2"
    by (simp add: Suc)
  also have "(n + 2 ^ l - 1) div 2 ^ l + 1 = (n + 2 ^ l - 1 + 2 ^ l) div 2 ^ l"
    by (subst div_add_self2) simp_all
  also have "\<dots> div 2 = (n + 2 ^ l - 1 + 2 ^ l) div 2 ^ Suc l"
    by (simp only: power_Suc2 div_mult2_eq)
  also have "n + 2 ^ l - 1 + 2 ^ l = n + 2 ^ Suc l - 1"
    by simp
  finally show ?case .
qed simp

lemma width_top: "0 < n \<Longrightarrow> n \<le> 2 ^ d \<Longrightarrow> width n d = 1"
  unfolding width_eq by (rule div_nat_eqI) auto

lemma width_below:
  assumes "2 ^ d < 2 * n" and "k < d"
  shows "1 < width n k"
proof -
  have "2 * 2 ^ k \<le> (2 ^ d :: nat)"
    using power_increasing [of "Suc k" d "2 :: nat"] assms(2) by simp
  then have "2 * 2 ^ k \<le> n + 2 ^ k - 1"
    using assms(1) by linarith
  then have "2 * 2 ^ k div 2 ^ k \<le> width n k"
    unfolding width_eq by (rule div_le_mono)
  then show ?thesis by simp
qed

lemma width_covers: "n \<le> width n l * 2 ^ l"
proof -
  have "(n + 2 ^ l - 1) mod 2 ^ l < 2 ^ l" by simp
  then have "n + 2 ^ l - 1 < width n l * 2 ^ l + 2 ^ l"
    unfolding width_eq using div_mult_mod_eq [of "n + 2 ^ l - 1" "2 ^ l"] by linarith
  then show ?thesis by linarith
qed

lemma build_levels:
  assumes "building (tree_hashes H L) n h A l 0 (width n l)" and "l \<le> d"
    and top: "width n d = 1" and below: "\<And>k. k < d \<Longrightarrow> 1 < width n k"
    and e: "\<And>j. n \<le> j \<Longrightarrow> L j = EMPTY"
  shows "\<exists>h' A' r. building (tree_hashes H L) n h' A' d 0 1 \<and> A' (d, 0) = Some r \<and>
    build_loop H h (queue_of A l 0 (width n l)) (length h) = Some (h', [r])"
  using assms(1,2)
proof (induction "d - l" arbitrary: h A l)
  case 0
  then have l: "l = d" by simp
  have b: "building (tree_hashes H L) n h A d 0 1"
    using 0(2) by (simp only: l top)
  obtain r where r: "A (d, 0) = Some r"
    using buildingD(5) [OF b, of d 0] by auto
  have "build_loop H h (queue_of A l 0 (width n l)) (length h) = Some (h, [r])"
    by (subst build_loop.simps) (simp add: l top queue_of_def r)
  then show ?case using b r by blast
next
  case (Suc k)
  then have "l < d" by simp
  have "ref_empty_node H l = node_at H l (width n l) L"
    by (rule empty_hash [OF e width_covers])
  from build_level [OF Suc.prems(1) below [OF \<open>l < d\<close>] _ this]
  obtain h' A' where "building (tree_hashes H L) n h' A' (Suc l) 0 (width n (Suc l))"
    and eq: "build_loop H h (queue_of A l 0 (width n l)) (length h) =
      build_loop H h' (queue_of A' (Suc l) 0 (width n (Suc l))) (length h')"
    by auto
  from Suc.hyps(1) [OF _ this(1)] Suc.hyps(2) \<open>l < d\<close> show ?case
    unfolding eq by simp
qed

lemma build_start:
  assumes "length ls = n" and "\<And>j. j < n \<Longrightarrow> L j = ls ! j"
  shows "building (tree_hashes H L) n
    (map (\<lambda>(i, node). (tree_node_new_empty H 0 i)\<lparr>tn_node := node\<rparr>) (enumerate 0 ls))
    (\<lambda>(k, j). if k = 0 \<and> j < n then Some j else None) 0 0 n"
  by (intro buildingI placedI)
    (auto simp: assms tree_node_new_empty_def nth_enumerate_eq split: if_splits)

lemma build_root_ok:
  assumes "0 < n" and "n \<le> 2 ^ d" and "2 ^ d < 2 * n"
    and "building (tree_hashes H L) n h A 0 0 n" and "length h = n" and "\<And>j. n \<le> j \<Longrightarrow> L j = EMPTY"
  shows "\<exists>h' A'. building (tree_hashes H L) n h' A' d 0 1 \<and>
    build_root H h [0..<n] = Inr (h', tree_root H d L)"
proof -
  have "map (\<lambda>j. the (A (0, j))) [0..<n] = [0..<n]"
    by (rule map_idI) (use buildingD(6) [OF assms(4)] in simp)
  then have q: "queue_of A 0 0 (width n 0) = [0..<n]"
    by (simp add: queue_of_def)
  have "building (tree_hashes H L) n h A 0 0 (width n 0)"
    using assms(4) by simp
  from build_levels [OF this _ width_top [OF assms(1,2)] width_below [OF assms(3)] assms(6)]
  obtain h' A' r where b: "building (tree_hashes H L) n h' A' d 0 1" and r: "A' (d, 0) = Some r"
    and l: "build_loop H h (queue_of A 0 0 (width n 0)) (length h) = Some (h', [r])"
    by blast
  have "tn_node (h' ! r) = tree_root H d L"
    using placedD(4) [OF buildingD(1) [OF b] r] by (simp add: tree_root_def)
  then have "build_root H h [0..<n] = Inr (h', tree_root H d L)"
    using l unfolding q assms(5) by (simp add: build_root_def)
  with b show ?thesis by blast
qed

end
