(* ===== verification/Reference_Tree.thy ===== *)
theory Reference_Tree
  imports Reference_Build
begin

text \<open>
  Operations on the reference tree once it is built: every node is linked to its parent up to the
  root, so the walks end, \<open>get_proof_of_leaf\<close> collects the siblings of the way to the root and
  \<open>update_root_from_leaf\<close> rehashes that way. \<open>ref_rep\<close> says that a tree stands for a list of leaves.
\<close>

section \<open>Walking up\<close>

abbreviation built :: "hashes \<Rightarrow> nat \<Rightarrow> nat \<Rightarrow> heap \<Rightarrow> places \<Rightarrow> bool" where
  "built V n d h A \<equiv> building V n h A d 0 1"

lemma built_top:
  assumes "built V n d h A" and "A (d, j) = Some a"
  shows "tn_parent (h ! a) = None" and "tn_node (h ! a) = V d 0"
  using buildingD(3,4) [OF assms] placedD(4) [OF buildingD(1) [OF assms(1)] assms(2)] by auto

text \<open>The node on the way to the root, its parent and its sibling.\<close>

lemma built_step:
  assumes b: "built V n d h A" and a: "A (k, j) = Some a" and k: "k < d"
  obtains p s where "tn_parent (h ! a) = Some p" "A (Suc k, j div 2) = Some p"
    "A (k, sibling j) = Some s" "p \<noteq> a" "tn_node (h ! s) = V k (sibling j)"
    "even j \<Longrightarrow> tn_left (h ! p) = Some a \<and> tn_right (h ! p) = Some s"
    "odd j \<Longrightarrow> tn_left (h ! p) = Some s \<and> tn_id (h ! s) \<noteq> tn_id (h ! a)"
proof -
  note pl = buildingD(1) [OF b]
  have "linked h A k j a"
    by (rule buildingD(2) [OF b a]) (use k in simp)
  then obtain p l r where p: "A (Suc k, j div 2) = Some p" "A (k, 2 * (j div 2)) = Some l"
    "A (k, Suc (2 * (j div 2))) = Some r" "tn_left (h ! p) = Some l" "tn_right (h ! p) = Some r"
    "tn_parent (h ! a) = Some p"
    by (rule linkedE)
  have pa: "p \<noteq> a"
    using placedD(5) [OF pl p(1), of k j] a by auto
  have ids: "tn_id (h ! c) = c" if "A (k, i) = Some c" for i c
    by (rule placedD(2) [OF pl that])
  show ?thesis
  proof (cases "even j")
    case True
    then have j: "2 * (j div 2) = j" "sibling j = Suc (2 * (j div 2))"
      by (auto simp: sibling_def)
    then have "l = a" using p(2) a by simp
    with p pa j True show ?thesis
      by (intro that [of p r]) (auto simp: placedD(4) [OF pl])
  next
    case False
    then have j: "Suc (2 * (j div 2)) = j" "sibling j = 2 * (j div 2)"
      by (auto simp: sibling_def elim!: oddE)
    then have "l \<noteq> a" using p(2) a placedD(5) [OF pl p(2), of k j] by auto
    then have "tn_id (h ! l) \<noteq> tn_id (h ! a)"
      using ids [OF p(2)] ids [OF a] by simp
    with p pa j False show ?thesis
      by (intro that [of p l]) (auto simp: placedD(4) [OF pl])
  qed
qed

lemma proof_loop_eq:
  assumes b: "built V n d h A" and "A (k, i div 2 ^ k) = Some a" and "k \<le> d"
  shows "(proof_loop h a acc :: ('e, node list) result option) = Some (Inr (acc @ map (\<lambda>k. V k (sibling (i div 2 ^ k))) [k..<d]))"
  using assms(2,3)
proof (induction "d - k" arbitrary: k a acc)
  case 0
  then have "k = d" by simp
  with built_top(1) [OF b] 0(2) show ?case
    by (subst proof_loop.simps) simp
next
  case (Suc m)
  then have k: "k < d" and m: "m = d - Suc k" by simp_all
  obtain p s where p: "tn_parent (h ! a) = Some p" "A (Suc k, i div 2 ^ k div 2) = Some p"
    and s: "tn_node (h ! s) = V k (sibling (i div 2 ^ k))"
    and e: "even (i div 2 ^ k) \<Longrightarrow> tn_left (h ! p) = Some a \<and> tn_right (h ! p) = Some s"
    and o: "odd (i div 2 ^ k) \<Longrightarrow> tn_left (h ! p) = Some s \<and> tn_id (h ! s) \<noteq> tn_id (h ! a)"
    by (rule built_step [OF b Suc.prems(1) k]) blast
  have "(proof_loop h a acc :: ('e, node list) result option) = proof_loop h p (acc @ [V k (sibling (i div 2 ^ k))])"
    by (cases "even (i div 2 ^ k)"; subst proof_loop.simps) (use e o in \<open>simp_all add: p(1) s\<close>)
  moreover have "A (Suc k, i div 2 ^ Suc k) = Some p"
    using p(2) by (simp only: div_pow_Suc)
  ultimately show ?case
    using Suc.hyps(1) [OF m, of p] k by (simp add: upt_conv_Cons del: power_Suc)
qed

section \<open>Rehashing the way up\<close>

lemma building_hash:
  assumes "building V n h A l i m" and "A (k, j) = Some p"
    and V': "\<And>k' j' a. A (k', j') = Some a \<Longrightarrow> V' k' j' = (if k' = k \<and> j' = j then x else V k' j')"
  shows "building V' n (h[p := (h ! p)\<lparr>tn_node := x\<rparr>]) A l i m"
proof -
  note D = buildingD [OF assms(1)]
  let ?h = "h[p := (h ! p)\<lparr>tn_node := x\<rparr>]"
  have p: "p < length h"
    by (rule placedD(1) [OF D(1) assms(2)])
  have links: "tn_left (?h ! b) = tn_left (h ! b)" "tn_right (?h ! b) = tn_right (h ! b)"
    "tn_parent (?h ! b) = tn_parent (h ! b)" for b
    using p by (simp_all add: nth_list_update)
  have "placed V' ?h A"
  proof (rule placedI)
    fix k' j' a assume a: "A (k', j') = Some a"
    have "a = p \<longleftrightarrow> k' = k \<and> j' = j"
      using placedD(5) [OF D(1) assms(2), of k' j'] a assms(2) by auto
    then show "a < length ?h \<and> tn_id (?h ! a) = a \<and> tn_level (?h ! a) = k' \<and> tn_node (?h ! a) = V' k' j'"
      using placedD(1-4) [OF D(1) a] p V' [OF a] by (auto simp: nth_list_update)
  next
    fix u v a assume "A u = Some a" "A v = Some a"
    then show "u = v"
      using placedD(5) [OF D(1), of "fst u" "snd u" a "fst v" "snd v"] by (simp add: prod_eq_iff)
  qed
  then show ?thesis
  proof (rule buildingI)
    fix k' j' a assume "A (k', j') = Some a" "joined l i k' j'"
    then show "linked ?h A k' j' a"
      by (intro linked_mono [OF D(2) D(1)]) (simp_all add: links)
  next
    fix k' j' a assume "A (k', j') = Some a" "\<not> joined l i k' j'"
    then show "tn_parent (?h ! a) = None" "waiting l i m k' j'"
      using D(3,4) by (simp_all add: links)
  qed (use D(5,6) in auto)
qed

text \<open>The hashes when the way from leaf \<open>i\<close> has been recomputed up to level \<open>k\<close>.\<close>

definition climbed :: "hashv \<Rightarrow> leaves \<Rightarrow> nat \<Rightarrow> node \<Rightarrow> nat \<Rightarrow> hashes" where
  "climbed H L i x k k' j' = (if k' \<le> k then node_at H k' j' (L(i := x)) else node_at H k' j' L)"

lemma climbed_Suc:
  "climbed H L i x (Suc k) k' j' =
    (if k' = Suc k \<and> j' = i div 2 ^ Suc k then node_at H (Suc k) (i div 2 ^ Suc k) (L(i := x))
     else climbed H L i x k k' j')"
  by (cases "k' = Suc k \<and> j' \<noteq> i div 2 ^ Suc k")
    (auto simp: climbed_def node_at_upd_other le_Suc_eq simp del: power_Suc node_at.simps)

lemma update_loop_eq:
  assumes "built (climbed H L i x k) n d h A" and "A (k, i div 2 ^ k) = Some a" and "k \<le> d"
  shows "\<exists>h'. (update_loop H h a :: ('e, heap \<times> node) result option) = Some (Inr (h', tree_root H d (L(i := x)))) \<and>
    built (tree_hashes H (L(i := x))) n d h' A"
  using assms
proof (induction "d - k" arbitrary: k a h)
  case 0
  then have k: "k = d" by simp
  note b = 0(2) [unfolded k] and a = 0(3) [unfolded k]
  have "(update_loop H h a :: ('e, heap \<times> node) result option) = Some (Inr (h, tree_root H d (L(i := x))))"
    using built_top [OF b a] by (subst update_loop.simps) (simp add: climbed_def tree_root_def)
  moreover have "built (tree_hashes H (L(i := x))) n d (h[a := (h ! a)\<lparr>tn_node := tn_node (h ! a)\<rparr>]) A"
  proof (rule building_hash [OF b a])
    fix k' j' a' assume "A (k', j') = Some a'"
    then have "k' \<le> d" using buildingD(4) [OF b, of k' j' a'] by (cases "k' < d") auto
    then show "node_at H k' j' (L(i := x)) =
        (if k' = d \<and> j' = i div 2 ^ d then tn_node (h ! a) else climbed H L i x d k' j')"
      using placedD(4) [OF buildingD(1) [OF b] a] by (auto simp: climbed_def)
  qed
  ultimately show ?case by (auto simp del: fun_upd_apply)
next
  case (Suc m)
  note b = Suc.prems(1)
  from Suc.hyps(2) have k: "k < d" and m: "m = d - Suc k" by simp_all
  let ?j = "i div 2 ^ k" and ?v = "node_at H (Suc k) (i div 2 ^ Suc k) (L(i := x))"
  obtain p s where p: "tn_parent (h ! a) = Some p" "A (Suc k, ?j div 2) = Some p"
    and s: "tn_node (h ! s) = climbed H L i x k k (sibling ?j)"
    and e: "even ?j \<Longrightarrow> tn_left (h ! p) = Some a \<and> tn_right (h ! p) = Some s"
    and o: "odd ?j \<Longrightarrow> tn_left (h ! p) = Some s \<and> tn_id (h ! s) \<noteq> tn_id (h ! a)"
    by (rule built_step [OF b Suc.prems(2) k]) blast
  have p': "A (Suc k, i div 2 ^ Suc k) = Some p"
    using p(2) by (simp only: div_pow_Suc)
  have a: "tn_node (h ! a) = node_at H k ?j (L(i := x))"
    using placedD(4) [OF buildingD(1) [OF b] Suc.prems(2)] by (simp add: climbed_def)
  have s': "tn_node (h ! s) = node_at H k (sibling ?j) (L(i := x))"
    using s by (simp add: climbed_def)
  let ?h = "h[p := (h ! p)\<lparr>tn_node := ?v\<rparr>]"
  have "(update_loop H h a :: ('e, heap \<times> node) result option) = update_loop H ?h p"
    unfolding node_at_parent
    by (cases "even ?j"; subst update_loop.simps) (use e o in \<open>simp_all add: p(1) a s'\<close>)
  moreover have "built (climbed H L i x (Suc k)) n d ?h A"
    by (rule building_hash [OF b p']) (rule climbed_Suc)
  then have "\<exists>h'. (update_loop H ?h p :: ('e, heap \<times> node) result option) = Some (Inr (h', tree_root H d (L(i := x)))) \<and>
    built (tree_hashes H (L(i := x))) n d h' A"
    by (rule Suc.hyps(1) [OF m _ p']) (use k in simp)
  ultimately show ?case by simp
qed

section \<open>What the tree stands for\<close>

definition mirrors :: "hashv \<Rightarrow> nat \<Rightarrow> nat \<Rightarrow> merkle_tree \<Rightarrow> leaves \<Rightarrow> bool" where
  "mirrors H d m t L \<longleftrightarrow>
     mt_leaf_nodes t = [0..<m] \<and> mt_root t = tree_root H d L \<and>
     (\<exists>A. built (tree_hashes H L) m d (mt_heap t) A)"

definition leaves_of :: "node list \<Rightarrow> leaves" where
  "leaves_of ls j = (if j < length ls then ls ! j else EMPTY)"

lemma leaves_of_update: "i < length ls \<Longrightarrow> leaves_of (ls[i := x]) = (leaves_of ls)(i := x)"
  by (rule ext) (simp add: leaves_of_def nth_list_update)

lemma merkle_tree_new_ok:
  assumes "ls \<noteq> []" and "length ls \<le> 2 ^ d" and "2 ^ d < 2 * length ls"
  shows "\<exists>t. (merkle_tree_new H ls :: ('e, merkle_tree) result) = Inr t \<and> mirrors H d (length ls) t (leaves_of ls)"
proof -
  let ?n = "length ls"
  let ?h = "map (\<lambda>(i, node). (tree_node_new_empty H 0 i)\<lparr>tn_node := node\<rparr>) (enumerate 0 ls)"
  have b: "building (tree_hashes H (leaves_of ls)) ?n ?h
      (\<lambda>(k, j). if k = 0 \<and> j < ?n then Some j else None) 0 0 ?n"
    by (rule build_start) (simp_all add: leaves_of_def)
  obtain h' A' where "building (tree_hashes H (leaves_of ls)) ?n h' A' d 0 1"
    and "(build_root H ?h [0..<?n] :: ('e, heap \<times> node) result) = Inr (h', tree_root H d (leaves_of ls))"
    using build_root_ok [OF _ assms(2,3) b] assms(1) by (auto simp: leaves_of_def)
  then show ?thesis
    by (auto simp: merkle_tree_new_def Let_def mirrors_def)
qed

lemma merkle_tree_new_empty: "merkle_tree_new H [] = Inl Panic"
proof -
  have "build_loop H [] [] 0 = Some ([], [])"
    by (subst build_loop.simps) simp
  then show ?thesis
    by (simp add: merkle_tree_new_def build_root_def)
qed

lemma mirrors_leaf:
  assumes "mirrors H d m t L" and "i < m"
  shows "get_leaf_node t i = Inr (L i)"
proof -
  obtain A where b: "built (tree_hashes H L) m d (mt_heap t) A" and l: "mt_leaf_nodes t = [0..<m]"
    using assms(1) by (auto simp: mirrors_def)
  have "A (0, i) = Some i"
    by (rule buildingD(6) [OF b assms(2)])
  from placedD(4) [OF buildingD(1) [OF b] this] show ?thesis
    using assms(2) by (simp add: get_leaf_node_def l)
qed

lemma mirrors_proof:
  assumes "mirrors H d m t L" and "i < m"
  shows "(get_proof_of_leaf t i :: ('e, node list) result) = Inr (proof_at H d L i)"
proof -
  obtain A where b: "built (tree_hashes H L) m d (mt_heap t) A" and l: "mt_leaf_nodes t = [0..<m]"
    using assms(1) by (auto simp: mirrors_def)
  have "A (0, i div 2 ^ 0) = Some i"
    using buildingD(6) [OF b assms(2)] by simp
  then have "(proof_loop (mt_heap t) i [] :: ('e, node list) result option) = Some (Inr (proof_at H d L i))"
    using proof_loop_eq [OF b, of 0 i i "[]"] by (simp add: proof_at_def)
  then show ?thesis
    using assms(2) by (simp add: get_proof_of_leaf_def l)
qed

lemma mirrors_write:
  assumes m: "mirrors H d m t L" and i: "i < m"
  shows "\<exists>t'. (update_root_from_leaf H
      (t\<lparr>mt_heap := (mt_heap t)[i := (mt_heap t ! i)\<lparr>tn_node := x\<rparr>]\<rparr>) i :: ('e, merkle_tree) result) = Inr t' \<and>
    mirrors H d m t' (L(i := x))"
proof -
  obtain A where b: "built (tree_hashes H L) m d (mt_heap t) A" and l: "mt_leaf_nodes t = [0..<m]"
    using m by (auto simp: mirrors_def)
  have a: "A (0, i) = Some i"
    by (rule buildingD(6) [OF b i])
  let ?h = "(mt_heap t)[i := (mt_heap t ! i)\<lparr>tn_node := x\<rparr>]"
  have "built (climbed H L i x 0) m d ?h A"
    by (rule building_hash [OF b a]) (auto simp: climbed_def)
  from update_loop_eq [OF this, of i] a
  obtain h' where "(update_loop H ?h i :: ('e, heap \<times> node) result option) = Some (Inr (h', tree_root H d (L(i := x))))"
    and "built (tree_hashes H (L(i := x))) m d h' A"
    by auto
  then show ?thesis
    using l i by (auto simp: update_root_from_leaf_def mirrors_def simp del: fun_upd_apply)
qed

lemma add_leaf_ok:
  assumes "mirrors H d m t L" and "i < m"
  shows "\<exists>t'. add_leaf H t x i = Inr t' \<and> mirrors H d m t' (L(i := x))"
  using mirrors_write [OF assms, of x] assms(1,2) by (simp add: add_leaf_def Let_def mirrors_def)

lemma remove_leaf_ok:
  assumes "mirrors H d m t L" and "i < m"
  shows "\<exists>t'. remove_leaf H t i = Inr t' \<and> mirrors H d m t' (L(i := EMPTY))"
  using mirrors_write [OF assms, of EMPTY] assms(1,2) by (simp add: remove_leaf_def Let_def mirrors_def)

end
