(* ===== verification/Reference_Mirror.thy ===== *)
theory Reference_Mirror
  imports Reference_Tree Merkle_Run
begin

text \<open>
  A client that keeps a reference tree beside the concurrent one, as the tests of
  \<open>lib/concurrent-merkle-tree\<close> do: it appends to both, or replaces a leaf in both, reading the root,
  the leaf and the proof from its own tree. The interface \<open>proof_source\<close> says what the client needs
  of its tree; together with \<open>leaf_store\<close> it gives that the two never disagree.
\<close>

datatype mirror_op = MirrorAppend node nat | MirrorReplace node u32

definition mirror_step ::
  "(node \<Rightarrow> 's \<Rightarrow> ('e, node \<times> 's) result) \<Rightarrow>
   (node \<Rightarrow> node \<Rightarrow> node \<Rightarrow> node list \<Rightarrow> u32 \<Rightarrow> 's \<Rightarrow> ('e, node \<times> 's) result) \<Rightarrow>
   ('t \<Rightarrow> node) \<Rightarrow> ('t \<Rightarrow> nat \<Rightarrow> ('e, node) result) \<Rightarrow> ('t \<Rightarrow> nat \<Rightarrow> ('e, node list) result) \<Rightarrow>
   ('t \<Rightarrow> node \<Rightarrow> nat \<Rightarrow> ('e, 't) result) \<Rightarrow> mirror_op \<Rightarrow> 's \<times> 't \<Rightarrow> ('e, 's \<times> 't) result" where
  "mirror_step app put root leaf proof_of store op st =
     (case op of
        MirrorAppend x i \<Rightarrow>
          and_then (app x (fst st)) (\<lambda>(_, s').
          and_then (store (snd st) x i) (\<lambda>t'. Inr (s', t')))
      | MirrorReplace x i \<Rightarrow>
          and_then (leaf (snd st) (unat i)) (\<lambda>prev.
          and_then (proof_of (snd st) (unat i)) (\<lambda>pv.
          and_then (put (root (snd st)) prev x pv i (fst st)) (\<lambda>(_, s').
          and_then (store (snd st) x (unat i)) (\<lambda>t'. Inr (s', t'))))))"

fun run_all :: "('o \<Rightarrow> 's \<Rightarrow> ('e, 's) result) \<Rightarrow> 'o list \<Rightarrow> 's \<Rightarrow> ('e, 's) result" where
  "run_all exec [] s = Inr s"
| "run_all exec (op # ops) s = and_then (exec op s) (run_all exec ops)"

text \<open>The operations the tests make: appends in order, replacements of indices already reached.\<close>

fun in_order :: "nat \<Rightarrow> nat \<Rightarrow> mirror_op list \<Rightarrow> bool" where
  "in_order d c [] = True"
| "in_order d c (MirrorAppend x i # ops) = (x \<noteq> EMPTY \<and> i = c \<and> c < 2 ^ d \<and> in_order d (Suc c) ops)"
| "in_order d c (MirrorReplace x i # ops) =
     (unat i \<le> c \<and> unat i < 2 ^ d \<and> in_order d (max c (Suc (unat i))) ops)"

fun mirror_effect :: "mirror_op list \<Rightarrow> leaves \<Rightarrow> leaves" where
  "mirror_effect [] L = L"
| "mirror_effect (MirrorAppend x i # ops) L = mirror_effect ops (L(i := x))"
| "mirror_effect (MirrorReplace x i # ops) L = mirror_effect ops (L(unat i := x))"

section \<open>The interfaces\<close>

locale proof_source =
  fixes H :: hashv and d m :: nat
    and mirror :: "'t \<Rightarrow> leaves \<Rightarrow> bool"
    and root :: "'t \<Rightarrow> node"
    and leaf :: "'t \<Rightarrow> nat \<Rightarrow> ('e, node) result"
    and proof_of :: "'t \<Rightarrow> nat \<Rightarrow> ('e, node list) result"
    and store :: "'t \<Rightarrow> node \<Rightarrow> nat \<Rightarrow> ('e, 't) result"
  assumes root_ok: "mirror t L \<Longrightarrow> root t = tree_root H d L"
    and leaf_ok: "mirror t L \<Longrightarrow> i < m \<Longrightarrow> leaf t i = Inr (L i)"
    and proof_ok: "mirror t L \<Longrightarrow> i < m \<Longrightarrow> proof_of t i = Inr (proof_at H d L i)"
    and store_ok: "mirror t L \<Longrightarrow> i < m \<Longrightarrow> \<exists>t'. store t x i = Inr t' \<and> mirror t' (L(i := x))"

locale mirrored_store =
  leaf_store H d n represents next_index app put collides +
  proof_source H d "2 ^ d" mirror root leaf proof_of store
  for H :: hashv and d n :: nat and represents :: "'s \<Rightarrow> leaves list \<Rightarrow> bool"
    and next_index :: "'s \<Rightarrow> nat"
    and app :: "node \<Rightarrow> 's \<Rightarrow> ('e, node \<times> 's) result"
    and put :: "node \<Rightarrow> node \<Rightarrow> node \<Rightarrow> node list \<Rightarrow> u32 \<Rightarrow> 's \<Rightarrow> ('e, node \<times> 's) result"
    and collides :: "'s \<Rightarrow> leaves \<Rightarrow> node \<Rightarrow> node \<Rightarrow> node list \<Rightarrow> u32 \<Rightarrow> bool"
    and mirror :: "'t \<Rightarrow> leaves \<Rightarrow> bool"
    and root :: "'t \<Rightarrow> node"
    and leaf :: "'t \<Rightarrow> nat \<Rightarrow> ('e, node) result"
    and proof_of :: "'t \<Rightarrow> nat \<Rightarrow> ('e, node list) result"
    and store :: "'t \<Rightarrow> node \<Rightarrow> nat \<Rightarrow> ('e, 't) result"
begin

lemma mirror_append:
  assumes "represents s hist" and "mirror t (hist ! 0)" and "x \<noteq> EMPTY" and "next_index s < 2 ^ d"
  shows "\<exists>s' t' hist'. mirror_step app put root leaf proof_of store (MirrorAppend x (next_index s)) (s, t) =
      Inr (s', t') \<and> represents s' hist' \<and> hist' ! 0 = (hist ! 0)(next_index s := x) \<and>
    mirror t' (hist' ! 0) \<and> next_index s' = Suc (next_index s)"
proof -
  obtain s' where s': "app x s = Inr (tree_root H d ((hist ! 0)(next_index s := x)), s')"
    "represents s' ((hist ! 0)(next_index s := x) # take (n - 1) hist)" "next_index s' = Suc (next_index s)"
    using app_ok [OF assms(1,3,4)] by blast
  obtain t' where t': "store t x (next_index s) = Inr t'" "mirror t' ((hist ! 0)(next_index s := x))"
    using store_ok [OF assms(2,4)] by blast
  show ?thesis
    by (intro exI [of _ s'] exI [of _ t'] exI [of _ "(hist ! 0)(next_index s := x) # take (n - 1) hist"])
      (simp add: mirror_step_def s' t' del: fun_upd_apply One_nat_def)
qed

lemma mirror_replace:
  assumes "represents s hist" and "mirror t (hist ! 0)" and "unat i \<le> next_index s" and "unat i < 2 ^ d"
  shows "\<exists>s' t' hist'. mirror_step app put root leaf proof_of store (MirrorReplace x i) (s, t) =
      Inr (s', t') \<and> represents s' hist' \<and> hist' ! 0 = (hist ! 0)(unat i := x) \<and>
    mirror t' (hist' ! 0) \<and> next_index s' = max (next_index s) (Suc (unat i))"
proof -
  have "hist \<noteq> []" using history [OF assms(1)] by simp
  from put_ok [OF assms(1,4,3) latest_0 [OF this] refl, of x]
  obtain s' where s': "put (root t) ((hist ! 0) (unat i)) x (proof_at H d (hist ! 0) (unat i)) i s =
      Inr (tree_root H d ((hist ! 0)(unat i := x)), s')"
    "represents s' ((hist ! 0)(unat i := x) # take (n - 1) hist)"
    "next_index s' = max (next_index s) (Suc (unat i))"
    unfolding root_ok [OF assms(2)] by blast
  obtain t' where t': "store t x (unat i) = Inr t'" "mirror t' ((hist ! 0)(unat i := x))"
    using store_ok [OF assms(2,4)] by blast
  show ?thesis
    by (intro exI [of _ s'] exI [of _ t'] exI [of _ "(hist ! 0)(unat i := x) # take (n - 1) hist"])
      (simp add: mirror_step_def s' t' leaf_ok [OF assms(2,4)] proof_ok [OF assms(2,4)] del: fun_upd_apply One_nat_def)
qed

lemma mirror_run:
  assumes "represents s hist" and "mirror t (hist ! 0)" and "in_order d (next_index s) ops"
  shows "\<exists>s' t' hist'. run_all (mirror_step app put root leaf proof_of store) ops (s, t) = Inr (s', t') \<and>
    represents s' hist' \<and> hist' ! 0 = mirror_effect ops (hist ! 0) \<and> mirror t' (hist' ! 0)"
  using assms
proof (induction ops arbitrary: s t hist)
  case (Cons op ops)
  note IH = Cons.IH
  have "\<exists>s1 t1 hist1. mirror_step app put root leaf proof_of store op (s, t) = Inr (s1, t1) \<and>
    represents s1 hist1 \<and> hist1 ! 0 = mirror_effect [op] (hist ! 0) \<and> mirror t1 (hist1 ! 0) \<and>
    in_order d (next_index s1) ops"
  proof (cases op)
    case (MirrorAppend x i)
    with Cons.prems(3) have i: "x \<noteq> EMPTY" "i = next_index s" "next_index s < 2 ^ d"
      "in_order d (Suc (next_index s)) ops" by auto
    from mirror_append [OF Cons.prems(1,2) i(1,3)] obtain s1 t1 hist1 where
      "mirror_step app put root leaf proof_of store op (s, t) = Inr (s1, t1)" "represents s1 hist1"
      "hist1 ! 0 = (hist ! 0)(i := x)" "mirror t1 (hist1 ! 0)" "next_index s1 = Suc (next_index s)"
      unfolding MirrorAppend i(2) by blast
    then show ?thesis
      by (intro exI [of _ s1] exI [of _ t1] exI [of _ hist1])
        (use i MirrorAppend in \<open>simp del: fun_upd_apply\<close>)
  next
    case (MirrorReplace x i)
    with Cons.prems(3) have i: "unat i \<le> next_index s" "unat i < 2 ^ d"
      "in_order d (max (next_index s) (Suc (unat i))) ops" by auto
    from mirror_replace [OF Cons.prems(1,2) i(1,2), of x] obtain s1 t1 hist1 where
      "mirror_step app put root leaf proof_of store op (s, t) = Inr (s1, t1)" "represents s1 hist1"
      "hist1 ! 0 = (hist ! 0)(unat i := x)" "mirror t1 (hist1 ! 0)"
      "next_index s1 = max (next_index s) (Suc (unat i))"
      unfolding MirrorReplace by blast
    then show ?thesis
      by (intro exI [of _ s1] exI [of _ t1] exI [of _ hist1])
        (use i MirrorReplace in \<open>simp del: fun_upd_apply\<close>)
  qed
  then obtain s1 t1 hist1 where 1: "mirror_step app put root leaf proof_of store op (s, t) = Inr (s1, t1)"
    "represents s1 hist1" "hist1 ! 0 = mirror_effect [op] (hist ! 0)" "mirror t1 (hist1 ! 0)"
    "in_order d (next_index s1) ops"
    by blast
  have "mirror_effect (op # ops) (hist ! 0) = mirror_effect ops (hist1 ! 0)"
    by (cases op) (simp_all add: 1(3) del: fun_upd_apply)
  with IH [OF 1(2,4,5)] show ?case
    by (simp add: 1(1))
qed auto

end

section \<open>The trees of the repository\<close>

interpretation reference: proof_source H d m "mirrors H d m" mt_root get_leaf_node get_proof_of_leaf "add_leaf H"
  for H d m
proof (unfold_locales, goal_cases)
  case (1 t L)
  then show ?case by (simp add: mirrors_def)
next
  case (2 t L i)
  then show ?case by (rule mirrors_leaf)
next
  case (3 t L i)
  then show ?case by (rule mirrors_proof)
next
  case (4 t L i x)
  then show ?case by (rule add_leaf_ok)
qed

interpretation mirrored: mirrored_store H d n "roll_inv H d n" next_leaf "append_node H d n" "set_leaf H d n"
  "replay_collides H d n" "mirrors H d (2 ^ d)" mt_root get_leaf_node get_proof_of_leaf "add_leaf H"
  for H d n
  by unfold_locales

end
