(* ===== verification/Accumulator.thy ===== *)
theory Accumulator
  imports Merkle_Roll_Laws
begin

text \<open>
  \<open>archive/merkle-accumulator/src/main.rs\<close>: the prototype of the concurrent Merkle tree. The record
  \<open>accumulator\<close> is the struct \<open>MerkleAccumulator\<close>; the constants \<open>MAX_DEPTH\<close> (14) and \<open>MAX_SIZE\<close> (64)
  of \<open>merkle.rs\<close> are arguments of the operations. An operation returns \<open>None\<close> or panics before it
  has mutated \<open>self\<close>, or panics in \<open>apply_changes\<close>; \<open>Inl (Err ())\<close> stands for \<open>None\<close> and
  \<open>Inl Panic\<close> for a panic, after which the caller has no tree left. The loops of \<open>recompute\<close> and
  \<open>empty_node\<close> in \<open>merkle.rs\<close> are those of the concurrent tree's \<open>utils.rs\<close>.
\<close>

section \<open>The state\<close>

record acc_log =
  al_path :: "node list"
  al_prev_leaf :: node
  al_curr_leaf :: node
  al_index :: u32

record acc_path =
  rp_proof :: "node list"
  rp_leaf :: node
  rp_index :: u32

record accumulator =
  acc_roots :: "node list"
  acc_logs :: "acc_log list"
  acc_active :: u64
  acc_size :: u64
  acc_rightmost :: acc_path

definition acc_log_default :: "nat \<Rightarrow> acc_log" where
  "acc_log_default max_depth =
     \<lparr>al_path = replicate max_depth EMPTY, al_prev_leaf = EMPTY, al_curr_leaf = EMPTY,
      al_index = 0\<rparr>"

definition accumulator_new :: "hashv \<Rightarrow> nat \<Rightarrow> nat \<Rightarrow> accumulator" where
  "accumulator_new H max_depth max_size =
     \<lparr>acc_roots = replicate max_size (empty_node H max_depth),
      acc_logs = replicate max_size (acc_log_default max_depth),
      acc_active = 0, acc_size = 1,
      acc_rightmost = \<lparr>rp_proof = map (empty_node H) [0..<max_depth], rp_leaf = EMPTY,
        rp_index = 0\<rparr>\<rparr>"

definition accumulator_new_with_root ::
  "hashv \<Rightarrow> nat \<Rightarrow> nat \<Rightarrow> node \<Rightarrow> node \<Rightarrow> node list \<Rightarrow> u32 \<Rightarrow> (unit, accumulator) result" where
  "accumulator_new_with_root H max_depth max_size root right_most_leaf proof index =
     and_then (ok_or (checked_add index 1) Panic) (\<lambda>next_index.
     and_then (ensure (root = recompute H right_most_leaf proof index) Panic) (\<lambda>_.
     Inr \<lparr>acc_roots = (replicate max_size (empty_node H max_depth))[0 := root],
       acc_logs = replicate max_size (acc_log_default max_depth),
       acc_active = 0, acc_size = 1,
       acc_rightmost = \<lparr>rp_proof = proof, rp_leaf = right_most_leaf,
         rp_index = next_index\<rparr>\<rparr>))"

definition acc_get_root :: "accumulator \<Rightarrow> node" where
  "acc_get_root acc = acc_roots acc ! unat (acc_active acc)"

definition increment_active_index :: "nat \<Rightarrow> accumulator \<Rightarrow> accumulator" where
  "increment_active_index max_size acc =
     acc\<lparr>acc_active := (acc_active acc + 1) AND index_mask max_size,
         acc_size := (if acc_size acc < of_nat max_size then acc_size acc + 1 else acc_size acc)\<rparr>"

section \<open>Replaying and recording changes\<close>

text \<open>
  The node of a proof of leaf \<open>index\<close> that a change of leaf \<open>other\<close> along \<open>path\<close> replaces. When the
  two indices differ above \<open>MAX_DEPTH\<close> only, the subtraction underflows, which panics.
\<close>

definition replace_critbit ::
  "nat \<Rightarrow> u32 \<Rightarrow> u32 \<Rightarrow> node list \<Rightarrow> node list \<Rightarrow> (unit, node list) result" where
  "replace_critbit max_depth index other path proof =
     (let common_path_len = leading_zeros (push_bit (32 - max_depth) (index XOR other))
      in if common_path_len < max_depth then
           let critbit_index = max_depth - 1 - common_path_len
           in Inr (proof[critbit_index := path ! critbit_index])
         else Inl Panic)"

text \<open>The loop of \<open>update_and_apply_proof\<close>; it goes round the buffer at most once.\<close>

fun acc_replay ::
  "nat \<Rightarrow> nat \<Rightarrow> nat \<Rightarrow> accumulator \<Rightarrow> u32 \<Rightarrow> u64 \<Rightarrow> node list \<Rightarrow> node \<Rightarrow>
   (unit, node list \<times> node) result" where
  "acc_replay fuel max_depth max_size acc index j proof updated_leaf =
     (if j = acc_active acc then Inr (proof, updated_leaf)
      else case fuel of
        0 \<Rightarrow> Inl Diverge
      | Suc fuel' \<Rightarrow>
          let j' = (j + 1) AND index_mask max_size;
              cl = acc_logs acc ! unat j'
          in if index \<noteq> al_index cl
             then and_then (replace_critbit max_depth index (al_index cl) (al_path cl) proof)
               (\<lambda>proof'. acc_replay fuel' max_depth max_size acc index j' proof' updated_leaf)
             else acc_replay fuel' max_depth max_size acc index j' proof (al_curr_leaf cl))"

declare acc_replay.simps [simp del]

text \<open>The loop of \<open>apply_changes\<close>, from level \<open>ix\<close> on; it returns the path and the root.\<close>

fun apply_path ::
  "hashv \<Rightarrow> nat \<Rightarrow> u32 \<Rightarrow> nat \<Rightarrow> node \<Rightarrow> node list \<Rightarrow> node list \<Rightarrow> node list \<times> node" where
  "apply_path H max_depth index ix start [] path = (path, start)"
| "apply_path H max_depth index ix start (s # rest) path =
     (let start' = (if drop_bit ix index AND 1 = 0 then H [start, s] else H [s, start])
      in apply_path H max_depth index (Suc ix) start' rest
           (if ix < max_depth - 1 then path[ix + 1 := start'] else path))"

definition apply_changes ::
  "hashv \<Rightarrow> nat \<Rightarrow> node \<Rightarrow> node \<Rightarrow> node list \<Rightarrow> u32 \<Rightarrow> accumulator \<Rightarrow>
   (unit, node \<times> accumulator) result" where
  "apply_changes H max_depth prev_leaf start proof index acc =
     (let a = unat (acc_active acc);
          (path, root) = apply_path H max_depth index 0 start proof
            ((al_path (acc_logs acc ! a))[0 := start]);
          acc' = acc\<lparr>acc_logs := (acc_logs acc)[a := \<lparr>al_path = path, al_prev_leaf = prev_leaf,
            al_curr_leaf = start, al_index = index\<rparr>]\<rparr>;
          rp = acc_rightmost acc
      in if index < rp_index rp then
           if index \<noteq> rp_index rp - 1 then
             and_then (replace_critbit max_depth index (rp_index rp - 1) path (rp_proof rp))
               (\<lambda>proof'. Inr (root, acc'\<lparr>acc_rightmost := rp\<lparr>rp_proof := proof'\<rparr>\<rparr>))
           else Inr (root, acc')
         else
           and_then (ensure (index = rp_index rp) Panic) (\<lambda>_.
           and_then (ok_or (checked_add index 1) Panic) (\<lambda>next_index.
           Inr (root, acc'\<lparr>acc_rightmost := \<lparr>rp_proof = proof, rp_leaf = start,
             rp_index = next_index\<rparr>\<rparr>))))"

section \<open>Appending and updating\<close>

text \<open>
  The three loops of \<open>append\<close> on \<open>(node, intersection_node, change_list, proof)\<close>, where \<open>proof\<close> is
  \<open>self.rightmost_proof.proof\<close>: below the level where the path of the new leaf meets that of the
  last one, at it, and above it.
\<close>

definition append_below ::
  "hashv \<Rightarrow> u32 \<Rightarrow> nat \<Rightarrow> node \<times> node \<times> node list \<times> node list \<Rightarrow>
   node \<times> node \<times> node list \<times> node list" where
  "append_below H index i =
     (\<lambda>(node, intersection_node, change_list, proof).
        (H [node, empty_node H i],
         if drop_bit i (index - 1) AND 1 = 1 then H [proof ! i, intersection_node]
         else H [intersection_node, proof ! i],
         change_list[i := node], proof[i := empty_node H i]))"

definition append_meet ::
  "hashv \<Rightarrow> nat \<Rightarrow> node \<times> node \<times> node list \<times> node list \<Rightarrow>
   node \<times> node \<times> node list \<times> node list" where
  "append_meet H intersection =
     (\<lambda>(node, intersection_node, change_list, proof).
        (H [intersection_node, node], intersection_node, change_list[intersection := node],
         proof[intersection := intersection_node]))"

definition append_above ::
  "hashv \<Rightarrow> u32 \<Rightarrow> nat \<Rightarrow> node \<times> node \<times> node list \<times> node list \<Rightarrow>
   node \<times> node \<times> node list \<times> node list" where
  "append_above H index i =
     (\<lambda>(node, intersection_node, change_list, proof).
        (if drop_bit i index AND 1 = 1 then H [proof ! i, node] else H [node, proof ! i],
         intersection_node, change_list[i := node], proof))"

definition append_loops ::
  "hashv \<Rightarrow> nat \<Rightarrow> u32 \<Rightarrow> node \<Rightarrow> node \<Rightarrow> node list \<Rightarrow> node \<times> node \<times> node list \<times> node list" where
  "append_loops H max_depth index node leaf proof =
     (let intersection = trailing_zeros index
      in fold (append_above H index) [intersection + 1..<max_depth]
           (append_meet H intersection
             (fold (append_below H index) [0..<intersection]
               (node, leaf, replicate max_depth EMPTY, proof))))"

text \<open>
  \<open>update_and_apply_proof\<close> appends on a conflict, \<open>append\<close> initializes an empty tree, and
  \<open>initialize_tree\<close> applies a proof, without appending on a conflict.
\<close>

function update_and_apply_proof ::
  "hashv \<Rightarrow> nat \<Rightarrow> nat \<Rightarrow> node \<Rightarrow> node \<Rightarrow> node list \<Rightarrow> u32 \<Rightarrow> u64 \<Rightarrow> bool \<Rightarrow> accumulator \<Rightarrow>
   (unit, node \<times> accumulator) result"
  and accumulator_append ::
  "hashv \<Rightarrow> nat \<Rightarrow> nat \<Rightarrow> node \<Rightarrow> accumulator \<Rightarrow> (unit, node \<times> accumulator) result"
  and initialize_tree ::
  "hashv \<Rightarrow> nat \<Rightarrow> nat \<Rightarrow> node \<Rightarrow> node list \<Rightarrow> accumulator \<Rightarrow>
   (unit, node \<times> accumulator) result" where
  "update_and_apply_proof H max_depth max_size leaf new_leaf proof index j append_on_conflict acc =
     and_then (acc_replay max_size max_depth max_size acc index j proof leaf)
       (\<lambda>(proof', updated_leaf).
     and_then (ensure (recompute H updated_leaf proof' index = acc_get_root acc) Panic) (\<lambda>_.
     if updated_leaf \<noteq> leaf then
       if leaf = EMPTY \<and> append_on_conflict
       then accumulator_append H max_depth max_size new_leaf acc
       else Inl (Err ())
     else
       and_then (apply_changes H max_depth leaf new_leaf proof' index
          (increment_active_index max_size acc)) (\<lambda>(new_root, acc').
       Inr (new_root, acc'\<lparr>acc_roots := (acc_roots acc')[unat (acc_active acc') := new_root]\<rparr>))))"
| "accumulator_append H max_depth max_size node acc =
     (let rp = acc_rightmost acc
      in if node = EMPTY then Inl (Err ())
         else if rp_index rp \<ge> push_bit max_depth 1 then Inl (Err ())
         else if rp_index rp = 0
         then initialize_tree H max_depth max_size node (rp_proof rp) acc
         else
           let (root, _, change_list, proof) =
                 append_loops H max_depth (rp_index rp) node (rp_leaf rp) (rp_proof rp);
               acc' = increment_active_index max_size acc;
               a = unat (acc_active acc')
           in Inr (root, acc'\<lparr>acc_roots := (acc_roots acc')[a := root],
                acc_logs := (acc_logs acc')[a := \<lparr>al_path = change_list, al_prev_leaf = EMPTY,
                  al_curr_leaf = node, al_index = rp_index rp\<rparr>],
                acc_rightmost := \<lparr>rp_proof = proof, rp_leaf = node,
                  rp_index = rp_index rp + 1\<rparr>\<rparr>))"
| "initialize_tree H max_depth max_size leaf proof acc =
     (if recompute H EMPTY proof 0 = empty_node H max_depth
      then update_and_apply_proof H max_depth max_size EMPTY leaf proof 0 0 False acc
      else Inl (Err ()))"
  by pat_completeness auto
termination
  by (relation "measure (\<lambda>x. case x of
      Inl (_, _, _, _, _, _, _, _, append_on_conflict, _) \<Rightarrow> if append_on_conflict then 3 else 0
    | Inr (Inl _) \<Rightarrow> 2 | Inr (Inr _) \<Rightarrow> 1)") auto

declare update_and_apply_proof.simps [simp del] accumulator_append.simps [simp del]
  initialize_tree.simps [simp del]

definition find_and_update_leaf ::
  "hashv \<Rightarrow> nat \<Rightarrow> nat \<Rightarrow> node \<Rightarrow> node \<Rightarrow> node \<Rightarrow> node list \<Rightarrow> u32 \<Rightarrow> bool \<Rightarrow> accumulator \<Rightarrow>
   (unit, node \<times> accumulator) result" where
  "find_and_update_leaf H max_depth max_size current_root leaf new_leaf proof index
     append_on_conflict acc =
     (case List.find (\<lambda>j. acc_roots acc ! unat j = current_root)
         (map (\<lambda>i. (acc_active acc - of_nat i) AND index_mask max_size)
           [0..<unat (acc_size acc)]) of
        None \<Rightarrow> Inl (Err ())
      | Some j \<Rightarrow>
          let old_root = recompute H leaf proof index
          in if old_root = current_root \<and> index > rp_index (acc_rightmost acc) \<and>
                append_on_conflict
             then accumulator_append H max_depth max_size new_leaf acc
             else if old_root = current_root
             then update_and_apply_proof H max_depth max_size leaf new_leaf proof index j
                    append_on_conflict acc
             else Inl (Err ()))"

definition accumulator_fill_empty_or_append ::
  "hashv \<Rightarrow> nat \<Rightarrow> nat \<Rightarrow> node \<Rightarrow> node \<Rightarrow> node list \<Rightarrow> u32 \<Rightarrow> accumulator \<Rightarrow>
   (unit, node \<times> accumulator) result" where
  "accumulator_fill_empty_or_append H max_depth max_size current_root leaf proof index acc =
     find_and_update_leaf H max_depth max_size current_root EMPTY leaf proof index True acc"

definition accumulator_set_leaf_to_empty ::
  "hashv \<Rightarrow> nat \<Rightarrow> nat \<Rightarrow> node \<Rightarrow> node \<Rightarrow> node list \<Rightarrow> u32 \<Rightarrow> accumulator \<Rightarrow>
   (unit, node \<times> accumulator) result" where
  "accumulator_set_leaf_to_empty H max_depth max_size current_root leaf proof index acc =
     (if index > rp_index (acc_rightmost acc) then Inl (Err ())
      else find_and_update_leaf H max_depth max_size current_root leaf EMPTY proof index False acc)"

definition accumulator_set_leaf ::
  "hashv \<Rightarrow> nat \<Rightarrow> nat \<Rightarrow> node \<Rightarrow> node \<Rightarrow> node \<Rightarrow> node list \<Rightarrow> u32 \<Rightarrow> accumulator \<Rightarrow>
   (unit, node \<times> accumulator) result" where
  "accumulator_set_leaf H max_depth max_size current_root leaf new_leaf proof index acc =
     find_and_update_leaf H max_depth max_size current_root leaf new_leaf proof index False acc"

end
