(* ===== verification/Accumulator_Inv.thy ===== *)
theory Accumulator_Inv
  imports Accumulator
begin

text \<open>
  The prototype against the concurrent tree. \<open>as_roll\<close> reads an accumulator as a \<open>merkle_roll\<close>; the
  invariant of the concurrent tree, on that reading, carries the lemmas of the buffer over. What
  the reading hides is the last leaf that the accumulator has stored beside its rightmost proof:
  \<open>current_tail\<close> says that it is the last leaf of the tree.
\<close>

section \<open>An accumulator read as a concurrent tree\<close>

definition log_of :: "node \<Rightarrow> acc_log \<Rightarrow> change_log" where
  "log_of root l =
     \<lparr>cl_root = root, cl_path = al_path l, cl_index = al_index l, cl_padding = 0\<rparr>"

definition tail_leaf :: "accumulator \<Rightarrow> leaves \<Rightarrow> node" where
  "tail_leaf acc L = L (unat (rp_index (acc_rightmost acc)) - 1)"

definition as_roll :: "u64 \<Rightarrow> leaves \<Rightarrow> accumulator \<Rightarrow> merkle_roll" where
  "as_roll s L acc =
     \<lparr>sequence_number = s, active_index = acc_active acc, buffer_size = acc_size acc,
      change_logs = map2 log_of (acc_roots acc) (acc_logs acc),
      rightmost_proof = \<lparr>path_proof = rp_proof (acc_rightmost acc), path_leaf = tail_leaf acc L,
        path_index = rp_index (acc_rightmost acc), path_padding = 0\<rparr>\<rparr>"

definition acc_inv :: "hashv \<Rightarrow> nat \<Rightarrow> nat \<Rightarrow> accumulator \<Rightarrow> leaves list \<Rightarrow> bool" where
  "acc_inv H d n acc hist \<longleftrightarrow>
     roll_inv H d n (as_roll 0 (hist ! 0) acc) hist \<and>
     length (acc_roots acc) = n \<and> length (acc_logs acc) = n \<and>
     (\<forall>l\<in>set (acc_logs acc). al_curr_leaf l = al_path l ! 0) \<and>
     (rp_index (acc_rightmost acc) = 0 \<longrightarrow> acc_active acc = 0)"

definition next_free :: "accumulator \<Rightarrow> nat" where
  "next_free acc = unat (rp_index (acc_rightmost acc))"

definition current_tail :: "nat \<Rightarrow> accumulator \<Rightarrow> leaves \<Rightarrow> bool" where
  "current_tail d acc L \<longleftrightarrow>
     (0 < next_free acc \<longrightarrow> next_free acc < 2 ^ d \<longrightarrow>
      rp_leaf (acc_rightmost acc) = L (next_free acc - 1))"

lemma roll_inv_sequence:
  "roll_inv H d n (roll\<lparr>sequence_number := s\<rparr>) hist = roll_inv H d n roll hist"
  by (simp add: roll_inv_def buffer_inv_def log_at_def)

lemma as_roll_sequence: "as_roll s L acc = (as_roll 0 L acc)\<lparr>sequence_number := s\<rparr>"
  by (simp add: as_roll_def)

lemma acc_invD:
  assumes "acc_inv H d n acc hist"
  shows "roll_inv H d n (as_roll s (hist ! 0) acc) hist"
    and "dims d n" and "0 < d" and "d \<le> 32"
    and "buffer_inv H d n (as_roll s (hist ! 0) acc) hist"
    and "length (acc_roots acc) = n" and "length (acc_logs acc) = n"
    and "\<And>l. l \<in> set (acc_logs acc) \<Longrightarrow> al_curr_leaf l = al_path l ! 0"
    and "rp_index (acc_rightmost acc) = 0 \<Longrightarrow> acc_active acc = 0"
    and "unat (acc_active acc) < n" and "hist \<noteq> []" and "length hist = unat (acc_size acc)"
    and "length hist \<le> n"
proof -
  show inv: "roll_inv H d n (as_roll s (hist ! 0) acc) hist"
    using assms by (simp add: acc_inv_def as_roll_sequence [of s] roll_inv_sequence)
  show buf: "buffer_inv H d n (as_roll s (hist ! 0) acc) hist"
    using inv by (simp add: roll_inv_def)
  show "dims d n" "0 < d" "d \<le> 32"
    using inv by (auto simp: roll_inv_def dims_def)
  show "unat (acc_active acc) < n" "hist \<noteq> []" "length hist = unat (acc_size acc)"
    "length hist \<le> n"
    using buffer_invD(2-5) [OF buf] by (simp_all add: as_roll_def)
qed (use assms in \<open>auto simp: acc_inv_def\<close>)

text \<open>The rightmost proof is the proof of the last leaf; it does not contain that leaf.\<close>

lemma acc_tailD:
  assumes "acc_inv H d n acc hist"
  shows "next_free acc \<le> 2 ^ d" and "length (rp_proof (acc_rightmost acc)) = d"
    and "\<And>j. next_free acc \<le> j \<Longrightarrow> (hist ! 0) j = EMPTY"
    and "next_free acc < 2 ^ d \<Longrightarrow>
      rp_proof (acc_rightmost acc) = proof_at H d (hist ! 0) (next_free acc - 1)"
proof -
  have "rightmost_inv H d (rightmost_proof (as_roll 0 (hist ! 0) acc)) (hist ! 0)"
    using assms by (simp add: acc_inv_def roll_inv_def)
  from rightmost_invD [OF this]
  show "next_free acc \<le> 2 ^ d" "length (rp_proof (acc_rightmost acc)) = d"
    "\<And>j. next_free acc \<le> j \<Longrightarrow> (hist ! 0) j = EMPTY"
    "next_free acc < 2 ^ d \<Longrightarrow>
      rp_proof (acc_rightmost acc) = proof_at H d (hist ! 0) (next_free acc - 1)"
    by (simp_all add: as_roll_def next_free_def)
qed

lemma nth_as_roll:
  assumes "length (acc_roots acc) = n" and "length (acc_logs acc) = n" and "k < n"
  shows "change_logs (as_roll s L acc) ! k = log_of (acc_roots acc ! k) (acc_logs acc ! k)"
  using assms by (simp add: as_roll_def)

lemma acc_get_root_eq:
  assumes "acc_inv H d n acc hist"
  shows "acc_get_root acc = tree_root H d (hist ! 0)"
proof -
  note inv = acc_invD [OF assms]
  have "cl_root (get_change_log (as_roll 0 (hist ! 0) acc)) = acc_get_root acc"
    using nth_as_roll [OF inv(6,7,10), of 0 "hist ! 0"]
    by (simp add: get_change_log_def acc_get_root_def log_of_def as_roll_def)
  then show ?thesis
    using current_root [OF inv(5) [of 0]] by simp
qed

section \<open>The loops\<close>

lemma replace_critbit_eq:
  assumes "index \<noteq> cl_index cl"
  shows "replace_critbit d index (cl_index cl) (cl_path cl) ps =
    map_failure (\<lambda>_. ()) (and_then (update_proof_or_leaf d index ps leaf cl) (\<lambda>(ps', _). Inr ps'))"
  using assms by (simp add: replace_critbit_def update_proof_or_leaf_def Let_def)

lemma replace_critbit_step:
  assumes "logs_step H d cl L L'" and "unat i < 2 ^ d" and "0 < d" and "d \<le> 32"
    and "i \<noteq> cl_index cl"
  shows "replace_critbit d i (cl_index cl) (cl_path cl) (proof_at H d L (unat i)) =
    Inr (proof_at H d L' (unat i))"
  using update_proof_or_leaf_step [OF assms(1-4)]
  by (simp add: replace_critbit_eq [OF assms(5), where leaf = "L (unat i)"])

lemma acc_replay_eq:
  assumes inv: "acc_inv H d n acc hist"
  shows "acc_replay fuel d n acc i j ps x =
    map_failure (\<lambda>_. ()) (fast_forward_loop fuel d n (as_roll 0 (hist ! 0) acc) i False j ps x)"
proof (induction fuel arbitrary: j ps x)
  case 0
  then show ?case
    by (simp add: acc_replay.simps [of 0] fast_forward_loop.simps [of 0] as_roll_def)
next
  case (Suc fuel)
  let ?roll = "as_roll 0 (hist ! 0) acc" and ?j = "(j + 1) AND index_mask n"
  note invD = acc_invD [OF inv]
  have j: "unat ?j < n"
    using index_mask_eq [OF invD(2)] dims_pos [OF invD(2)] by simp
  define l where "l = acc_logs acc ! unat ?j"
  have cl: "change_logs ?roll ! unat ?j = log_of (acc_roots acc ! unat ?j) l"
    using nth_as_roll [OF invD(6,7) j] by (simp add: l_def)
  have leaf: "al_curr_leaf l = al_path l ! 0"
    using invD(7,8) j by (simp add: l_def)
  have active: "active_index ?roll = acc_active acc"
    by (simp add: as_roll_def)
  have "acc_replay (Suc fuel) d n acc i j ps x =
      (if j = acc_active acc then Inr (ps, x)
       else if i \<noteq> al_index l
       then and_then (replace_critbit d i (al_index l) (al_path l) ps)
         (\<lambda>ps'. acc_replay fuel d n acc i ?j ps' x)
       else acc_replay fuel d n acc i ?j ps (al_curr_leaf l))"
    by (subst acc_replay.simps) (simp add: Let_def l_def)
  moreover have "fast_forward_loop (Suc fuel) d n ?roll i False j ps x =
      (if j = acc_active acc then Inr (ps, x)
       else and_then (update_proof_or_leaf d i ps x (log_of (acc_roots acc ! unat ?j) l))
         (\<lambda>(ps', x'). fast_forward_loop fuel d n ?roll i False ?j ps' x'))"
    by (subst fast_forward_loop.simps) (simp add: Let_def active cl)
  ultimately show ?case
    using Suc
    by (cases "i = al_index l")
      (simp_all add: leaf update_proof_or_leaf_def replace_critbit_def log_of_def get_leaf_def
        Let_def)
qed

text \<open>The accumulator finds a root in the place where the concurrent tree does.\<close>

lemma acc_find_eq:
  assumes inv: "acc_inv H d n acc hist"
  shows "List.find (\<lambda>j. acc_roots acc ! unat j = root)
      (map (\<lambda>i. (acc_active acc - of_nat i) AND index_mask n) [0..<unat (acc_size acc)]) =
    find_root_in_changelog n (as_roll 0 (hist ! 0) acc) root"
proof -
  note invD = acc_invD [OF inv]
  have "unat (w AND index_mask n) < n" for w :: u64
    using index_mask_eq [OF invD(2)] dims_pos [OF invD(2)] by simp
  then have "cl_root (change_logs (as_roll 0 (hist ! 0) acc) ! unat (w AND index_mask n)) =
      acc_roots acc ! unat (w AND index_mask n)" for w :: u64
    by (simp add: nth_as_roll [OF invD(6,7)] log_of_def)
  then have "List.find (\<lambda>j. acc_roots acc ! unat j = root)
      (map (\<lambda>i. (a - of_nat i) AND index_mask n) ks) =
    List.find (\<lambda>j. cl_root (change_logs (as_roll 0 (hist ! 0) acc) ! unat j) = root)
      (map (\<lambda>i. (a - of_nat i) AND index_mask n) ks)" for a ks
    by (intro find_cong_on) auto
  then show ?thesis
    by (simp add: find_root_in_changelog_def) (simp add: as_roll_def)
qed

lemma apply_path_eq:
  assumes "ix + length ps = d" and "length path = d"
  shows "apply_path H d i ix x ps (path[ix := x]) = replace_path_from H i ix x ps path"
  using assms
proof (induction ps arbitrary: ix x path)
  case (Cons s ss)
  show ?case
  proof (cases ss)
    case Nil
    then show ?thesis
      using Cons.prems by (auto simp: hash_to_parent_def Let_def)
  next
    case (Cons s' ss')
    then have "ix < d - 1"
      using Cons.prems by simp
    then show ?thesis
      using Cons.IH [of "Suc ix" "path[ix := x]"] Cons.prems
      by (simp add: hash_to_parent_def Let_def)
  qed
qed (simp add: list_update_beyond)

section \<open>Writing a leaf\<close>

definition record_change ::
  "nat \<Rightarrow> node \<Rightarrow> acc_log \<Rightarrow> acc_path \<Rightarrow> accumulator \<Rightarrow> accumulator" where
  "record_change n root l rp acc =
     (let acc' = increment_active_index n acc; a = unat (acc_active acc')
      in acc'\<lparr>acc_roots := (acc_roots acc)[a := root], acc_logs := (acc_logs acc)[a := l],
           acc_rightmost := rp\<rparr>)"

lemma record_change_alt:
  "record_change n root l rp acc =
     (let acc' = increment_active_index n acc; a = unat (acc_active acc')
      in acc'\<lparr>acc_logs := (acc_logs acc)[a := l], acc_rightmost := rp,
           acc_roots := (acc_roots acc)[a := root]\<rparr>)"
  by (simp add: record_change_def Let_def)

text \<open>
  \<open>acc_wrote H d n hist i x acc acc'\<close>: leaf \<open>i\<close> of the current tree was set to \<open>x\<close>. The last leaf
  beside the rightmost proof changes with it when \<open>i\<close> is the next free leaf, and only then.
\<close>

definition acc_wrote ::
  "hashv \<Rightarrow> nat \<Rightarrow> nat \<Rightarrow> leaves list \<Rightarrow> nat \<Rightarrow> node \<Rightarrow> accumulator \<Rightarrow> accumulator \<Rightarrow> bool" where
  "acc_wrote H d n hist i x acc acc' \<longleftrightarrow>
     acc_inv H d n acc' ((hist ! 0)(i := x) # take (n - 1) hist) \<and>
     next_free acc' = max (next_free acc) (Suc i) \<and>
     rp_leaf (acc_rightmost acc') =
       (if i < next_free acc then rp_leaf (acc_rightmost acc) else x)"

lemma acc_wroteI:
  assumes inv: "acc_inv H d n acc hist" and i: "unat i < 2 ^ d"
    and root: "root = tree_root H d ((hist ! 0)(unat i := x))"
    and l: "al_index l = i" "al_curr_leaf l = x"
      "al_path l = path_at H d ((hist ! 0)(unat i := x)) (unat i)"
    and rp: "unat (rp_index rp) = max (next_free acc) (Suc (unat i))" "length (rp_proof rp) = d"
      "unat (rp_index rp) < 2 ^ d \<Longrightarrow>
         rp_proof rp = proof_at H d ((hist ! 0)(unat i := x)) (unat (rp_index rp) - 1)"
      "rp_leaf rp = (if unat i < next_free acc then rp_leaf (acc_rightmost acc) else x)"
  shows "acc_wrote H d n hist (unat i) x acc (record_change n root l rp acc)"
proof -
  let ?L = "hist ! 0" and ?L' = "(hist ! 0)(unat i := x)"
  let ?acc' = "record_change n root l rp acc" and ?roll = "as_roll 0 (hist ! 0) acc"
  let ?a = "unat (active_index (update_internal_counters n ?roll))"
  note invD = acc_invD [OF inv]
  have a: "?a = unat (acc_active (increment_active_index n acc))"
    by (simp add: update_internal_counters_def increment_active_index_def as_roll_def)
  have an: "?a < n"
    using counters(1) [OF invD(1)] dims_pos [OF invD(2)] by simp
  define rp' where "rp' = \<lparr>path_proof = rp_proof rp, path_leaf = ?L' (unat (rp_index rp) - 1),
      path_index = rp_index rp, path_padding = 0\<rparr>"
  have roll': "as_roll 1 ?L' ?acc' = (update_internal_counters n ?roll)\<lparr>change_logs :=
      (change_logs ?roll)[?a := log_of root l], rightmost_proof := rp'\<rparr>"
    by (simp add: as_roll_def record_change_def Let_def a rp'_def tail_leaf_def zip_update map_update
        update_internal_counters_def increment_active_index_def saturating_add_def)
  have empty: "\<forall>j\<ge>unat (rp_index rp). ?L' j = EMPTY"
    using acc_tailD(3) [OF inv] rp(1) by auto
  have le: "unat (rp_index rp) \<le> 2 ^ d"
    using acc_tailD(1) [OF inv] rp(1) i by simp
  have "wrote H d n hist (unat i) x ?roll (as_roll 1 ?L' ?acc')"
    by (rule wroteI [OF invD(1) _ _ _ i roll'])
      (use l root rp le empty in
        \<open>auto simp: log_of_def rightmost_inv_def rp'_def next_free_def as_roll_def\<close>)
  then have "roll_inv H d n (as_roll 1 ?L' ?acc') (?L' # take (n - 1) hist)"
    by (simp add: wrote_def)
  then have "roll_inv H d n (as_roll 0 ?L' ?acc') (?L' # take (n - 1) hist)"
    by (simp add: as_roll_sequence [of 1] roll_inv_sequence)
  moreover have "al_curr_leaf c = al_path c ! 0" if "c \<in> set (acc_logs ?acc')" for c
  proof -
    have "c = l \<or> c \<in> set (acc_logs acc)"
      using that set_update_subset_insert [of "acc_logs acc"]
      by (auto simp: record_change_def Let_def)
    then show ?thesis
      using invD(3,8) l(2,3) by (auto simp: nth_path_at)
  qed
  moreover have "length (acc_roots ?acc') = n" "length (acc_logs ?acc') = n"
    "acc_rightmost ?acc' = rp"
    using invD(6,7) by (simp_all add: record_change_def Let_def)
  moreover have "rp_index rp \<noteq> 0"
    using rp(1) by auto
  ultimately show ?thesis
    using rp(1,4) by (simp add: acc_wrote_def acc_inv_def next_free_def)
qed

lemma replace_critbit_commute: "replace_critbit d i j path ps = replace_critbit d j i path ps"
  by (simp add: replace_critbit_def xor.commute)

text \<open>The rightmost proof follows a change of any other leaf.\<close>

lemma rightmost_follows:
  fixes x :: node
  assumes inv: "acc_inv H d n acc hist" and i: "unat i < 2 ^ d" "unat i < next_free acc"
    and other: "i \<noteq> rp_index (acc_rightmost acc) - 1"
  defines "L' \<equiv> (hist ! 0)(unat i := x)"
  shows "\<exists>ps'. replace_critbit d i (rp_index (acc_rightmost acc) - 1) (path_at H d L' (unat i))
      (rp_proof (acc_rightmost acc)) = Inr ps' \<and> length ps' = d \<and>
    (next_free acc < 2 ^ d \<longrightarrow> ps' = proof_at H d L' (next_free acc - 1))"
proof -
  let ?t = "rp_index (acc_rightmost acc) - 1" and ?ps = "rp_proof (acc_rightmost acc)"
  note invD = acc_invD [OF inv] and tail = acc_tailD [OF inv]
  define cl where "cl = \<lparr>cl_root = EMPTY, cl_path = path_at H d L' (unat i), cl_index = i,
      cl_padding = 0\<rparr>"
  have t: "unat ?t = next_free acc - 1"
    using i by (auto simp: next_free_def unat_sub_if')
  then have td: "unat ?t < 2 ^ d"
    using tail(1) i(2) by simp
  have ne: "?t \<noteq> cl_index cl"
    using other by (simp add: cl_def)
  have step: "logs_step H d cl (hist ! 0) L'"
    using i by (simp add: logs_step_def cl_def L'_def)
  obtain ps' where ps': "update_proof_or_leaf d ?t ?ps EMPTY cl =
      Inr (ps', if ?t = cl_index cl then get_leaf cl else EMPTY)" "length ps' = d"
    by (rule update_proof_or_leaf_spec [OF td _ invD(4) tail(2), of cl EMPTY])
      (use i in \<open>auto simp: cl_def\<close>)
  have "replace_critbit d ?t (cl_index cl) (cl_path cl) ?ps = Inr ps'"
    by (simp add: replace_critbit_eq [OF ne, where leaf = EMPTY] ps'(1))
  moreover have "ps' = proof_at H d L' (next_free acc - 1)" if "next_free acc < 2 ^ d"
    using replace_critbit_step [OF step td invD(3,4) ne] calculation tail(4) [OF that] t by simp
  ultimately show ?thesis
    using ps'(2) by (auto simp: cl_def replace_critbit_commute [of d i])
qed

lemma apply_changes_spec:
  assumes inv: "acc_inv H d n acc hist" and i: "unat i < 2 ^ d" "unat i \<le> next_free acc"
  shows "\<exists>acc'. and_then (apply_changes H d prev x (proof_at H d (hist ! 0) (unat i)) i
      (increment_active_index n acc)) (\<lambda>(root, acc').
      Inr (root, acc'\<lparr>acc_roots := (acc_roots acc')[unat (acc_active acc') := root]\<rparr>)) =
    Inr (tree_root H d ((hist ! 0)(unat i := x)), acc') \<and> acc_wrote H d n hist (unat i) x acc acc'"
proof -
  let ?L = "hist ! 0" and ?L' = "(hist ! 0)(unat i := x)" and ?rp = "acc_rightmost acc"
  let ?acc1 = "increment_active_index n acc"
  let ?path = "al_path (acc_logs acc ! unat (acc_active ?acc1))"
  note invD = acc_invD [OF inv] and tail = acc_tailD [OF inv]
  have a: "unat (acc_active ?acc1) < n"
    using unat_next [OF invD(2,10)] dims_pos [OF invD(2)]
    by (simp add: increment_active_index_def)
  have "log_of (acc_roots acc ! unat (acc_active ?acc1)) (acc_logs acc ! unat (acc_active ?acc1)) \<in>
      set (change_logs (as_roll 0 ?L acc))"
    using nth_as_roll [OF invD(6,7) a] invD(6,7) a
    by (metis as_roll_def length_map length_zip merkle_roll.select_convs(4) min.idem nth_mem)
  then have len: "length ?path = d"
    using buffer_invD(7) [OF invD(5)] by (fastforce simp: log_of_def)
  have "replace_and_recompute_path H i x (proof_at H d ?L (unat i))
      \<lparr>cl_root = EMPTY, cl_path = ?path, cl_index = 0, cl_padding = 0\<rparr> =
    (tree_root H d ?L', \<lparr>cl_root = tree_root H d ?L', cl_path = path_at H d ?L' (unat i),
      cl_index = i, cl_padding = 0\<rparr>)"
    using replace_and_recompute_path_spec [OF _ i(1), of
        "\<lparr>cl_root = EMPTY, cl_path = ?path, cl_index = 0, cl_padding = 0\<rparr>" H x ?L] len by simp
  then have path: "apply_path H d i 0 x (proof_at H d ?L (unat i)) (?path[0 := x]) =
      (path_at H d ?L' (unat i), tree_root H d ?L')"
    using apply_path_eq [of 0 "proof_at H d ?L (unat i)" d ?path H i x] len
    by (auto simp: replace_and_recompute_path_def split: prod.splits)
  define l where "l = \<lparr>al_path = path_at H d ?L' (unat i), al_prev_leaf = prev, al_curr_leaf = x,
      al_index = i\<rparr>"
  have acc1: "acc_rightmost ?acc1 = ?rp" "acc_logs ?acc1 = acc_logs acc"
    "acc_roots ?acc1 = acc_roots acc"
    by (simp_all add: increment_active_index_def)
  note wrote = acc_wroteI [OF inv i(1) refl, where l = l]
  let ?stored = "\<lambda>rp. Inr (tree_root H d ?L', record_change n (tree_root H d ?L') l rp acc)"
  have keep: "record_change n r l ?rp acc = ?acc1\<lparr>acc_logs := (acc_logs acc)[unat (acc_active ?acc1) := l],
      acc_roots := (acc_roots acc)[unat (acc_active ?acc1) := r]\<rparr>" for r
    by (rule accumulator.equality)
      (simp_all add: record_change_def Let_def increment_active_index_def)
  have eval: "and_then (apply_changes H d prev x (proof_at H d ?L (unat i)) i ?acc1)
      (\<lambda>(root, acc').
        Inr (root, acc'\<lparr>acc_roots := (acc_roots acc')[unat (acc_active acc') := root]\<rparr>)) =
    (if i < rp_index ?rp then
       if i \<noteq> rp_index ?rp - 1
       then and_then (replace_critbit d i (rp_index ?rp - 1) (path_at H d ?L' (unat i))
         (rp_proof ?rp)) (\<lambda>ps'. ?stored (?rp\<lparr>rp_proof := ps'\<rparr>))
       else ?stored ?rp
     else and_then (ensure (i = rp_index ?rp) Panic) (\<lambda>_.
       and_then (ok_or (checked_add i 1) Panic) (\<lambda>next_index.
       ?stored \<lparr>rp_proof = proof_at H d ?L (unat i), rp_leaf = x, rp_index = next_index\<rparr>)))"
    unfolding keep l_def
    by (simp add: apply_changes_def Let_def acc1 path record_change_alt and_then_assoc)
  consider (old) "unat i < next_free acc" "i \<noteq> rp_index ?rp - 1"
    | (last) "unat i < next_free acc" "i = rp_index ?rp - 1" | (new) "unat i = next_free acc"
    using i(2) by linarith
  then show ?thesis
  proof cases
    case old
    obtain ps' where ps': "replace_critbit d i (rp_index ?rp - 1) (path_at H d ?L' (unat i))
        (rp_proof ?rp) = Inr ps'" "length ps' = d"
      "next_free acc < 2 ^ d \<Longrightarrow> ps' = proof_at H d ?L' (next_free acc - 1)"
      using rightmost_follows [OF inv i(1) old, of x] by blast
    have "acc_wrote H d n hist (unat i) x acc
        (record_change n (tree_root H d ?L') l (?rp\<lparr>rp_proof := ps'\<rparr>) acc)"
      by (rule wrote) (use old ps'(2,3) in \<open>auto simp: l_def next_free_def\<close>)
    then show ?thesis
      unfolding eval using old ps'(1) by (simp add: word_less_nat_alt next_free_def)
  next
    case last
    have t: "unat (rp_index ?rp - 1) = next_free acc - 1"
      using last(1) by (auto simp: next_free_def unat_sub_if')
    have "acc_wrote H d n hist (unat i) x acc (record_change n (tree_root H d ?L') l ?rp acc)"
      by (rule wrote) (use last tail(2,4) t in \<open>auto simp: l_def next_free_def proof_at_upd_same\<close>)
    then show ?thesis
      unfolding eval using last by (auto simp: word_less_nat_alt next_free_def)
  next
    case new
    have suc: "checked_add i 1 = Some (i + 1)" "unat (i + 1) = Suc (unat i)"
      using i(1) pow_depth_less [OF invD(2)] by (simp_all add: checked_add_def unat_word_ariths)
    have "acc_wrote H d n hist (unat i) x acc (record_change n (tree_root H d ?L') l
        \<lparr>rp_proof = proof_at H d ?L (unat i), rp_leaf = x, rp_index = i + 1\<rparr> acc)"
      by (rule wrote) (use new suc in \<open>auto simp: l_def proof_at_upd_same\<close>)
    moreover have "i = rp_index ?rp"
      using new by (simp add: next_free_def word_unat_eq_iff)
    ultimately show ?thesis
      unfolding eval using suc(1) by auto
  qed
qed

end
