(* ===== verification/Accumulator_Steps.thy ===== *)
theory Accumulator_Steps
  imports Accumulator_Inv Leaf_Store
begin

text \<open>
  The operations of the prototype under its invariant: what \<open>set_leaf\<close> does with the proof of a
  remembered tree, and which tree \<open>append\<close> computes the root of.
\<close>

section \<open>Writing a leaf with the proof of a remembered tree\<close>

lemma update_and_apply_right:
  assumes inv: "acc_inv H d n acc hist" and i: "unat i < 2 ^ d" "unat i \<le> next_free acc"
    and right: "right_for H d (unat i) hist k ps leaf" and k: "k < length hist"
    and j: "j = (acc_active acc - of_nat k) AND index_mask n"
  shows "if leaf = (hist ! 0) (unat i)
    then \<exists>acc'. update_and_apply_proof H d n leaf x ps i j conflict acc =
        Inr (tree_root H d ((hist ! 0)(unat i := x)), acc') \<and> acc_wrote H d n hist (unat i) x acc acc'
    else update_and_apply_proof H d n leaf x ps i j conflict acc =
      (if leaf = EMPTY \<and> conflict then accumulator_append H d n x acc else Inl (Err ()))"
proof -
  note invD = acc_invD [OF inv]
  have "acc_replay n d n acc i j ps leaf =
      Inr (proof_at H d (hist ! 0) (unat i), (hist ! 0) (unat i))"
    using fast_forward_right [OF invD(1) [of 0] i(1) right k, of False]
    by (simp add: acc_replay_eq [OF inv] j) (simp add: as_roll_def)
  moreover have "recompute H ((hist ! 0) (unat i)) (proof_at H d (hist ! 0) (unat i)) i =
      acc_get_root acc"
    using recompute_proof_at [OF i(1), of H "hist ! 0"] acc_get_root_eq [OF inv] by simp
  ultimately show ?thesis
    using apply_changes_spec [OF inv i, of leaf x]
    by (auto simp: update_and_apply_proof.simps)
qed

lemma acc_find_tree:
  assumes inv: "acc_inv H d n acc hist"
    and t: "latest H d hist t"
  shows "List.find (\<lambda>j. acc_roots acc ! unat j = tree_root H d (hist ! t))
      (map (\<lambda>i. (acc_active acc - of_nat i) AND index_mask n) [0..<unat (acc_size acc)]) =
    Some ((acc_active acc - of_nat t) AND index_mask n)"
proof -
  have "List.find (\<lambda>k. tree_root H d (hist ! k) = tree_root H d (hist ! t)) [0..<length hist] =
      Some t"
    using t by (auto simp: latest_def find_Some_iff intro!: exI [of _ t])
  then show ?thesis
    unfolding acc_find_eq [OF inv] find_root_in_changelog_eq [OF acc_invD(1) [OF inv]]
    by (simp add: as_roll_def)
qed

lemma find_and_update_right:
  fixes x :: node and conflict :: bool
  assumes inv: "acc_inv H d n acc hist" and i: "unat i < 2 ^ d" "unat i \<le> next_free acc"
    and t: "latest H d hist t"
  defines "res \<equiv> find_and_update_leaf H d n (tree_root H d (hist ! t)) ((hist ! t) (unat i)) x
      (proof_at H d (hist ! t) (unat i)) i conflict acc"
  shows "if (hist ! t) (unat i) = (hist ! 0) (unat i)
    then \<exists>acc'. res = Inr (tree_root H d ((hist ! 0)(unat i := x)), acc') \<and>
      acc_wrote H d n hist (unat i) x acc acc'
    else res = (if (hist ! t) (unat i) = EMPTY \<and> conflict then accumulator_append H d n x acc
      else Inl (Err ()))"
proof -
  have "\<not> rp_index (acc_rightmost acc) < i"
    using i(2) by (simp add: next_free_def word_less_nat_alt)
  moreover note find = acc_find_tree [OF inv t]
  ultimately have eq: "res = update_and_apply_proof H d n ((hist ! t) (unat i)) x
      (proof_at H d (hist ! t) (unat i)) i ((acc_active acc - of_nat t) AND index_mask n)
      conflict acc"
    unfolding res_def find_and_update_leaf_def
    by (simp only: find option.case recompute_proof_at [OF i(1)] Let_def simp_thms if_False if_True)
  have right: "right_for H d (unat i) hist t (proof_at H d (hist ! t) (unat i))
      ((hist ! t) (unat i))"
    by (auto simp: right_for_def)
  have "t < length hist"
    using t by (simp add: latest_def)
  from update_and_apply_right [OF inv i right this refl, of x conflict] show ?thesis
    unfolding eq .
qed

text \<open>
  Such a proof is accepted, unless the leaf has changed since: then \<open>set_leaf\<close> fails and
  \<open>fill_empty_or_append\<close> appends.
\<close>

lemma accumulator_set_leaf_right:
  assumes inv: "acc_inv H d n acc hist" and i: "unat i < 2 ^ d" "unat i \<le> next_free acc"
    and t: "latest H d hist t"
  shows "if (hist ! t) (unat i) = (hist ! 0) (unat i)
    then \<exists>acc'. accumulator_set_leaf H d n (tree_root H d (hist ! t)) ((hist ! t) (unat i)) x
          (proof_at H d (hist ! t) (unat i)) i acc =
        Inr (tree_root H d ((hist ! 0)(unat i := x)), acc') \<and> acc_wrote H d n hist (unat i) x acc acc'
    else accumulator_set_leaf H d n (tree_root H d (hist ! t)) ((hist ! t) (unat i)) x
          (proof_at H d (hist ! t) (unat i)) i acc = Inl (Err ())"
  using find_and_update_right [OF inv i t, of x False]
  unfolding accumulator_set_leaf_def by (simp only: if_False simp_thms split: if_splits)

lemma accumulator_fill_right:
  assumes inv: "acc_inv H d n acc hist" and i: "unat i < 2 ^ d" "unat i \<le> next_free acc"
    and t: "latest H d hist t"
    and empty: "(hist ! t) (unat i) = EMPTY"
  shows "if (hist ! 0) (unat i) = EMPTY
    then \<exists>acc'. accumulator_fill_empty_or_append H d n (tree_root H d (hist ! t)) x
          (proof_at H d (hist ! t) (unat i)) i acc =
        Inr (tree_root H d ((hist ! 0)(unat i := x)), acc') \<and> acc_wrote H d n hist (unat i) x acc acc'
    else accumulator_fill_empty_or_append H d n (tree_root H d (hist ! t)) x
          (proof_at H d (hist ! t) (unat i)) i acc = accumulator_append H d n x acc"
  using find_and_update_right [OF inv i t, of x True]
  unfolding accumulator_fill_empty_or_append_def empty by (auto split: if_splits)

text \<open>Clearing a leaf is a write of the empty leaf; past the next free leaf it is refused.\<close>

lemma accumulator_set_leaf_to_empty_eq:
  "accumulator_set_leaf_to_empty H d n root leaf ps i acc =
    (if next_free acc < unat i then Inl (Err ())
     else accumulator_set_leaf H d n root leaf EMPTY ps i acc)"
  by (simp add: accumulator_set_leaf_to_empty_def accumulator_set_leaf_def next_free_def
      word_less_nat_alt)

section \<open>The loops of append\<close>

lemma bit_0_or_1: "w AND 1 = 1 \<longleftrightarrow> w AND 1 \<noteq> 0"
  for w :: "'a::len word"
  by (simp add: and_one_eq)

lemma trailing_zeros_less:
  fixes w :: u32
  assumes "w \<noteq> 0" and "unat w < 2 ^ d"
  shows "trailing_zeros w < d"
proof -
  obtain q where "unat w = 2 ^ trailing_zeros w * (2 * q + 1)"
    using lowest_bit [OF assms(1)] by blast
  then have "2 ^ trailing_zeros w \<le> unat w"
    by simp
  then have "(2 :: nat) ^ trailing_zeros w < 2 ^ d"
    using assms(2) by linarith
  then show ?thesis
    by simp
qed

lemma append_loops_eq:
  assumes index: "index \<noteq> 0" and d: "unat index < 2 ^ d"
  shows "append_loops H d index x leaf ps =
    fold (append_step H d index (trailing_zeros index)) [0..<d]
      (x, leaf, replicate d EMPTY, ps)"
proof -
  define t where "t = trailing_zeros index"
  have td: "t < d"
    using trailing_zeros_less [OF assms] by (simp add: t_def)
  obtain q where q: "unat index = 2 ^ t * (2 * q + 1)"
    using lowest_bit [OF index] by (auto simp: t_def)
  have pred: "unat (index - 1) = unat index - 1"
    using index by (simp add: unat_gt_0 unat_minus_one)
  have below: "append_below H index k s = append_step H d index t k s" if "k < t" for k s
    using that by (auto simp: append_below_def append_step_def Let_def hash_to_parent_def bit_0_or_1
        empty_node_cached_eq split: prod.splits)
  have meet: "append_meet H t s = append_step H d index t t s" for s
    by (auto simp: append_meet_def append_step_def Let_def hash_to_parent_def split: prod.splits)
  have above: "append_above H index k s = append_step H d index t k s" if "t < k" for k s
    using that paths_meet(5) [OF q that] pred
    by (auto simp: append_above_def append_step_def Let_def hash_to_parent_def bit_0_or_1
        shift_and_one split: prod.splits)
  have "[0..<d] = [0..<t] @ t # [Suc t..<d]"
    using td upt_add_eq_append [of 0 t "d - t"] by (simp add: upt_conv_Cons)
  moreover have "fold (append_below H index) [0..<t] s = fold (append_step H d index t) [0..<t] s"
    and "fold (append_above H index) [Suc t..<d] s =
      fold (append_step H d index t) [Suc t..<d] s" for s
    by (auto intro!: List.fold_cong ext simp: below above)
  ultimately show ?thesis
    by (simp add: append_loops_def t_def [symmetric] meet)
qed

section \<open>Append\<close>

text \<open>The tree that the accumulator takes for the current one.\<close>

definition believed :: "accumulator \<Rightarrow> leaves \<Rightarrow> leaves" where
  "believed acc L = (if next_free acc = 0 then L
     else L(next_free acc - 1 := rp_leaf (acc_rightmost acc)))"

lemma believed_current:
  assumes "current_tail d acc L" and "next_free acc < 2 ^ d"
  shows "believed acc L = L"
  using assms by (auto simp: believed_def current_tail_def)

lemma initialize_tree_spec:
  assumes inv: "acc_inv H d n acc hist" and zero: "next_free acc = 0"
  shows "\<exists>acc'. initialize_tree H d n x (rp_proof (acc_rightmost acc)) acc =
      Inr (tree_root H d ((hist ! 0)(0 := x)), acc') \<and> acc_wrote H d n hist 0 x acc acc'"
proof -
  let ?ps = "rp_proof (acc_rightmost acc)"
  note invD = acc_invD [OF inv] and tail = acc_tailD [OF inv]
  have empty: "hist ! 0 = no_leaves"
    using tail(3) zero by auto
  have ps: "?ps = proof_at H d (hist ! 0) (unat (0 :: u32))"
    using tail(4) zero by simp
  have active: "acc_active acc = 0"
    using invD(9) zero by (simp add: next_free_def unat_eq_0)
  have "right_for H d (unat (0 :: u32)) hist 0 ?ps EMPTY"
    using empty by (simp add: right_for_def ps)
  moreover have "(0 :: u64) = (acc_active acc - of_nat 0) AND index_mask n"
    by (simp add: active)
  ultimately have "\<exists>acc'. update_and_apply_proof H d n EMPTY x ?ps 0 0 False acc =
      Inr (tree_root H d ((hist ! 0)(0 := x)), acc') \<and> acc_wrote H d n hist 0 x acc acc'"
    using update_and_apply_right [OF inv, of 0 0 ?ps EMPTY 0 x False] invD(11) empty by simp
  moreover have "recompute H EMPTY ?ps 0 = empty_node H d"
    using recompute_proof_at [of "0 :: u32" d H no_leaves]
    by (simp add: ps empty tree_root_def empty_node_eq [of H d 0])
  ultimately show ?thesis
    by (simp add: initialize_tree.simps)
qed

lemma accumulator_append_refused:
  assumes "acc_inv H d n acc hist" and "x = EMPTY \<or> \<not> next_free acc < 2 ^ d"
  shows "accumulator_append H d n x acc = Inl (Err ())"
  using assms full_iff [OF acc_invD(2) [OF assms(1)], of "rp_index (acc_rightmost acc)"]
  by (auto simp: accumulator_append.simps Let_def next_free_def not_less)

lemma accumulator_append_spec:
  assumes inv: "acc_inv H d n acc hist" and x: "x \<noteq> EMPTY" and room: "next_free acc < 2 ^ d"
  shows "\<exists>acc'. accumulator_append H d n x acc =
      Inr (tree_root H d ((believed acc (hist ! 0))(next_free acc := x)), acc') \<and>
      (current_tail d acc (hist ! 0) \<longrightarrow> acc_wrote H d n hist (next_free acc) x acc acc')"
proof (cases "next_free acc = 0")
  case True
  then show ?thesis
    using initialize_tree_spec [OF inv True, of x] x room
      full_iff [OF acc_invD(2) [OF inv], of "rp_index (acc_rightmost acc)"]
    by (auto simp: accumulator_append.simps Let_def believed_def next_free_def unat_eq_0)
next
  case False
  let ?rp = "acc_rightmost acc" and ?m = "next_free acc"
  let ?i = "rp_index ?rp"
  define L where "L = believed acc (hist ! 0)"
  note invD = acc_invD [OF inv] and tail = acc_tailD [OF inv]
  have i: "?i \<noteq> 0" "unat ?i = ?m"
    using False by (auto simp: next_free_def)
  have L: "L (?m - 1) = rp_leaf ?rp" "proof_at H d L (?m - 1) = rp_proof ?rp"
    using False tail(4) [OF room] by (auto simp: L_def believed_def proof_at_upd_same)
  have empty: "L j = EMPTY" if "unat ?i \<le> j" for j
    using that tail(3) False by (auto simp: L_def believed_def i(2))
  have loops: "append_loops H d ?i x (rp_leaf ?rp) (rp_proof ?rp) =
      (tree_root H d (L(?m := x)),
       node_at H (min d (trailing_zeros ?i)) ((?m - 1) div 2 ^ min d (trailing_zeros ?i)) L,
       path_at H d (L(?m := x)) ?m, proof_at H d (L(?m := x)) ?m)"
    using append_fold [where L = L and H = H and d = d and x = x, OF i(1) empty order_refl] room
    unfolding append_loops_eq [OF i(1) room [folded i(2)]] i(2) L
    by (simp add: append_proof_ends tree_root_def)
  define l where "l = \<lparr>al_path = path_at H d (L(?m := x)) ?m, al_prev_leaf = EMPTY,
      al_curr_leaf = x, al_index = ?i\<rparr>"
  define rp where "rp = \<lparr>rp_proof = proof_at H d (L(?m := x)) ?m, rp_leaf = x,
      rp_index = ?i + 1\<rparr>"
  have suc: "unat (?i + 1) = Suc ?m"
    using room pow_depth_less [OF invD(2)] by (simp add: unat_word_ariths i(2))
  have "accumulator_append H d n x acc =
      Inr (tree_root H d (L(?m := x)),
        record_change n (tree_root H d (L(?m := x))) l rp acc)"
    using x i room full_iff [OF invD(2), of ?i]
    by (simp add: accumulator_append.simps Let_def loops record_change_def l_def rp_def
        increment_active_index_def)
  moreover have "acc_wrote H d n hist ?m x acc
      (record_change n (tree_root H d (L(?m := x))) l rp acc)" if "current_tail d acc (hist ! 0)"
    unfolding i(2) [symmetric]
    by (rule acc_wroteI [OF inv])
      (use room suc believed_current [OF that room] in \<open>auto simp: L_def i(2) l_def rp_def\<close>)
  ultimately show ?thesis
    unfolding L_def by blast
qed

end
