(* ===== verification/Accumulator_Props.thy ===== *)
theory Accumulator_Props
  imports Accumulator_Steps Merkle_Roll_Props
begin

text \<open>
  The prototype beside the concurrent tree that replaced it. \<open>lockstep\<close> runs both with the same
  calls; they agree call for call as long as no call writes the last leaf of a tree with room. A
  call that does makes the next append of the prototype undo it.
\<close>

section \<open>The same calls on both\<close>

text \<open>What a caller sees of an operation: the root, or how it failed.\<close>

definition outcome :: "('e, node \<times> 's) result \<Rightarrow> (unit, node) result" where
  "outcome r = map_failure (\<lambda>_. ()) (and_then r (\<lambda>(root, _). Inr root))"

lemma outcome_simps [simp]:
  "outcome (Inr (root, s)) = Inr root"
  "outcome (Inl (Err e)) = Inl (Err ())"
  "outcome (Inl Panic) = Inl Panic"
  by (simp_all add: outcome_def)

definition tail_write :: "nat \<Rightarrow> accumulator \<Rightarrow> u32 \<Rightarrow> bool" where
  "tail_write d acc i \<longleftrightarrow> Suc (unat i) = next_free acc \<and> next_free acc < 2 ^ d"

text \<open>A call of \<open>set_leaf\<close> with the root, leaf and proof of the tree \<open>hist ! t\<close>.\<close>

inductive lockstep ::
  "hashv \<Rightarrow> nat \<Rightarrow> nat \<Rightarrow> accumulator \<Rightarrow> merkle_roll \<Rightarrow> leaves list \<Rightarrow> bool" for H d n where
  start: "initialize H d n (merkle_roll_new d n) = Inr (r, roll) \<Longrightarrow>
    lockstep H d n (accumulator_new H d n) roll [no_leaves]"
| append: "lockstep H d n acc roll hist \<Longrightarrow>
    accumulator_append H d n x acc = Inr (r, acc') \<Longrightarrow>
    append_node H d n x roll = Inr (r', roll') \<Longrightarrow>
    lockstep H d n acc' roll' ((hist ! 0)(next_leaf roll := x) # take (n - 1) hist)"
| set_leaf: "lockstep H d n acc roll hist \<Longrightarrow> latest H d hist t \<Longrightarrow> unat i < 2 ^ d \<Longrightarrow>
    unat i \<le> next_leaf roll \<Longrightarrow> \<not> tail_write d acc i \<Longrightarrow>
    accumulator_set_leaf H d n (tree_root H d (hist ! t)) ((hist ! t) (unat i)) x
      (proof_at H d (hist ! t) (unat i)) i acc = Inr (r, acc') \<Longrightarrow>
    set_leaf H d n (tree_root H d (hist ! t)) ((hist ! t) (unat i)) x
      (proof_at H d (hist ! t) (unat i)) i roll = Inr (r', roll') \<Longrightarrow>
    lockstep H d n acc' roll' ((hist ! 0)(unat i := x) # take (n - 1) hist)"

section \<open>Both represent the same tree\<close>

definition both_inv :: "hashv \<Rightarrow> nat \<Rightarrow> nat \<Rightarrow> accumulator \<Rightarrow> merkle_roll \<Rightarrow> leaves list \<Rightarrow> bool" where
  "both_inv H d n acc roll hist \<longleftrightarrow>
     acc_inv H d n acc hist \<and> current_tail d acc (hist ! 0) \<and> roll_inv H d n roll hist \<and>
     next_leaf roll = next_free acc"

lemma accumulator_new_inv:
  assumes dims: "dims d n"
  shows "acc_inv H d n (accumulator_new H d n) [no_leaves]"
proof -
  let ?acc = "accumulator_new H d n" and ?root = "empty_node H d"
  have logs: "change_logs (as_roll 0 no_leaves ?acc) =
      replicate n (log_of ?root (acc_log_default d))"
    by (simp add: as_roll_def accumulator_new_def zip_replicate)
  have n: "0 < n" "0 < d"
    using dims_pos [OF dims] dims by (auto simp: dims_def)
  have "buffer_inv H d n (as_roll 0 no_leaves ?acc) [no_leaves]"
    using n by (auto simp: buffer_inv_def logs log_at_def log_of_def acc_log_default_def Suc_le_eq
        tree_root_def empty_node_eq [of H d 0]) (simp_all add: as_roll_def accumulator_new_def)
  moreover have "rightmost_inv H d (rightmost_proof (as_roll 0 no_leaves ?acc)) no_leaves"
    by (simp add: rightmost_inv_def as_roll_def accumulator_new_def proof_at_def empty_node_eq)
  ultimately show ?thesis
    using dims n by (auto simp: acc_inv_def roll_inv_def accumulator_new_def acc_log_default_def)
qed

lemma both_inv_start:
  assumes "dims d n" and "initialize H d n (merkle_roll_new d n) = Inr (r, roll)"
  shows "both_inv H d n (accumulator_new H d n) roll [no_leaves]"
  using initialize_spec [OF assms(1), of H] assms(2) accumulator_new_inv [OF assms(1), of H]
  by (auto simp: both_inv_def next_leaf_def next_free_def current_tail_def accumulator_new_def)

lemma current_tail_write:
  assumes "acc_wrote H d n hist i x acc acc'" and "current_tail d acc (hist ! 0)"
    and "i \<le> next_free acc" and "Suc i \<noteq> next_free acc \<or> \<not> next_free acc < 2 ^ d"
  shows "current_tail d acc' (((hist ! 0)(i := x) # take (n - 1) hist) ! 0)"
  using assms by (auto simp: acc_wrote_def current_tail_def)

lemma both_inv_write:
  assumes inv: "both_inv H d n acc roll hist" and acc: "acc_wrote H d n hist i x acc acc'"
    and roll: "roll_inv H d n roll' ((hist ! 0)(i := x) # take (n - 1) hist)"
      "next_leaf roll' = max (next_leaf roll) (Suc i)"
    and i: "i \<le> next_free acc" "Suc i \<noteq> next_free acc \<or> \<not> next_free acc < 2 ^ d"
  shows "both_inv H d n acc' roll' ((hist ! 0)(i := x) # take (n - 1) hist)"
  using current_tail_write [OF acc _ i] inv acc roll by (auto simp: both_inv_def acc_wrote_def)

text \<open>One call on both, with its outcome and, on success, the states after it.\<close>

lemma append_both:
  assumes inv: "both_inv H d n acc roll hist"
  defines "L' \<equiv> \<lambda>x. (hist ! 0)(next_leaf roll := x)"
  shows "outcome (accumulator_append H d n x acc) = outcome (append_node H d n x roll)"
    and "accumulator_append H d n x acc = Inr (r, acc') \<Longrightarrow> append_node H d n x roll = Inr (r', roll') \<Longrightarrow>
      both_inv H d n acc' roll' (L' x # take (n - 1) hist)"
proof -
  have acc: "acc_inv H d n acc hist" "current_tail d acc (hist ! 0)"
    and roll: "roll_inv H d n roll hist" "next_leaf roll = next_free acc"
    using inv by (auto simp: both_inv_def)
  have "outcome (accumulator_append H d n x acc) = outcome (append_node H d n x roll) \<and>
    (accumulator_append H d n x acc = Inr (r, acc') \<longrightarrow> append_node H d n x roll = Inr (r', roll') \<longrightarrow>
      both_inv H d n acc' roll' (L' x # take (n - 1) hist))"
  proof (cases "x = EMPTY \<or> \<not> next_free acc < 2 ^ d")
    case True
    then show ?thesis
      using accumulator_append_refused [OF acc(1) True] append_node_eq [OF roll(1), of x] roll(2)
      by (auto simp: next_leaf_def split: if_splits)
  next
    case False
    obtain a where a: "accumulator_append H d n x acc = Inr (tree_root H d (L' x), a)"
      "acc_wrote H d n hist (next_free acc) x acc a"
      using accumulator_append_spec [OF acc(1), of x] False acc(2) believed_current [OF acc(2)]
        roll(2) by (auto simp: L'_def)
    obtain b where b: "append_node H d n x roll = Inr (tree_root H d (L' x), b)"
      "roll_inv H d n b (L' x # take (n - 1) hist)" "next_leaf b = Suc (next_leaf roll)"
      using roll.app_ok [OF roll(1), of x] False roll(2) by (auto simp: L'_def)
    have "both_inv H d n a b (L' x # take (n - 1) hist)"
      using both_inv_write [OF inv a(2), of b] b roll(2) by (simp add: L'_def)
    then show ?thesis
      using a(1) b(1) by auto
  qed
  then show "outcome (accumulator_append H d n x acc) = outcome (append_node H d n x roll)"
    and "accumulator_append H d n x acc = Inr (r, acc') \<Longrightarrow> append_node H d n x roll = Inr (r', roll') \<Longrightarrow>
      both_inv H d n acc' roll' (L' x # take (n - 1) hist)"
    by blast+
qed

lemma set_leaf_both:
  assumes inv: "both_inv H d n acc roll hist" and t: "latest H d hist t"
    and i: "unat i < 2 ^ d" "unat i \<le> next_leaf roll"
  defines "set_acc \<equiv> \<lambda>x. accumulator_set_leaf H d n (tree_root H d (hist ! t)) ((hist ! t) (unat i)) x
      (proof_at H d (hist ! t) (unat i)) i acc"
    and "set_roll \<equiv> \<lambda>x. set_leaf H d n (tree_root H d (hist ! t)) ((hist ! t) (unat i)) x
      (proof_at H d (hist ! t) (unat i)) i roll"
  shows "outcome (set_acc x) = outcome (set_roll x)"
    and "\<not> tail_write d acc i \<Longrightarrow> set_acc x = Inr (r, acc') \<Longrightarrow> set_roll x = Inr (r', roll') \<Longrightarrow>
      both_inv H d n acc' roll' ((hist ! 0)(unat i := x) # take (n - 1) hist)"
proof -
  have acc: "acc_inv H d n acc hist" and roll: "roll_inv H d n roll hist"
    and idx: "next_leaf roll = next_free acc"
    using inv by (auto simp: both_inv_def)
  note spec = accumulator_set_leaf_right [OF acc i(1) i(2) [unfolded idx] t, of x]
  have "outcome (set_acc x) = outcome (set_roll x) \<and>
    (\<not> tail_write d acc i \<longrightarrow> set_acc x = Inr (r, acc') \<longrightarrow> set_roll x = Inr (r', roll') \<longrightarrow>
      both_inv H d n acc' roll' ((hist ! 0)(unat i := x) # take (n - 1) hist))"
  proof (cases "(hist ! t) (unat i) = (hist ! 0) (unat i)")
    case True
    then obtain a where a: "set_acc x = Inr (tree_root H d ((hist ! 0)(unat i := x)), a)"
      "acc_wrote H d n hist (unat i) x acc a"
      using spec by (auto simp: set_acc_def)
    obtain b where b: "set_roll x = Inr (tree_root H d ((hist ! 0)(unat i := x)), b)"
      "roll_inv H d n b ((hist ! 0)(unat i := x) # take (n - 1) hist)"
      "next_leaf b = max (next_leaf roll) (Suc (unat i))"
      using roll.put_ok [OF roll i t True, of x] by (auto simp: set_roll_def)
    show ?thesis
      using both_inv_write [OF inv a(2) b(2,3)] i(2) idx a(1) b(1)
      by (auto simp: tail_write_def)
  next
    case False
    then have "set_acc x = Inl (Err ())"
      using spec by (simp add: set_acc_def)
    moreover obtain e where "set_roll x = Inl (Err e)"
      using roll.put_modified [OF roll i t False, of x] by (auto simp: set_roll_def)
    ultimately show ?thesis by simp
  qed
  then show "outcome (set_acc x) = outcome (set_roll x)"
    and "\<not> tail_write d acc i \<Longrightarrow> set_acc x = Inr (r, acc') \<Longrightarrow> set_roll x = Inr (r', roll') \<Longrightarrow>
      both_inv H d n acc' roll' ((hist ! 0)(unat i := x) # take (n - 1) hist)"
    by blast+
qed

lemma lockstep_inv: "lockstep H d n acc roll hist \<Longrightarrow> dims d n \<Longrightarrow> both_inv H d n acc roll hist"
proof (induction rule: lockstep.induct)
  case (start r roll)
  then show ?case by (auto intro: both_inv_start)
next
  case (append acc roll hist x r acc' r' roll')
  then show ?case
    using append_both(2) [of H d n acc roll hist x r acc' r' roll'] by blast
next
  case (set_leaf acc roll hist t i x r acc' r' roll')
  then show ?case using set_leaf_both(2) [of H d n acc roll hist t i x r acc' r' roll'] by blast
qed

text \<open>A state to apply the properties to: both trees after one append.\<close>

lemma toy_lockstep:
  "\<exists>acc roll. lockstep toy_hash 2 4 acc roll [toy_leaves, no_leaves] \<and> next_leaf roll = 1"
proof -
  obtain roll0 r1 roll1 where 0: "initialize toy_hash 2 4 (merkle_roll_new 2 4) =
      Inr (tree_root toy_hash 2 no_leaves, roll0)"
    and 1: "append_node toy_hash 2 4 [1] roll0 = Inr (r1, roll1)" "next_leaf roll1 = 1"
    using toy_state by blast
  let ?acc0 = "accumulator_new toy_hash 2 4"
  have lock: "lockstep toy_hash 2 4 ?acc0 roll0 [no_leaves]"
    using 0 by (rule lockstep.start)
  have inv: "both_inv toy_hash 2 4 ?acc0 roll0 [no_leaves]"
    using lockstep_inv [OF lock toy_dims] .
  then have empty: "next_leaf roll0 = 0" "next_free ?acc0 = 0"
    by (simp_all add: both_inv_def next_free_def accumulator_new_def)
  have "acc_inv toy_hash 2 4 ?acc0 [no_leaves]"
    using inv by (simp add: both_inv_def)
  then obtain acc1 where "accumulator_append toy_hash 2 4 [1] ?acc0 =
      Inr (tree_root toy_hash 2 ((believed ?acc0 no_leaves)(0 := [1])), acc1)"
    using accumulator_append_spec [of toy_hash 2 4 ?acc0 "[no_leaves]" "[1]"] empty by auto
  from lockstep.append [OF lock this 1(1)] show ?thesis
    using 1(2) empty by (auto simp: toy_leaves_def)
qed

section \<open>Properties\<close>



text \<open>
  C32. A write of the last leaf of a tree with room is lost in the prototype by the next append.
  Both trees accept the write and return the same root. The root that the prototype returns for
  the append is that of the tree without the write; the concurrent tree returns the root of the
  tree with both.
\<close>

theorem prototype_loses_tail_write:
  assumes "dims d n" and "lockstep H d n acc roll hist" and "y \<noteq> EMPTY"
    and "Suc (unat i) = next_leaf roll" and "next_leaf roll < 2 ^ d"
  shows "\<exists>acc1 acc2 roll1 roll2.
    accumulator_set_leaf H d n (tree_root H d (hist ! 0)) ((hist ! 0) (unat i)) x
      (proof_at H d (hist ! 0) (unat i)) i acc =
      Inr (tree_root H d ((hist ! 0)(unat i := x)), acc1) \<and>
    accumulator_append H d n y acc1 =
      Inr (tree_root H d ((hist ! 0)(next_leaf roll := y)), acc2) \<and>
    set_leaf H d n (tree_root H d (hist ! 0)) ((hist ! 0) (unat i)) x
      (proof_at H d (hist ! 0) (unat i)) i roll =
      Inr (tree_root H d ((hist ! 0)(unat i := x)), roll1) \<and>
    append_node H d n y roll1 =
      Inr (tree_root H d ((hist ! 0)(unat i := x, next_leaf roll := y)), roll2)"
proof -
  let ?L = "hist ! 0" and ?L' = "(hist ! 0)(unat i := x)"
  have inv: "acc_inv H d n acc hist" "current_tail d acc ?L" "roll_inv H d n roll hist"
    and idx: "next_leaf roll = next_free acc"
    using lockstep_inv [OF assms(2,1)] by (auto simp: both_inv_def)
  have i: "unat i < 2 ^ d" "unat i \<le> next_free acc" "unat i \<le> next_leaf roll"
    and ne: "hist \<noteq> []"
    using assms(4,5) idx acc_invD(11) [OF inv(1)] by auto
  obtain acc1 where acc1: "accumulator_set_leaf H d n (tree_root H d ?L) (?L (unat i)) x
      (proof_at H d ?L (unat i)) i acc = Inr (tree_root H d ?L', acc1)"
    "acc_wrote H d n hist (unat i) x acc acc1"
    using accumulator_set_leaf_right [OF inv(1) i(1,2) latest_0 [OF ne], of x] by auto
  have pred: "next_free acc - Suc 0 = unat i"
    using assms(4) idx by simp
  have acc1_inv: "acc_inv H d n acc1 (?L' # take (n - 1) hist)" "next_free acc1 = next_free acc"
    and stale: "rp_leaf (acc_rightmost acc1) = ?L (unat i)"
    using acc1(2) inv(2) assms(4,5) idx pred by (auto simp: acc_wrote_def current_tail_def)
  have "believed acc1 ?L' = ?L"
    using stale assms(4) idx acc1_inv(2) pred by (auto simp: believed_def)
  then obtain acc2 where acc2: "accumulator_append H d n y acc1 =
      Inr (tree_root H d (?L(next_leaf roll := y)), acc2)"
    using accumulator_append_spec [OF acc1_inv(1) assms(3)] acc1_inv(2) assms(5) idx by auto
  obtain roll1 where roll1: "set_leaf H d n (tree_root H d ?L) (?L (unat i)) x
      (proof_at H d ?L (unat i)) i roll = Inr (tree_root H d ?L', roll1)"
    "roll_inv H d n roll1 (?L' # take (n - 1) hist)" "next_leaf roll1 = next_leaf roll"
    using roll.put_ok [OF inv(3) i(1,3) latest_0 [OF ne] refl, of x] assms(4) by auto
  obtain roll2 where "append_node H d n y roll1 =
      Inr (tree_root H d (?L'(next_leaf roll := y)), roll2)"
    using roll.app_ok [OF roll1(2) assms(3)] roll1(3) assms(5) by auto
  then show ?thesis
    using acc1(1) acc2 roll1(1) by blast
qed

theorem prototype_loses_tail_write_witness:
  "\<exists>acc roll acc1 acc2 roll1 roll2. lockstep toy_hash 2 4 acc roll [toy_leaves, no_leaves] \<and>
    accumulator_set_leaf toy_hash 2 4 (tree_root toy_hash 2 toy_leaves) [1] [2]
      (proof_at toy_hash 2 toy_leaves 0) 0 acc =
      Inr (tree_root toy_hash 2 (toy_leaves(0 := [2])), acc1) \<and>
    accumulator_append toy_hash 2 4 [3] acc1 =
      Inr (tree_root toy_hash 2 (toy_leaves(1 := [3])), acc2) \<and>
    append_node toy_hash 2 4 [3] roll1 =
      Inr (tree_root toy_hash 2 (toy_leaves(0 := [2], 1 := [3])), roll2) \<and>
    tree_root toy_hash 2 (toy_leaves(1 := [3])) \<noteq>
      tree_root toy_hash 2 (toy_leaves(0 := [2], 1 := [3]))"
proof -
  obtain acc roll where lock: "lockstep toy_hash 2 4 acc roll [toy_leaves, no_leaves]"
    "next_leaf roll = 1"
    using toy_lockstep by blast
  have leaf: "toy_leaves 0 = [1]"
    by (simp add: toy_leaves_def)
  have "tree_root toy_hash 2 (toy_leaves(1 := [3])) \<noteq>
      tree_root toy_hash 2 (toy_leaves(0 := [2], 1 := [3]))"
    by code_simp
  then show ?thesis
    using prototype_loses_tail_write [OF toy_dims lock(1), of "[3]" 0 "[2]"] lock leaf by auto
qed

section \<open>A panic of the prototype\<close>

text \<open>
  Writing past the next free leaf, with the valid proof of the empty leaf there, panics in the
  prototype; the concurrent tree refuses it.
\<close>

lemma prototype_panics_past_end:
  assumes "dims d n" and "lockstep H d n acc roll hist" and i: "unat i < 2 ^ d"
    and past: "next_leaf roll < unat i"
  shows "accumulator_set_leaf H d n (tree_root H d (hist ! 0)) EMPTY x
      (proof_at H d (hist ! 0) (unat i)) i acc = Inl Panic"
    and "set_leaf H d n (tree_root H d (hist ! 0)) EMPTY x
      (proof_at H d (hist ! 0) (unat i)) i roll = Inl (Err LeafIndexOutOfBounds)"
proof -
  let ?L = "hist ! 0" and ?j = "(acc_active acc - of_nat 0) AND index_mask n"
  have inv: "acc_inv H d n acc hist" "roll_inv H d n roll hist"
    and idx: "next_leaf roll = next_free acc"
    using lockstep_inv [OF assms(2,1)] by (auto simp: both_inv_def)
  note invD = acc_invD [OF inv(1)]
  have find: "List.find (\<lambda>j. acc_roots acc ! unat j = tree_root H d ?L)
      (map (\<lambda>i. (acc_active acc - of_nat i) AND index_mask n) [0..<unat (acc_size acc)]) = Some ?j"
    using acc_find_tree [OF inv(1) latest_0 [OF invD(11)]] .
  have leaf: "?L (unat i) = EMPTY"
    using acc_tailD(3) [OF inv(1), of "unat i"] past idx by simp
  have "right_for H d (unat i) hist 0 (proof_at H d ?L (unat i)) EMPTY"
    by (simp add: right_for_def leaf)
  then have replay: "acc_replay n d n acc i ?j (proof_at H d ?L (unat i)) EMPTY =
      Inr (proof_at H d ?L (unat i), EMPTY)"
    using fast_forward_right [OF invD(1) [of 0] i, of 0 _ EMPTY False] invD(11)
    by (simp add: acc_replay_eq [OF inv(1)] leaf) (simp add: as_roll_def)
  have root: "recompute H EMPTY (proof_at H d ?L (unat i)) i = tree_root H d ?L"
    using recompute_proof_at [OF i, of H ?L] leaf by simp
  have "\<not> i < rp_index (acc_rightmost acc)" "i \<noteq> rp_index (acc_rightmost acc)"
    using past idx by (auto simp: next_free_def word_less_nat_alt)
  then have "apply_changes H d EMPTY x (proof_at H d ?L (unat i)) i
      (increment_active_index n acc) = Inl Panic"
    by (simp add: apply_changes_def Let_def increment_active_index_def case_prod_beta)
  then show "accumulator_set_leaf H d n (tree_root H d ?L) EMPTY x (proof_at H d ?L (unat i)) i acc =
      Inl Panic"
    unfolding accumulator_set_leaf_def find_and_update_leaf_def find
    by (simp add: root update_and_apply_proof.simps replay [simplified] acc_get_root_eq [OF inv(1)])
  show "set_leaf H d n (tree_root H d ?L) EMPTY x (proof_at H d ?L (unat i)) i roll =
      Inl (Err LeafIndexOutOfBounds)"
    using past by (simp add: set_leaf_eq [OF inv(2)] next_leaf_def word_less_nat_alt)
qed

end
