(* ===== verification/Merkle_Wallet.thy ===== *)
theory Merkle_Wallet
  imports Merkle_Tree
begin

text \<open>
  \<open>archive/merkle_wallet/src/lib.rs\<close>: a wallet that replaces NFTs by leaves of a Merkle tree of which
  it keeps the root. The calls of the token programs are a parameter: \<open>invoke\<close> takes the call and the
  state of the other accounts and returns its error or their new state. The instructions are
  transactions, so an error leaves the wallet alone. Decompression is a stub in the program.
\<close>

section \<open>State\<close>

record wallet =
  mw_root :: node
  mw_counter :: "128 word"
  mw_bump :: u8

datatype ProgramError = InvalidArgument | InvalidAccountData | CpiError nat

datatype token_call =
    InitializeMintCloseAuthority pubkey pubkey
  | InitializeMint2 pubkey pubkey
  | CreateAssociatedTokenAccount pubkey pubkey
  | MintTo pubkey pubkey pubkey
  | BurnOne pubkey pubkey pubkey
  | CloseAccount pubkey pubkey pubkey
  | CloseMetadataAndMasterEdition pubkey pubkey pubkey pubkey

type_synonym 't invoke = "token_call \<Rightarrow> 't \<Rightarrow> (ProgramError, 't) result"

definition initialize_merkle_wallet :: "u8 option \<Rightarrow> wallet \<Rightarrow> (ProgramError, wallet) result" where
  "initialize_merkle_wallet bump w =
     (let w' = w\<lparr>mw_root := EMPTY, mw_counter := 0\<rparr>
      in case bump of Some b \<Rightarrow> Inr (w'\<lparr>mw_bump := b\<rparr>) | None \<Rightarrow> Inl (Err InvalidArgument))"

section \<open>Hashing\<close>

text \<open>Each seed is hashed onto the node before it.\<close>

definition generate_leaf_node :: "hashv \<Rightarrow> bytes list \<Rightarrow> node" where
  "generate_leaf_node H seeds = fold (\<lambda>seed leaf. H [leaf, seed]) seeds EMPTY"

text \<open>
  The loop of \<open>recompute\<close> from level \<open>ix\<close> on. A set bit of the address puts the node on the left; the
  shift by more than the width of the address panics.
\<close>

fun wallet_recompute_from :: "hashv \<Rightarrow> u32 \<Rightarrow> nat \<Rightarrow> node \<Rightarrow> node list \<Rightarrow> (ProgramError, node) result" where
  "wallet_recompute_from H address ix start [] = Inr start"
| "wallet_recompute_from H address ix start (s # path) =
     (if ix < 32
      then wallet_recompute_from H address (Suc ix)
        (if drop_bit ix address AND 1 = 1 then H [start, s] else H [s, start]) path
      else Inl Panic)"

definition wallet_recompute :: "hashv \<Rightarrow> node \<Rightarrow> node list \<Rightarrow> u32 \<Rightarrow> (ProgramError, node) result" where
  "wallet_recompute H start path address = wallet_recompute_from H address 0 start path"

section \<open>Instructions\<close>

definition mint_nft ::
  "'t invoke \<Rightarrow> pubkey \<Rightarrow> pubkey \<Rightarrow> pubkey \<Rightarrow> pubkey \<Rightarrow> wallet \<times> 't \<Rightarrow>
   (ProgramError, wallet \<times> 't) result" where
  "mint_nft invoke mint token_account authority payer = (\<lambda>(w, t).
     and_then (invoke (InitializeMintCloseAuthority mint authority) t) (\<lambda>t.
     and_then (invoke (InitializeMint2 mint payer) t) (\<lambda>t.
     and_then (invoke (CreateAssociatedTokenAccount payer mint) t) (\<lambda>t.
     and_then (invoke (MintTo mint token_account payer) t) (\<lambda>t.
     and_then (ok_or (checked_add (mw_counter w) 1) Panic) (\<lambda>counter.
     Inr (w\<lparr>mw_counter := counter\<rparr>, t)))))))"

text \<open>
  \<open>metadata_data\<close> is the content of the metadata account and \<open>max_supply\<close> a field of the master
  edition; \<open>index\<close> is a \<open>u128\<close>.
\<close>

definition compress_nft ::
  "hashv \<Rightarrow> 't invoke \<Rightarrow> pubkey \<Rightarrow> pubkey \<Rightarrow> pubkey \<Rightarrow> pubkey \<Rightarrow> pubkey \<Rightarrow> bytes \<Rightarrow> pubkey \<Rightarrow>
   u64 option \<Rightarrow> u8 option \<Rightarrow> 128 word \<Rightarrow> pubkey \<Rightarrow> u32 \<Rightarrow> node list \<Rightarrow> wallet \<times> 't \<Rightarrow>
   (ProgramError, wallet \<times> 't) result" where
  "compress_nft H invoke owner mint token_account authority metadata metadata_data master_edition
     max_supply bump index mint_creator path proof = (\<lambda>(w, t).
     and_then (ok_or bump (Err InvalidArgument)) (\<lambda>_.
     and_then (wallet_recompute H EMPTY proof path) (\<lambda>root.
     and_then (ensure (root = mw_root w) (Err InvalidArgument)) (\<lambda>_.
     and_then (invoke (BurnOne token_account mint owner) t) (\<lambda>t.
     and_then (invoke (CloseAccount token_account owner owner) t) (\<lambda>t.
     and_then (case max_supply of Some m \<Rightarrow> ensure (\<not> 0 < m) (Err InvalidAccountData)
               | None \<Rightarrow> Inr ()) (\<lambda>_.
     let leaf = generate_leaf_node H [metadata_data, mint_creator, le_bytes 16 index]
     in and_then (wallet_recompute H leaf proof path) (\<lambda>new_root.
        let w' = w\<lparr>mw_root := new_root\<rparr>
        in and_then (invoke (CloseAccount mint owner authority) t) (\<lambda>t.
           and_then (invoke (CloseMetadataAndMasterEdition metadata master_edition mint owner) t)
             (\<lambda>t. Inr (w', t)))))))))))"

definition decompress_nft :: "wallet \<times> 't \<Rightarrow> (ProgramError, wallet \<times> 't) result" where
  "decompress_nft s = Inr s"

section \<open>A wallet holds one NFT at most\<close>

text \<open>The last pair that \<open>recompute\<close> hashes, in the order it does.\<close>

fun last_pair_from :: "hashv \<Rightarrow> u32 \<Rightarrow> nat \<Rightarrow> node \<Rightarrow> node list \<Rightarrow> bytes list" where
  "last_pair_from H address ix start [] = []"
| "last_pair_from H address ix start [s] =
     (if drop_bit ix address AND 1 = 1 then [start, s] else [s, start])"
| "last_pair_from H address ix start (s # path) =
     last_pair_from H address (Suc ix)
       (if drop_bit ix address AND 1 = 1 then H [start, s] else H [s, start]) path"

lemma wallet_recompute_last:
  assumes "wallet_recompute_from H address ix start path = Inr r" and "path \<noteq> []"
  shows "r = H (last_pair_from H address ix start path)"
  using assms
  by (induction H address ix start path rule: last_pair_from.induct) (auto split: if_splits)

lemma last_pair_length:
  assumes "path \<noteq> []" and "\<And>s. s \<in> set path \<Longrightarrow> length s = 32" and "length start = 32"
    and "\<And>xs. length (H xs) = 32"
  shows "\<exists>a b. last_pair_from H address ix start path = [a, b] \<and> length a = 32 \<and> length b = 32"
  using assms
  by (induction H address ix start path rule: last_pair_from.induct) auto

text \<open>
  While the root is the empty node, an NFT can be compressed with an empty proof only: no hash is
  the empty node. The new root is its leaf.
\<close>

lemma first_compression:
  assumes ok: "compress_nft H invoke owner mint ta auth md mdata me ms bump i creator path proof (w, t) =
      Inr (w', t')"
    and root: "mw_root w = EMPTY" and H: "\<And>xs. H xs \<noteq> EMPTY"
  shows "proof = []" and "mw_root w' = generate_leaf_node H [mdata, creator, le_bytes 16 i]"
proof -
  obtain r where r: "wallet_recompute_from H path 0 EMPTY proof = Inr r" "r = EMPTY"
    using ok root by (auto simp: compress_nft_def wallet_recompute_def result_simps)
  show none: "proof = []"
    using wallet_recompute_last [OF r(1)] r(2) H by metis
  show "mw_root w' = generate_leaf_node H [mdata, creator, le_bytes 16 i]"
    using ok none by (auto simp: compress_nft_def wallet_recompute_def Let_def result_simps
        split: option.splits)
qed

text \<open>
  The root is then a hash over 16 bytes of an index, and a proof hashes nodes of 32 bytes. So another
  NFT can be compressed only by a collision of the two.
\<close>

lemma second_compression_collides:
  assumes first: "compress_nft H invoke owner mint ta auth md mdata me ms bump i creator path proof
      (w, t) = Inr (w1, t1)" and root: "mw_root w = EMPTY"
    and same: "mw_root w2 = mw_root w1"
    and second: "compress_nft H invoke' owner' mint' ta' auth' md' mdata' me' ms' bump' i' creator'
      path' proof' (w2, t2) = Inr (w3, t3)"
    and H: "\<And>xs. H xs \<noteq> EMPTY" "\<And>xs. length (H xs) = 32"
    and nodes: "\<And>s. s \<in> set proof' \<Longrightarrow> length s = 32"
  defines "leaf \<equiv> [generate_leaf_node H [mdata, creator], le_bytes 16 i]"
    and "pair \<equiv> last_pair_from H path' 0 EMPTY proof'"
  shows "pair \<noteq> leaf \<and> H pair = H leaf"
proof -
  have w1: "mw_root w1 = H leaf"
    using first_compression(2) [OF first root H(1)] by (simp add: generate_leaf_node_def leaf_def)
  obtain r where r: "wallet_recompute_from H path' 0 EMPTY proof' = Inr r" "r = H leaf"
    using second same w1 by (auto simp: compress_nft_def wallet_recompute_def result_simps)
  have "proof' \<noteq> []"
    using r H(1) by (metis Inr_inject wallet_recompute_from.simps(1))
  moreover obtain a b where "pair = [a, b]" "length b = 32"
    using last_pair_length [OF calculation nodes, of EMPTY H path' 0] H(2)
    by (auto simp: pair_def EMPTY_def)
  moreover have "length (le_bytes 16 i) = 16"
    by (simp add: le_bytes_def)
  ultimately show ?thesis
    using wallet_recompute_last [OF r(1)] r(2) by (auto simp: leaf_def pair_def)
qed

end
