(* ===== verification/Ecc_Accumulator.thy ===== *)
theory Ecc_Accumulator
  imports Merkle_Roll
begin

text \<open>
  \<open>archive/ecc-accumulator/src/main.rs\<close>: a set of scalars accumulated in a point of an elliptic curve,
  with the last \<open>MAX_SIZE\<close> points and removed elements in ring buffers. The curve library is a
  parameter: \<open>act\<close> multiplies a point by a scalar and \<open>invert\<close> inverts a scalar. \<open>None\<close> is \<open>Inl (Err ())\<close>;
  the code returns it before it changes the state.
\<close>

section \<open>Definitions\<close>

record ('p, 's) ecc_accumulator =
  ecc_heads :: "'p list"
  ecc_removals :: "'s list"
  ecc_active :: u64
  ecc_size :: u64

definition ecc_new :: "'p \<Rightarrow> 's \<Rightarrow> nat \<Rightarrow> ('p, 's) ecc_accumulator" where
  "ecc_new base_point zero max_size =
     \<lparr>ecc_heads = replicate max_size base_point, ecc_removals = replicate max_size zero,
      ecc_active = 0, ecc_size = 1\<rparr>"

definition ecc_get :: "('p, 's) ecc_accumulator \<Rightarrow> 'p" where
  "ecc_get acc = ecc_heads acc ! unat (ecc_active acc)"

definition ecc_add ::
  "('p \<Rightarrow> 's \<Rightarrow> 'p) \<Rightarrow> nat \<Rightarrow> 's \<Rightarrow> ('p, 's) ecc_accumulator \<Rightarrow> ('p, 's) ecc_accumulator" where
  "ecc_add act max_size elem acc =
     (let prev = ecc_heads acc ! unat (ecc_active acc);
          a = (ecc_active acc + 1) AND index_mask max_size
      in acc\<lparr>ecc_size := (if ecc_size acc < of_nat max_size then ecc_size acc + 1 else ecc_size acc),
           ecc_active := a, ecc_heads := (ecc_heads acc)[unat a := act prev elem]\<rparr>)"

text \<open>The slots that both loops of \<open>remove\<close> visit: \<open>count\<close> slots backwards from \<open>j\<close>, around the ring.\<close>

fun ecc_slots :: "nat \<Rightarrow> nat \<Rightarrow> u64 \<Rightarrow> u64 list" where
  "ecc_slots max_size 0 j = []"
| "ecc_slots max_size (Suc count) j =
     j # ecc_slots max_size count (if j = 0 then index_mask max_size else j - 1)"

definition ecc_remove ::
  "('p \<Rightarrow> 's \<Rightarrow> 'p) \<Rightarrow> ('s \<Rightarrow> 's) \<Rightarrow> nat \<Rightarrow> 's \<Rightarrow> 'p \<Rightarrow> 'p \<Rightarrow> ('p, 's) ecc_accumulator \<Rightarrow>
   (unit, 's \<times> ('p, 's) ecc_accumulator) result" where
  "ecc_remove act invert max_size elem proof head acc =
     (let slots = ecc_slots max_size (unat (ecc_size acc)) (ecc_active acc)
      in if list_ex (\<lambda>j. ecc_removals acc ! unat j = elem) slots then Inl (Err ())
         else case List.find (\<lambda>j. ecc_heads acc ! unat j = head) slots of
           None \<Rightarrow> Inl (Err ())
         | Some j \<Rightarrow>
             if act (ecc_heads acc ! unat j) (invert elem) \<noteq> proof then Inl (Err ())
             else let acc' = ecc_add act max_size (invert elem) acc
                  in Inr (elem, acc'\<lparr>ecc_removals :=
                       (ecc_removals acc')[unat (ecc_active acc') := elem]\<rparr>))"

section \<open>What a proof of membership proves\<close>

definition ecc_removed :: "nat \<Rightarrow> ('p, 's) ecc_accumulator \<Rightarrow> 's \<Rightarrow> bool" where
  "ecc_removed max_size acc elem \<longleftrightarrow>
     list_ex (\<lambda>j. ecc_removals acc ! unat j = elem)
       (ecc_slots max_size (unat (ecc_size acc)) (ecc_active acc))"

text \<open>
  Nothing: for every scalar that is not among the recent removals, added or not, the product of the
  current point with its inverse is accepted as the proof, and the scalar is divided out.
\<close>

lemma ecc_remove_anything:
  assumes "ecc_size acc \<noteq> 0" and "\<not> ecc_removed max_size acc elem"
  shows "\<exists>acc'. ecc_remove act invert max_size elem (act (ecc_get acc) (invert elem)) (ecc_get acc) acc =
      Inr (elem, acc') \<and>
    ecc_heads acc' = ecc_heads (ecc_add act max_size (invert elem) acc) \<and>
    ecc_active acc' = ecc_active (ecc_add act max_size (invert elem) acc)"
proof -
  obtain k where k: "unat (ecc_size acc) = Suc k"
    using assms(1) by (metis not0_implies_Suc unat_eq_0)
  show ?thesis
    using assms(2) by (simp add: ecc_remove_def ecc_removed_def Let_def k ecc_get_def)
qed

lemma ecc_get_add:
  assumes "length (ecc_heads acc) = max_size" and "max_size = 2 ^ m" and "m < 64"
  shows "ecc_get (ecc_add act max_size elem acc) = act (ecc_get acc) elem"
proof -
  have "unat ((ecc_active acc + 1) AND index_mask max_size) < max_size"
    using unat_and_mask [where 'a = 64 and m = m] assms(2,3) by (simp add: index_mask_def)
  then show ?thesis
    using assms(1) by (simp add: ecc_add_def ecc_get_def Let_def)
qed

text \<open>Adding an element and removing it gives the point back, where \<open>invert\<close> inverts.\<close>

lemma ecc_add_remove:
  assumes "length (ecc_heads acc) = max_size" and "max_size = 2 ^ m" and "m < 64"
    and "ecc_size acc \<noteq> 0" and "unat (ecc_size acc) \<le> max_size"
    and inverse: "act (act (ecc_get acc) elem) (invert elem) = ecc_get acc"
  defines "acc1 \<equiv> ecc_add act max_size elem acc"
  assumes fresh: "\<not> ecc_removed max_size acc1 elem"
  shows "\<exists>acc2. ecc_remove act invert max_size elem (ecc_get acc) (ecc_get acc1) acc1 =
      Inr (elem, acc2) \<and> ecc_get acc2 = ecc_get acc"
proof -
  have get1: "ecc_get acc1 = act (ecc_get acc) elem"
    unfolding acc1_def by (rule ecc_get_add [OF assms(1-3)])
  have len: "length (ecc_heads acc1) = max_size"
    using assms(1) by (simp add: acc1_def ecc_add_def Let_def)
  have n: "unat (of_nat max_size :: u64) = max_size"
    using assms(2,3) unat_push_bit_one [of m, where 'a = 64] by (simp add: push_bit_eq_mult)
  have "ecc_size acc1 \<noteq> 0"
  proof (cases "ecc_size acc < of_nat max_size")
    case True
    then have "unat (ecc_size acc) < max_size"
      using n by (simp add: word_less_nat_alt)
    moreover have "max_size \<le> 2 ^ 63"
      using assms(2,3) by (simp del: power_numeral)
    ultimately have "unat (ecc_size acc + 1) = Suc (unat (ecc_size acc))"
      by (simp add: unat_word_ariths)
    then show ?thesis
      using True by (auto simp: acc1_def ecc_add_def Let_def)
  qed (use assms(4) in \<open>simp add: acc1_def ecc_add_def Let_def\<close>)
  from ecc_remove_anything [OF this fresh, of act invert]
  obtain acc2 where acc2: "ecc_remove act invert max_size elem (act (ecc_get acc1) (invert elem))
      (ecc_get acc1) acc1 = Inr (elem, acc2)"
    "ecc_heads acc2 = ecc_heads (ecc_add act max_size (invert elem) acc1)"
    "ecc_active acc2 = ecc_active (ecc_add act max_size (invert elem) acc1)"
    by blast
  have "ecc_get acc2 = act (ecc_get acc1) (invert elem)"
    using ecc_get_add [OF len assms(2,3)] acc2(2,3) by (simp add: ecc_get_def)
  then show ?thesis
    using acc2(1) inverse get1 by auto
qed

end
