(* ===== verification/Indexer_Store.thy ===== *)
theory Indexer_Store
  imports Gummyroll
begin

text \<open>
  \<open>nft_ingester\<close>: the indexer follows the program logs of the validator and keeps, in the table
  \<open>cl_items\<close>, the latest known hash of every node of every tree, and in \<open>backfill_items\<close> the sequence
  numbers of the change logs it saw. Tables are lists of rows in insertion order; a unique key is
  kept by the upserts. The SQL statements are assumed to succeed: a statement that fails aborts its
  transaction and leaves the tables alone. Regular expressions, base64, base58 and borsh decoding
  (third-party crates) are parameters. \<open>i64\<close> columns are integers; a \<open>u64\<close> is cast by \<open>sint\<close>. The
  containers run release builds, so \<open>usize\<close> arithmetic wraps.
\<close>

datatype IngesterError =
    ChangeLogEventMalformed
  | CompressedAssetEventMalformed
  | BatchInitNetworkingError
  | BatchInitIOError
  | StorageWriteError string
  | NotImplemented
  | DeserializationError string
  | TaskManagerError string
  | ConfigurationError string

section \<open>Events in the logs (utils/logs.rs, events/mod.rs, parsers/gummyroll.rs)\<close>

text \<open>\<open>capture\<close> is the regular expression's first group, the base64 text after \<open>Program data:\<close>.\<close>

definition filter_events_from_logs :: "(string \<Rightarrow> string option) \<Rightarrow> string list \<Rightarrow> unit + string list" where
  "filter_events_from_logs capture log_messages =
     (let events = List.map_filter capture log_messages in if events = [] then Inl () else Inr events)"

text \<open>Slicing the first 8 bytes panics when there are fewer.\<close>

definition handle_event ::
  "(string \<Rightarrow> bytes option) \<Rightarrow> bytes \<Rightarrow> (bytes \<Rightarrow> 'a option) \<Rightarrow> string \<Rightarrow> (IngesterError, 'a) result" where
  "handle_event b64_decode discriminator deserialize data =
     (case b64_decode data of
        None \<Rightarrow> Inl (Err ChangeLogEventMalformed)
      | Some borsh_bytes \<Rightarrow>
          and_then (ensure (8 \<le> length borsh_bytes) Panic) (\<lambda>_.
          and_then (ensure (take 8 borsh_bytes = discriminator) (Err ChangeLogEventMalformed)) (\<lambda>_.
          ok_or (deserialize (drop 8 borsh_bytes)) (Err ChangeLogEventMalformed))))"

fun events_parsed :: "(string \<Rightarrow> (IngesterError, 'a) result) \<Rightarrow> string list \<Rightarrow> (IngesterError, 'a list) result" where
  "events_parsed handle [] = Inr []"
| "events_parsed handle (event # rest) =
     (case handle event of
        Inr x \<Rightarrow> and_then (events_parsed handle rest) (\<lambda>xs. Inr (x # xs))
      | Inl (Err e) \<Rightarrow> events_parsed handle rest
      | Inl f \<Rightarrow> Inl f)"

definition get_gummy_roll_events ::
  "(string \<Rightarrow> string option) \<Rightarrow> (string \<Rightarrow> (IngesterError, change_log_event) result) \<Rightarrow> string list \<Rightarrow>
   (IngesterError, change_log_event list) result" where
  "get_gummy_roll_events capture handle logs =
     (case filter_events_from_logs capture logs of
        Inl _ \<Rightarrow> Inl (Err ChangeLogEventMalformed)
      | Inr events \<Rightarrow> events_parsed handle events)"

section \<open>The tables\<close>

record cl_item =
  ci_tree :: pubkey
  ci_node_idx :: int
  ci_leaf_idx :: "int option"
  ci_seq :: int
  ci_level :: int
  ci_hash :: node

record backfill_item =
  bi_id :: nat
  bi_tree :: pubkey
  bi_seq :: int
  bi_slot :: int
  bi_force_chk :: bool

record index_db =
  db_cl_items :: "cl_item list"
  db_backfill_items :: "backfill_item list"
  db_backfill_next_id :: nat

definition empty_db :: index_db where
  "empty_db = \<lparr>db_cl_items = [], db_backfill_items = [], db_backfill_next_id = 1\<rparr>"

section \<open>Saving change logs (parsers/gummyroll.rs)\<close>

text \<open>
  The insert of a node: on a conflict of tree and node index the hash and the sequence number are
  updated, when filling always, otherwise if the new sequence number is greater.
\<close>

definition same_node :: "cl_item \<Rightarrow> cl_item \<Rightarrow> bool" where
  "same_node a b \<longleftrightarrow> ci_tree a = ci_tree b \<and> ci_node_idx a = ci_node_idx b"

definition upsert_cl_item :: "bool \<Rightarrow> cl_item \<Rightarrow> cl_item list \<Rightarrow> cl_item list" where
  "upsert_cl_item filling item items =
     (if list_ex (same_node item) items
      then map (\<lambda>r. if same_node item r \<and> (filling \<or> ci_seq r < ci_seq item)
                    then r\<lparr>ci_hash := ci_hash item, ci_seq := ci_seq item\<rparr> else r) items
      else items @ [item])"

definition node_idx_to_leaf_idx :: "int \<Rightarrow> nat \<Rightarrow> int" where
  "node_idx_to_leaf_idx index tree_height = index - 2 ^ tree_height"

definition cl_item_of :: "change_log_event \<Rightarrow> nat \<Rightarrow> nat \<Rightarrow> path_node \<Rightarrow> cl_item" where
  "cl_item_of ev depth i p =
     (let node_idx = uint (pn_index p);
          leaf_idx = (if i = 0 then Some (node_idx_to_leaf_idx node_idx depth) else None)
      in \<lparr>ci_tree = ev_id ev, ci_node_idx = node_idx, ci_leaf_idx = leaf_idx, ci_seq = sint (ev_seq ev),
          ci_level = int i, ci_hash = pn_node p\<rparr>)"

fun save_path :: "bool \<Rightarrow> change_log_event \<Rightarrow> nat \<Rightarrow> nat \<Rightarrow> path_node list \<Rightarrow> cl_item list \<Rightarrow> cl_item list" where
  "save_path filling ev depth i [] items = items"
| "save_path filling ev depth i (p # ps) items =
     save_path filling ev depth (i + 1) ps (upsert_cl_item filling (cl_item_of ev depth i p) items)"

text \<open>
  \<open>path.len() - 1\<close> wraps for an empty path, and so does the comparison after the loop, which
  therefore always holds: the whole path was inserted.
\<close>

definition gummyroll_change_log_event_to_database ::
  "change_log_event \<Rightarrow> u64 \<Rightarrow> bool \<Rightarrow> index_db \<Rightarrow> index_db" where
  "gummyroll_change_log_event_to_database ev slot filling db =
     (let depth = length (ev_path ev) - 1;
          items = save_path filling ev depth 0 (ev_path ev) (db_cl_items db);
          known = list_ex (\<lambda>b. bi_tree b = ev_id ev) (db_backfill_items db);
          force_chk = (\<not> known \<and> 1 < ev_seq ev);
          item = \<lparr>bi_id = db_backfill_next_id db, bi_tree = ev_id ev, bi_seq = sint (ev_seq ev),
            bi_slot = sint slot, bi_force_chk = force_chk\<rparr>
      in db\<lparr>db_cl_items := items, db_backfill_items := db_backfill_items db @ [item],
           db_backfill_next_id := db_backfill_next_id db + 1\<rparr>)"

fun save_changelog_events :: "change_log_event list \<Rightarrow> u64 \<Rightarrow> index_db \<Rightarrow> index_db" where
  "save_changelog_events [] slot db = db"
| "save_changelog_events (ev # evs) slot db =
     save_changelog_events evs slot (gummyroll_change_log_event_to_database ev slot False db)"

definition handle_gummyroll_instruction ::
  "(string \<Rightarrow> string option) \<Rightarrow> (string \<Rightarrow> (IngesterError, change_log_event) result) \<Rightarrow> string list \<Rightarrow> u64 \<Rightarrow>
   index_db \<Rightarrow> (IngesterError, index_db) result" where
  "handle_gummyroll_instruction capture handle logs slot db =
     and_then (get_gummy_roll_events capture handle logs) (\<lambda>events.
     Inr (save_changelog_events events slot db))"

section \<open>The backfiller (main.rs)\<close>

text \<open>
  The tables record which sequence numbers arrived; filling a gap is not implemented in the code
  (\<open>backfill_tree_from_seq_1\<close> and \<open>fetch_and_plug_gaps\<close> are marked so), only the clean up is.
\<close>

definition force_chk_trees :: "index_db \<Rightarrow> pubkey list" where
  "force_chk_trees db = remdups (map bi_tree (filter bi_force_chk (db_backfill_items db)))"

definition multi_row_trees :: "index_db \<Rightarrow> pubkey list" where
  "multi_row_trees db =
     filter (\<lambda>t. 1 < length (filter (\<lambda>b. bi_tree b = t) (db_backfill_items db)))
       (remdups (map bi_tree (db_backfill_items db)))"

definition get_items_with_max_seq :: "index_db \<Rightarrow> pubkey \<Rightarrow> backfill_item list" where
  "get_items_with_max_seq db tree =
     (let rows = filter (\<lambda>b. bi_tree b = tree) (db_backfill_items db)
      in filter (\<lambda>b. list_all (\<lambda>c. bi_seq c \<le> bi_seq b) rows) rows)"

definition backfill_tree_from_seq_1 :: "index_db \<Rightarrow> pubkey \<Rightarrow> (IngesterError, unit) result" where
  "backfill_tree_from_seq_1 db tree = Inr ()"

definition fetch_and_plug_gaps :: "index_db \<Rightarrow> pubkey \<Rightarrow> int" where
  "fetch_and_plug_gaps db tree = (case get_items_with_max_seq db tree of [] \<Rightarrow> 0 | b # _ \<Rightarrow> bi_seq b)"

definition clear_force_chk_flag :: "pubkey \<Rightarrow> index_db \<Rightarrow> index_db" where
  "clear_force_chk_flag tree db =
     db\<lparr>db_backfill_items :=
       map (\<lambda>b. if bi_tree b = tree then b\<lparr>bi_force_chk := False\<rparr> else b) (db_backfill_items db)\<rparr>"

definition delete_extra_tree_rows :: "pubkey \<Rightarrow> int \<Rightarrow> index_db \<Rightarrow> index_db" where
  "delete_extra_tree_rows tree seq db =
     (let kept = filter (\<lambda>b. \<not> (bi_tree b = tree \<and> bi_seq b \<noteq> seq)) (db_backfill_items db);
          items = filter (\<lambda>b. bi_tree b = tree \<and> bi_seq b = seq) kept;
          extra = map bi_id (drop 1 items)
      in db\<lparr>db_backfill_items := filter (\<lambda>b. bi_id b \<notin> set extra) kept\<rparr>)"

text \<open>One round of the backfiller's loop with trees to look at.\<close>

definition backfill_forced :: "index_db \<Rightarrow> index_db" where
  "backfill_forced db =
     fold (\<lambda>tree db. case backfill_tree_from_seq_1 db tree of
         Inl _ \<Rightarrow> db | Inr _ \<Rightarrow> clear_force_chk_flag tree db) (force_chk_trees db) db"

definition backfill_round :: "index_db \<Rightarrow> index_db" where
  "backfill_round db =
     fold (\<lambda>tree db. delete_extra_tree_rows tree (fetch_and_plug_gaps db tree) db) (multi_row_trees db)
       (backfill_forced db)"

end
