(* ===== verification/Indexer_Assets.thy ===== *)
theory Indexer_Assets
  imports Indexer_Store Bubblegum
begin

text \<open>
  \<open>nft_ingester/src/parsers/bubblegum.rs\<close>: the handler of Bubblegum's instructions keeps one row per
  asset. Every instruction is one database transaction: an error rolls it back. The texts of the
  database's errors are abbreviated, and the channel to the background tasks is open.
\<close>

section \<open>Tables (digital_asset_types/src/dao)\<close>

datatype OwnerType = OwnerUnknown | OwnerToken | OwnerSingle
datatype RoyaltyTargetType = RoyaltyUnknown | RoyaltyCreators | RoyaltyFanout | RoyaltySingle
datatype ChainMutability = ChainUnknown | ChainMutable | ChainImmutable
datatype Mutability = MutUnknown | MutMutable | MutImmutable

record asset_row =
  as_id :: pubkey
  as_specification_version :: int
  as_owner :: pubkey
  as_owner_type :: OwnerType
  as_delegate :: "pubkey option"
  as_frozen :: bool
  as_supply :: int
  as_supply_mint :: "pubkey option"
  as_compressed :: bool
  as_compressible :: bool
  as_tree_id :: "pubkey option"
  as_leaf :: "node option"
  as_nonce :: int
  as_royalty_target_type :: RoyaltyTargetType
  as_royalty_target :: "pubkey option"
  as_royalty_amount :: int
  as_chain_data_id :: "nat option"
  as_burnt :: bool

record chain_data_v1 =
  cd_name :: string
  cd_symbol :: string
  cd_edition_nonce :: "u8 option"
  cd_primary_sale_happened :: bool
  cd_token_standard :: "TokenStandard option"
  cd_uses :: "uses option"

record asset_data_row =
  ad_id :: nat
  ad_chain_data_mutability :: ChainMutability
  ad_schema_version :: int
  ad_chain_data :: chain_data_v1
  ad_metadata_url :: string
  ad_metadata_mutability :: Mutability
  ad_metadata :: string

record asset_creator_row =
  ac_asset_id :: pubkey
  ac_creator :: pubkey
  ac_share :: int
  ac_verified :: bool

record asset_authority_row =
  aa_asset_id :: pubkey
  aa_authority :: pubkey

record asset_grouping_row =
  ag_asset_id :: pubkey
  ag_group_key :: string
  ag_group_value :: string

record ingest_db =
  in_index :: index_db
  in_assets :: "asset_row list"
  in_asset_data :: "asset_data_row list"
  in_asset_data_next_id :: nat
  in_creators :: "asset_creator_row list"
  in_authorities :: "asset_authority_row list"
  in_groupings :: "asset_grouping_row list"

section \<open>Events and updates\<close>

text \<open>The decoders of third-party crates, and of borsh for each type of event.\<close>

record decoders =
  de_capture :: "string \<Rightarrow> string option"
  de_change_log :: "string \<Rightarrow> (IngesterError, change_log_event) result"
  de_leaf_schema :: "string \<Rightarrow> (IngesterError, leaf_schema_event) result"
  de_decompression :: "string \<Rightarrow> (IngesterError, nft_decompression_event) result"
  de_mint_v1 :: "bytes \<Rightarrow> metadata_args option"
  de_pubkey_string :: "pubkey \<Rightarrow> string"

text \<open>The last event that parses wins.\<close>

definition get_bubblegum_event ::
  "(string \<Rightarrow> string option) \<Rightarrow> (string \<Rightarrow> (IngesterError, 'a) result) \<Rightarrow> string list \<Rightarrow> (IngesterError, 'a) result" where
  "get_bubblegum_event capture handle logs =
     (case filter_events_from_logs capture logs of
        Inl _ \<Rightarrow> Inl (Err CompressedAssetEventMalformed)
      | Inr events \<Rightarrow>
          and_then (events_parsed handle events) (\<lambda>found.
          if found = [] then Inl (Err CompressedAssetEventMalformed) else Inr (last found)))"

definition tree_change_only ::
  "decoders \<Rightarrow> u64 \<Rightarrow> string list \<Rightarrow> index_db \<Rightarrow> (IngesterError, index_db) result" where
  "tree_change_only de slot logs db =
     and_then (get_gummy_roll_events (de_capture de) (de_change_log de) logs) (\<lambda>events.
     Inr (save_changelog_events events slot db))"

definition update_asset ::
  "pubkey \<Rightarrow> (asset_row \<Rightarrow> asset_row) \<Rightarrow> ingest_db \<Rightarrow> (IngesterError, ingest_db) result" where
  "update_asset asset_id model db =
     (if list_ex (\<lambda>a. as_id a = asset_id) (in_assets db)
      then Inr (db\<lparr>in_assets := map (\<lambda>a. if as_id a = asset_id then model a else a) (in_assets db)\<rparr>)
      else Inl (Err (StorageWriteError ''None of the database rows are affected'')))"

text \<open>The common part of the handlers: the change logs and one row, in one transaction.\<close>

definition index_and_update ::
  "change_log_event list \<Rightarrow> u64 \<Rightarrow> pubkey \<Rightarrow> (asset_row \<Rightarrow> asset_row) \<Rightarrow> ingest_db \<Rightarrow>
   (IngesterError, ingest_db) result" where
  "index_and_update events slot asset_id model db =
     update_asset asset_id model (db\<lparr>in_index := save_changelog_events events slot (in_index db)\<rparr>)"

section \<open>Minting\<close>

definition chain_data_of :: "metadata_args \<Rightarrow> chain_data_v1" where
  "chain_data_of metadata =
     \<lparr>cd_name = ma_name metadata, cd_symbol = ma_symbol metadata,
      cd_edition_nonce = ma_edition_nonce metadata,
      cd_primary_sale_happened = ma_primary_sale_happened metadata,
      cd_token_standard = ma_token_standard metadata, cd_uses = ma_uses metadata\<rparr>"

text \<open>The column for the URI holds 200 characters, the asset's id is a primary key.\<close>

definition insert_asset_data :: "metadata_args \<Rightarrow> ingest_db \<Rightarrow> (IngesterError, nat \<times> ingest_db) result" where
  "insert_asset_data metadata db =
     and_then (ensure (length (ma_uri metadata) \<le> 200) (Err (StorageWriteError ''value too long''))) (\<lambda>_.
     let data_id = in_asset_data_next_id db;
         row = \<lparr>ad_id = data_id,
           ad_chain_data_mutability = (if ma_is_mutable metadata then ChainMutable else ChainImmutable),
           ad_schema_version = 1, ad_chain_data = chain_data_of metadata,
           ad_metadata_url = ma_uri metadata, ad_metadata_mutability = MutMutable,
           ad_metadata = ''processing''\<rparr>
     in Inr (data_id, db\<lparr>in_asset_data := in_asset_data db @ [row], in_asset_data_next_id := data_id + 1\<rparr>))"

definition insert_asset :: "asset_row \<Rightarrow> ingest_db \<Rightarrow> (IngesterError, ingest_db) result" where
  "insert_asset row db =
     and_then (ensure (\<not> list_ex (\<lambda>a. as_id a = as_id row) (in_assets db))
       (Err (StorageWriteError ''duplicate key''))) (\<lambda>_.
     Inr (db\<lparr>in_assets := in_assets db @ [row]\<rparr>))"

definition index_mint ::
  "hashv \<Rightarrow> decoders \<Rightarrow> change_log_event list \<Rightarrow> leaf_schema \<Rightarrow> metadata_args \<Rightarrow> pubkey \<Rightarrow> pubkey \<Rightarrow> pubkey \<Rightarrow>
   pubkey \<Rightarrow> u64 \<Rightarrow> ingest_db \<Rightarrow> (IngesterError, nat \<times> ingest_db) result" where
  "index_mint H de events schema metadata update_authority owner delegate merkle_slab slot db =
     (let asset_id = ls_id schema;
          db1 = db\<lparr>in_index := save_changelog_events events slot (in_index db)\<rparr>
      in and_then (insert_asset_data metadata db1) (\<lambda>(data_id, db2).
         let row = \<lparr>as_id = asset_id, as_specification_version = 1, as_owner = owner, as_owner_type = OwnerSingle,
               as_delegate = (if owner = delegate then None else Some delegate), as_frozen = False,
               as_supply = 1, as_supply_mint = None, as_compressed = True, as_compressible = False,
               as_tree_id = Some merkle_slab, as_leaf = Some (leaf_to_node H schema),
               as_nonce = sint (ls_nonce schema), as_royalty_target_type = RoyaltyCreators,
               as_royalty_target = None, as_royalty_amount = uint (ma_seller_fee_basis_points metadata),
               as_chain_data_id = Some data_id, as_burnt = False\<rparr>
         in and_then (insert_asset row db2) (\<lambda>db3.
         let creators = map (\<lambda>c. \<lparr>ac_asset_id = asset_id, ac_creator = cr_address c, ac_share = uint (cr_share c),
               ac_verified = cr_verified c\<rparr>) (ma_creators metadata);
             groupings = (case ma_collection metadata of
                 Some c \<Rightarrow> if co_verified c then [\<lparr>ag_asset_id = asset_id, ag_group_key = ''collection'',
                   ag_group_value = de_pubkey_string de (co_key c)\<rparr>] else []
               | None \<Rightarrow> [])
         in Inr (data_id, db3\<lparr>in_creators := in_creators db3 @ creators,
              in_authorities := in_authorities db3 @ [\<lparr>aa_asset_id = asset_id, aa_authority = update_authority\<rparr>],
              in_groupings := in_groupings db3 @ groupings\<rparr>))))"

section \<open>The handler\<close>

text \<open>A compiled instruction; \<open>keys\<close> looks up an account of the transaction.\<close>

record compiled_instruction =
  cx_program_id_index :: nat
  cx_data :: "bytes option"
  cx_accounts :: "u8 list option"

definition account_key :: "(nat \<Rightarrow> pubkey) \<Rightarrow> u8 list \<Rightarrow> nat \<Rightarrow> (IngesterError, pubkey) result" where
  "account_key keys accounts i =
     and_then (ensure (i < length accounts) Panic) (\<lambda>_. Inr (keys (unat (accounts ! i))))"

text \<open>The result includes the metadata downloads that were handed to the background tasks.\<close>

type_synonym ingest_result = "(IngesterError, (nat \<times> string) list \<times> ingest_db) result"

definition handle_with_leaf ::
  "decoders \<Rightarrow> u64 \<Rightarrow> string list \<Rightarrow> (leaf_schema \<Rightarrow> asset_row \<Rightarrow> asset_row) \<Rightarrow> ingest_db \<Rightarrow> ingest_result" where
  "handle_with_leaf de slot logs model db =
     and_then (get_gummy_roll_events (de_capture de) (de_change_log de) logs) (\<lambda>events.
     and_then (get_bubblegum_event (de_capture de) (de_leaf_schema de) logs) (\<lambda>leaf_event.
     and_then (index_and_update events slot (ls_id (le_schema leaf_event)) (model (le_schema leaf_event)) db) (\<lambda>db'.
     Inr ([], db'))))"

definition handle_mint ::
  "hashv \<Rightarrow> decoders \<Rightarrow> compiled_instruction \<Rightarrow> bytes \<Rightarrow> u64 \<Rightarrow> string list \<Rightarrow> (nat \<Rightarrow> pubkey) \<Rightarrow> ingest_db \<Rightarrow>
   ingest_result" where
  "handle_mint H de instruction data slot logs keys db =
     and_then (get_gummy_roll_events (de_capture de) (de_change_log de) logs) (\<lambda>events.
     and_then (get_bubblegum_event (de_capture de) (de_leaf_schema de) logs) (\<lambda>leaf_event.
     and_then (ok_or (de_mint_v1 de (drop 8 data)) Panic) (\<lambda>metadata.
     and_then (ok_or (cx_accounts instruction) Panic) (\<lambda>accounts.
     and_then (account_key keys accounts 0) (\<lambda>update_authority.
     and_then (account_key keys accounts 4) (\<lambda>owner.
     and_then (account_key keys accounts 5) (\<lambda>delegate.
     and_then (account_key keys accounts 6) (\<lambda>merkle_slab.
     and_then (index_mint H de events (le_schema leaf_event) metadata update_authority owner delegate
         merkle_slab slot db) (\<lambda>(asset_data_id, db').
     Inr ([(asset_data_id, ma_uri metadata)], db'))))))))))"

definition handle_bubblegum_instruction ::
  "hashv \<Rightarrow> decoders \<Rightarrow> compiled_instruction \<Rightarrow> u64 \<Rightarrow> string list \<Rightarrow> (nat \<Rightarrow> pubkey) \<Rightarrow> ingest_db \<Rightarrow> ingest_result" where
  "handle_bubblegum_instruction H de instruction slot logs keys db =
     and_then (ok_or (cx_data instruction) Panic) (\<lambda>data.
     and_then (get_instruction_type data) (\<lambda>ix_type.
     case ix_type of
       TransferIns \<Rightarrow> handle_with_leaf de slot logs
         (\<lambda>s a. a\<lparr>as_leaf := Some (leaf_to_node H s), as_delegate := None, as_owner := ls_owner s\<rparr>) db
     | BurnIns \<Rightarrow> handle_with_leaf de slot logs (\<lambda>s a. a\<lparr>as_burnt := True\<rparr>) db
     | DelegateIns \<Rightarrow> handle_with_leaf de slot logs
         (\<lambda>s a. a\<lparr>as_leaf := Some (leaf_to_node H s), as_delegate := Some (ls_delegate s)\<rparr>) db
     | MintV1Ins \<Rightarrow> handle_mint H de instruction data slot logs keys db
     | RedeemIns \<Rightarrow> handle_with_leaf de slot logs (\<lambda>s a. a\<lparr>as_leaf := Some (replicate 32 0)\<rparr>) db
     | CancelRedeemIns \<Rightarrow> handle_with_leaf de slot logs (\<lambda>s a. a\<lparr>as_leaf := Some (leaf_to_node H s)\<rparr>) db
     | DecompressV1Ins \<Rightarrow>
         and_then (get_bubblegum_event (de_capture de) (de_decompression de) logs) (\<lambda>ev.
         and_then (update_asset (nd_id ev) (\<lambda>a. a\<lparr>as_leaf := None, as_compressed := False,
             as_compressible := False, as_supply := 1, as_supply_mint := Some (nd_id ev)\<rparr>) db) (\<lambda>db'.
         Inr ([], db')))
     | _ \<Rightarrow> Inr ([], db)))"

end
