(* ===== verification/Indexer_Stream.thy ===== *)
theory Indexer_Stream
  imports Indexer_Assets
begin

text \<open>
  \<open>nft_ingester/src/main.rs\<close>, \<open>parsers/mod.rs\<close>, \<open>utils/instructions.rs\<close> and \<open>utils/logs.rs\<close>: the loop that
  takes transactions from the stream, pairs every outer instruction with the log lines it wrote, and
  hands it to the handler registered for its program. The loop is a task of its own: a panic ends
  it for good while the process goes on, which is the field \<open>ig_running\<close>.

  Flatbuffers, base58 and the message queue are third-party code: a message is \<open>None\<close> if it does not
  deserialize, \<open>keys\<close> reads an entry of the account keys, \<open>ie_b58\<close> decodes base58. The pattern of
  \<open>parse_logs\<close> is written out, for log lines of ASCII characters.
\<close>

record ingest_env =
  ie_hashv :: hashv
  ie_decoders :: decoders
  ie_b58 :: "string \<Rightarrow> bytes option"
  ie_bubblegum_id :: pubkey
  ie_gummyroll_id :: pubkey

section \<open>Instructions (utils/instructions.rs)\<close>

record inner_instructions =
  ii_index :: u8
  ii_instructions :: "compiled_instruction list option"

record transaction_info =
  ti_account_keys :: "(nat \<Rightarrow> pubkey) option"
  ti_outer_instructions :: "compiled_instruction list option"
  ti_inner_instructions :: "inner_instructions list option"
  ti_log_messages :: "string list option"
  ti_slot :: u64

type_synonym ix_pair = "pubkey \<times> compiled_instruction"

text \<open>The outer index is cut to 8 bits.\<close>

definition get_inner_ixs :: "inner_instructions list option \<Rightarrow> nat \<Rightarrow> inner_instructions option" where
  "get_inner_ixs inner_ixs outer_index =
     (case inner_ixs of
        None \<Rightarrow> None
      | Some inner_ix_list \<Rightarrow> List.find (\<lambda>ii. ii_index ii = of_nat outer_index) inner_ix_list)"

fun order_from ::
  "(nat \<Rightarrow> pubkey) \<Rightarrow> inner_instructions list option \<Rightarrow> nat \<Rightarrow> compiled_instruction list \<Rightarrow>
   ('e, (ix_pair \<times> ix_pair list option) list) result" where
  "order_from keys inner_ix_list i [] = Inr []"
| "order_from keys inner_ix_list i (instruction # rest) =
     and_then
       (case get_inner_ixs inner_ix_list i of
          None \<Rightarrow> Inr None
        | Some inner_ixs \<Rightarrow>
            and_then (ok_or (ii_instructions inner_ixs) Panic) (\<lambda>instances.
            Inr (Some (map (\<lambda>ix. (keys (cx_program_id_index ix), ix)) instances)))) (\<lambda>inner.
     and_then (order_from keys inner_ix_list (i + 1) rest) (\<lambda>ordered.
     Inr (((keys (cx_program_id_index instruction), instruction), inner) # ordered)))"

definition order_instructions ::
  "transaction_info \<Rightarrow> ('e, (ix_pair \<times> ix_pair list option) list) result" where
  "order_instructions transaction =
     (case ti_outer_instructions transaction of
        None \<Rightarrow> Inr []
      | Some outer_instructions \<Rightarrow>
          (case ti_account_keys transaction of
             None \<Rightarrow> Inr []
           | Some keys \<Rightarrow> order_from keys (ti_inner_instructions transaction) 0 outer_instructions))"

section \<open>Log lines (utils/logs.rs)\<close>

definition digit_char :: "char \<Rightarrow> bool" where
  "digit_char c = (let n = of_char c :: nat in 48 \<le> n \<and> n \<le> 57)"

definition word_char :: "char \<Rightarrow> bool" where
  "word_char c =
     (let n = of_char c :: nat
      in digit_char c \<or> 65 \<le> n \<and> n \<le> 90 \<or> n = 95 \<or> 97 \<le> n \<and> n \<le> 122)"

fun strip_prefix :: "string \<Rightarrow> string \<Rightarrow> string option" where
  "strip_prefix [] s = Some s"
| "strip_prefix (x # xs) [] = None"
| "strip_prefix (x # xs) (y # ys) = (if x = y then strip_prefix xs ys else None)"

text \<open>The pattern \<open>Program (\w*) invoke \[(\d)\]\<close> at the start of a text, and anywhere in it.\<close>

definition invoke_at :: "string \<Rightarrow> (string \<times> string) option" where
  "invoke_at s =
     (case strip_prefix ''Program '' s of
        None \<Rightarrow> None
      | Some s1 \<Rightarrow>
          (case strip_prefix '' invoke ['' (dropWhile word_char s1) of
             Some (d # close # s2) \<Rightarrow>
               (if digit_char d \<and> close = CHR '']'' then Some (takeWhile word_char s1, [d]) else None)
           | _ \<Rightarrow> None))"

fun plre_captures :: "string \<Rightarrow> (string \<times> string) option" where
  "plre_captures [] = None"
| "plre_captures (c # s) =
     (case invoke_at (c # s) of Some cap \<Rightarrow> Some cap | None \<Rightarrow> plre_captures s)"

text \<open>\<open>parse::<u8>\<close> on the one character that \<open>\d\<close> matches; \<open>Pubkey::new\<close> panics unless it gets 32 bytes.\<close>

definition parse_level :: "string \<Rightarrow> u8 option" where
  "parse_level s =
     (case s of [c] \<Rightarrow> if digit_char c then Some (of_nat (of_char c - 48)) else None | _ \<Rightarrow> None)"

definition pubkey_new :: "bytes \<Rightarrow> ('e, pubkey) result" where
  "pubkey_new b = and_then (ensure (length b = 32) Panic) (\<lambda>_. Inr b)"

definition parse_invoke :: "ingest_env \<Rightarrow> string \<Rightarrow> ('e, (pubkey \<times> u8) option) result" where
  "parse_invoke E log =
     (case plre_captures log of
        None \<Rightarrow> Inr None
      | Some (prog, l) \<Rightarrow>
          and_then (case ie_b58 E prog of
              None \<Rightarrow> Inr None
            | Some b \<Rightarrow> and_then (pubkey_new b) (\<lambda>key. Inr (Some key))) (\<lambda>program.
          Inr (case (program, parse_level l) of
              (Some key, Some level) \<Rightarrow> Some (key, level)
            | _ \<Rightarrow> None)))"

text \<open>A line that starts no program belongs to the last program; there must be one.\<close>

fun parse_log_lines ::
  "ingest_env \<Rightarrow> string list \<Rightarrow> (pubkey \<times> string list \<times> u8) list \<Rightarrow>
   ('e, (pubkey \<times> string list \<times> u8) list) result" where
  "parse_log_lines E [] program_logs = Inr program_logs"
| "parse_log_lines E (log # logs) program_logs =
     and_then (parse_invoke E log) (\<lambda>cap.
     case cap of
       Some (key, level) \<Rightarrow>
         if level = 1 then parse_log_lines E logs (program_logs @ [(key, [], level)])
         else and_then (ensure (program_logs \<noteq> []) Panic) (\<lambda>_.
              parse_log_lines E logs (butlast program_logs @
                [case last program_logs of (k, ls, l) \<Rightarrow> (k, ls @ [log], l)]))
     | None \<Rightarrow>
         and_then (ensure (program_logs \<noteq> []) Panic) (\<lambda>_.
         parse_log_lines E logs (butlast program_logs @
           [case last program_logs of (k, ls, l) \<Rightarrow> (k, ls @ [log], l)])))"

definition parse_logs ::
  "ingest_env \<Rightarrow> string list option \<Rightarrow> (unit, (pubkey \<times> string list \<times> u8) list) result" where
  "parse_logs E log_messages =
     (case log_messages of Some logs \<Rightarrow> parse_log_lines E logs [] | None \<Rightarrow> Inl (Err ()))"

section \<open>Handlers (parsers/mod.rs)\<close>

datatype program_handler = BubblegumHandler | GummyRollHandler

record program_handler_config =
  responds_to_account :: bool
  responds_to_instruction :: bool

definition handler_config :: "program_handler \<Rightarrow> program_handler_config" where
  "handler_config p =
     (case p of
        BubblegumHandler \<Rightarrow> \<lparr>responds_to_account = False, responds_to_instruction = True\<rparr>
      | GummyRollHandler \<Rightarrow> \<lparr>responds_to_account = False, responds_to_instruction = True\<rparr>)"

definition handler_id :: "ingest_env \<Rightarrow> program_handler \<Rightarrow> pubkey" where
  "handler_id E p =
     (case p of BubblegumHandler \<Rightarrow> ie_bubblegum_id E | GummyRollHandler \<Rightarrow> ie_gummyroll_id E)"

type_synonym program_handlers = "pubkey \<Rightarrow> program_handler option"

definition register_parser :: "ingest_env \<Rightarrow> program_handler \<Rightarrow> program_handlers \<Rightarrow> program_handlers" where
  "register_parser E parser manager = manager(handler_id E parser \<mapsto> parser)"

definition setup_manager :: "ingest_env \<Rightarrow> program_handlers \<Rightarrow> program_handlers" where
  "setup_manager E manager =
     register_parser E GummyRollHandler (register_parser E BubblegumHandler manager)"

definition match_program :: "program_handlers \<Rightarrow> pubkey \<Rightarrow> program_handler option" where
  "match_program manager program_id = manager program_id"

definition handle_instruction ::
  "ingest_env \<Rightarrow> program_handler \<Rightarrow> compiled_instruction \<Rightarrow> u64 \<Rightarrow> string list \<Rightarrow> (nat \<Rightarrow> pubkey) \<Rightarrow> ingest_db \<Rightarrow>
   ingest_result" where
  "handle_instruction E p instruction slot instruction_logs keys db =
     (let de = ie_decoders E
      in case p of
           BubblegumHandler \<Rightarrow>
             handle_bubblegum_instruction (ie_hashv E) de instruction slot instruction_logs keys db
         | GummyRollHandler \<Rightarrow>
             and_then (handle_gummyroll_instruction (de_capture de) (de_change_log de) instruction_logs slot
               (in_index db)) (\<lambda>index. Inr ([], db\<lparr>in_index := index\<rparr>)))"

section \<open>The transaction stream (main.rs)\<close>

text \<open>The tables, the queue of background tasks, and whether the loop still runs.\<close>

record ingester =
  ig_db :: ingest_db
  ig_tasks :: "(nat \<times> string) list"
  ig_running :: bool

text \<open>An error of a handler is only logged.\<close>

definition handled :: "ingest_result \<Rightarrow> ingester \<Rightarrow> ingester" where
  "handled r st =
     (case r of
        Inr (tasks, db) \<Rightarrow> st\<lparr>ig_db := db, ig_tasks := ig_tasks st @ tasks\<rparr>
      | Inl (Err e) \<Rightarrow> st
      | Inl _ \<Rightarrow> st\<lparr>ig_running := False\<rparr>)"

definition handle_outer ::
  "ingest_env \<Rightarrow> program_handlers \<Rightarrow> (nat \<Rightarrow> pubkey) \<Rightarrow> u64 \<Rightarrow> ix_pair \<Rightarrow> string list \<Rightarrow> ingester \<Rightarrow> ingester" where
  "handle_outer E manager keys slot outer_ix logs st =
     (let (program, instruction) = outer_ix
      in case match_program manager program of
           Some p \<Rightarrow>
             if responds_to_instruction (handler_config p)
             then handled (handle_instruction E p instruction slot logs keys (ig_db st)) st
             else st
         | None \<Rightarrow> st)"

fun handle_pairs ::
  "ingest_env \<Rightarrow> program_handlers \<Rightarrow> (nat \<Rightarrow> pubkey) \<Rightarrow> u64 \<Rightarrow>
   ((ix_pair \<times> ix_pair list option) \<times> (pubkey \<times> string list \<times> u8)) list \<Rightarrow> ingester \<Rightarrow> ingester" where
  "handle_pairs E manager keys slot [] st = st"
| "handle_pairs E manager keys slot (((outer_ix, inner_ix), (log_key, logs, level)) # pairs) st =
     (if fst outer_ix \<noteq> log_key then st\<lparr>ig_running := False\<rparr>
      else let st' = handle_outer E manager keys slot outer_ix logs st
           in if ig_running st' then handle_pairs E manager keys slot pairs st' else st')"

definition handle_message ::
  "ingest_env \<Rightarrow> program_handlers \<Rightarrow> transaction_info option \<Rightarrow> ingester \<Rightarrow> ingester" where
  "handle_message E manager data st =
     (case data of
        None \<Rightarrow> st
      | Some transaction \<Rightarrow>
          (case ti_account_keys transaction of
             None \<Rightarrow> st
           | Some keys \<Rightarrow>
               (case and_then (order_instructions transaction) (\<lambda>instructions.
                     and_then (parse_logs E (ti_log_messages transaction)) (\<lambda>parsed_logs.
                     Inr (zip instructions parsed_logs))) of
                  Inl _ \<Rightarrow> st\<lparr>ig_running := False\<rparr>
                | Inr pairs \<Rightarrow> handle_pairs E manager keys (ti_slot transaction) pairs st)))"

fun handle_transaction ::
  "ingest_env \<Rightarrow> program_handlers \<Rightarrow> transaction_info option list \<Rightarrow> ingester \<Rightarrow> ingester" where
  "handle_transaction E manager [] st = st"
| "handle_transaction E manager (data # rest) st =
     (let st' = handle_message E manager data st
      in if ig_running st' then handle_transaction E manager rest st' else st')"

text \<open>The messages that \<open>recv\<close> returns, one batch per call; an error of \<open>recv\<close> is skipped.\<close>

fun service_transaction_stream ::
  "ingest_env \<Rightarrow> transaction_info option list option list \<Rightarrow> ingester \<Rightarrow> ingester" where
  "service_transaction_stream E [] st = st"
| "service_transaction_stream E (received # later) st =
     (let st' = (case received of
          Some data \<Rightarrow> handle_transaction E (setup_manager E Map.empty) data st
        | None \<Rightarrow> st)
      in if ig_running st' then service_transaction_stream E later st' else st')"

section \<open>Background tasks (parsers/bubblegum.rs, tasks/mod.rs)\<close>

text \<open>\<open>fetch\<close> is the JSON document at a URI, if the download works.\<close>

definition download_metadata ::
  "(string \<Rightarrow> string option) \<Rightarrow> nat \<times> string \<Rightarrow> ingest_db \<Rightarrow> (IngesterError, ingest_db) result" where
  "download_metadata fetch bg_task db =
     (let (asset_data_id, uri) = bg_task
      in and_then (ok_or (fetch uri) (Err BatchInitNetworkingError)) (\<lambda>body.
         and_then (ensure (list_ex (\<lambda>d. ad_id d = asset_data_id) (in_asset_data db))
           (Err (TaskManagerError ''None of the database rows are affected''))) (\<lambda>_.
         Inr (db\<lparr>in_asset_data := map (\<lambda>d. if ad_id d = asset_data_id then d\<lparr>ad_metadata := body\<rparr> else d)
           (in_asset_data db)\<rparr>))))"

fun run_tasks :: "(string \<Rightarrow> string option) \<Rightarrow> (nat \<times> string) list \<Rightarrow> ingest_db \<Rightarrow> ingest_db" where
  "run_tasks fetch [] db = db"
| "run_tasks fetch (bg_task # tasks) db =
     run_tasks fetch tasks (case download_metadata fetch bg_task db of Inr db' \<Rightarrow> db' | Inl _ \<Rightarrow> db)"

end
