(* ===== verification/Indexer_Proof.thy ===== *)
theory Indexer_Proof
  imports Indexer_Assets
begin

text \<open>
  Reading proofs from the index: \<open>nft_api/src/main.rs\<close>, which serves proofs by tree and leaf, and
  \<open>digital_asset_types/src/dapi/change_logs.rs\<close>, which serves them by asset. A node is looked up by its
  number in the tree, counted level by level from the root (number 1); a node without a row is an
  empty subtree. The base58 encoding is a parameter.
\<close>

datatype ApiError = ParameterInvalid | ResponseError string

section \<open>Node numbers\<close>

definition leaf_idx_to_node_idx :: "int \<Rightarrow> nat \<Rightarrow> int" where
  "leaf_idx_to_node_idx index tree_height = index + 2 ^ tree_height"

text \<open>The siblings of the nodes from \<open>index\<close> up to the root, and the root.\<close>

function get_required_nodes_for_proof :: "int \<Rightarrow> int list" where
  "get_required_nodes_for_proof idx =
     (if 1 < idx
      then (if idx mod 2 = 0 then idx + 1 else idx - 1) # get_required_nodes_for_proof (idx div 2)
      else [1])"
  by pat_completeness auto
termination
  by (relation "measure nat") auto

declare get_required_nodes_for_proof.simps [simp del]

section \<open>Queries\<close>

text \<open>\<open>DISTINCT ON\<close> keeps the first row of each group of rows with the same node.\<close>

function distinct_on_node :: "cl_item list \<Rightarrow> cl_item list" where
  "distinct_on_node [] = []"
| "distinct_on_node (r # rs) =
     r # distinct_on_node (dropWhile (\<lambda>s. ci_node_idx s = ci_node_idx r) rs)"
  by pat_completeness auto
termination
  by (relation "measure length") (auto simp: le_imp_less_Suc length_dropWhile_le)

definition root_rows :: "cl_item list \<Rightarrow> pubkey \<Rightarrow> cl_item list" where
  "root_rows items tree =
     sort_key (\<lambda>r. - ci_seq r) (filter (\<lambda>r. ci_node_idx r = 1 \<and> ci_tree r = tree) items)"

text \<open>
  The rows of the required nodes in descending order of node and sequence number; the comparison
  with the maximum of no row is not true.
\<close>

definition proof_rows :: "cl_item list \<Rightarrow> pubkey \<Rightarrow> int list \<Rightarrow> cl_item list" where
  "proof_rows items tree nodes =
     distinct_on_node (sort_key (\<lambda>r. - ci_node_idx r) (sort_key (\<lambda>r. - ci_seq r)
       (filter (\<lambda>r. ci_node_idx r \<in> set nodes \<and> ci_tree r = tree \<and>
          (case root_rows items tree of [] \<Rightarrow> False | newest # _ \<Rightarrow> ci_seq r \<le> ci_seq newest)) items)))"

section \<open>Proofs by tree and leaf (nft_api)\<close>

record node_view =
  nv_hash :: string
  nv_level :: int
  nv_index :: int
  nv_seq :: int

definition default_view :: node_view where
  "default_view = \<lparr>nv_hash = [], nv_level = 0, nv_index = 0, nv_seq = 0\<rparr>"

definition node_to_view :: "(node \<Rightarrow> string) \<Rightarrow> cl_item \<Rightarrow> node_view" where
  "node_to_view b58 r =
     \<lparr>nv_hash = b58 (ci_hash r), nv_level = ci_level r, nv_index = ci_node_idx r, nv_seq = ci_seq r\<rparr>"

definition node_list_to_view :: "(node \<Rightarrow> string) \<Rightarrow> cl_item list \<Rightarrow> node_view list" where
  "node_list_to_view b58 items = map (node_to_view b58) items"

definition make_empty_node :: "hashv \<Rightarrow> nat \<Rightarrow> int \<Rightarrow> cl_item" where
  "make_empty_node H lvl node_index =
     \<lparr>ci_tree = [], ci_node_idx = node_index, ci_leaf_idx = None, ci_seq = 0, ci_level = int lvl,
      ci_hash = empty_node H lvl\<rparr>"

text \<open>Putting the rows found at their levels; a negative level is no index of the list.\<close>

fun place_rows :: "('r \<Rightarrow> int) \<Rightarrow> 'r list \<Rightarrow> 'v list \<Rightarrow> ('r \<Rightarrow> 'v) \<Rightarrow> ('e, 'v list) result" where
  "place_rows level [] final view = Inr final"
| "place_rows level (r # rs) final view =
     (if level r < int (length final)
      then and_then (ensure (0 \<le> level r) Panic) (\<lambda>_.
           place_rows level rs (final[nat (level r) := view r]) view)
      else place_rows level rs final view)"

definition get_proof_and_root ::
  "hashv \<Rightarrow> (node \<Rightarrow> string) \<Rightarrow> cl_item list \<Rightarrow> pubkey \<Rightarrow> int \<Rightarrow> (ApiError, node_view list) result" where
  "get_proof_and_root H b58 items tree index =
     (let nodes = get_required_nodes_for_proof index;
          expected_proof_size = length nodes;
          nodes_from_db = proof_rows items tree nodes
      in if expected_proof_size < length nodes_from_db then Inl (Err (ResponseError ''Tree Corrupted''))
         else if length nodes_from_db \<noteq> expected_proof_size
         then and_then (place_rows ci_level nodes_from_db (replicate expected_proof_size default_view)
             (node_to_view b58)) (\<lambda>final_node_list.
           Inr (map (\<lambda>(i, n, nin). if n = default_view then node_to_view b58 (make_empty_node H i nin) else n)
             (enumerate 0 (zip final_node_list nodes))))
         else Inr (node_list_to_view b58 nodes_from_db))"

definition get_height :: "cl_item list \<Rightarrow> pubkey \<Rightarrow> (ApiError, u32) result" where
  "get_height items tree =
     (case root_rows items tree of
        [] \<Rightarrow> Inl (Err (ResponseError ''no rows''))
      | r # _ \<Rightarrow> Inr (word_of_int (ci_level r)))"

definition get_root :: "(node \<Rightarrow> string) \<Rightarrow> cl_item list \<Rightarrow> pubkey \<Rightarrow> (ApiError, string) result" where
  "get_root b58 items tree =
     (case root_rows items tree of
        [] \<Rightarrow> Inl (Err (ResponseError ''no rows''))
      | r # _ \<Rightarrow> Inr (b58 (ci_hash r)))"

text \<open>The handler of \<open>/proof\<close> takes a node number.\<close>

definition handle_get_proof ::
  "hashv \<Rightarrow> (node \<Rightarrow> string) \<Rightarrow> cl_item list \<Rightarrow> pubkey \<Rightarrow> int \<Rightarrow> (ApiError, node_view list) result" where
  "handle_get_proof H b58 items tree index =
     and_then (get_proof_and_root H b58 items tree index) (\<lambda>views. Inr (butlast views))"

record asset_proof =
  ap_root :: string
  ap_hash :: string
  ap_proof :: "string list"

text \<open>
  The handler of \<open>/assets/:tree_id/:index/proof\<close> takes a leaf index; \<open>asset_hash\<close> is the result of the
  query for the asset, and without an asset the leaf is empty.
\<close>

definition handle_get_asset_proof ::
  "hashv \<Rightarrow> (node \<Rightarrow> string) \<Rightarrow> cl_item list \<Rightarrow> string option \<Rightarrow> pubkey \<Rightarrow> int \<Rightarrow> (ApiError, asset_proof) result" where
  "handle_get_asset_proof H b58 items asset_hash tree leaf_idx =
     (case get_height items tree of
        Inl _ \<Rightarrow> Inl Panic
      | Inr tree_height \<Rightarrow>
          let node_idx = leaf_idx_to_node_idx leaf_idx (unat tree_height);
              hash = (case asset_hash of Some s \<Rightarrow> s | None \<Rightarrow> b58 (empty_node H 0))
          in and_then (get_proof_and_root H b58 items tree node_idx) (\<lambda>views.
             let p = map nv_hash views
             in Inr \<lparr>ap_root = last p, ap_hash = hash, ap_proof = butlast p\<rparr>))"

section \<open>Proofs by asset (digital_asset_types)\<close>

datatype DbErr = RecordNotFound string | CustomDbErr string

record simple_change_log =
  sc_hash :: node
  sc_level :: int
  sc_node_idx :: int
  sc_seq :: int

definition default_log :: simple_change_log where
  "default_log = \<lparr>sc_hash = [], sc_level = 0, sc_node_idx = 0, sc_seq = 0\<rparr>"

definition simple_log :: "cl_item \<Rightarrow> simple_change_log" where
  "simple_log r = \<lparr>sc_hash = ci_hash r, sc_level = ci_level r, sc_node_idx = ci_node_idx r, sc_seq = ci_seq r\<rparr>"

record das_proof =
  dp_root :: string
  dp_leaf :: string
  dp_proof :: "string list"
  dp_node_index :: int
  dp_tree_id :: string

text \<open>The row of the asset's leaf: joined on the nonce and the tree.\<close>

definition asset_leaf_rows :: "ingest_db \<Rightarrow> pubkey \<Rightarrow> cl_item list" where
  "asset_leaf_rows db asset_id =
     sort_key (\<lambda>r. - ci_seq r) (filter (\<lambda>r. ci_level r = 0 \<and>
       list_ex (\<lambda>a. as_id a = asset_id \<and> as_tree_id a = Some (ci_tree r) \<and> ci_leaf_idx r = Some (as_nonce a))
         (in_assets db)) (db_cl_items (in_index db)))"

text \<open>Ordered by node, then by row number (the position in the table), both descending.\<close>

definition das_rows :: "cl_item list \<Rightarrow> pubkey \<Rightarrow> int list \<Rightarrow> cl_item list" where
  "das_rows items tree nodes =
     distinct_on_node (sort_key (\<lambda>r. - ci_node_idx r)
       (rev (filter (\<lambda>r. ci_node_idx r \<in> set nodes \<and> ci_tree r = tree) items)))"

definition get_proof_for_asset ::
  "hashv \<Rightarrow> (node \<Rightarrow> string) \<Rightarrow> ingest_db \<Rightarrow> pubkey \<Rightarrow> (DbErr, das_proof) result" where
  "get_proof_for_asset H b58 db asset_id =
     (case asset_leaf_rows db asset_id of
        [] \<Rightarrow> Inl (Err (RecordNotFound ''Asset Proof Not Found''))
      | leaf # _ \<Rightarrow>
          let req_indexes = get_required_nodes_for_proof (ci_node_idx leaf);
              expected_proof_size = length req_indexes;
              final0 = replicate expected_proof_size default_log;
              nodes = das_rows (db_cl_items (in_index db)) (ci_tree leaf) req_indexes
          in and_then (if length nodes \<noteq> expected_proof_size
               then and_then (place_rows ci_level nodes final0 simple_log) (\<lambda>final1.
                 Inr (map (\<lambda>(i, n, nin). if n = default_log then simple_log (make_empty_node H i nin) else n)
                   (enumerate 0 (zip final1 req_indexes))))
               else Inr final0) (\<lambda>final_node_list.
             Inr \<lparr>dp_root = b58 (sc_hash (last final_node_list)), dp_leaf = b58 (ci_hash leaf),
               dp_proof = map (\<lambda>n. b58 (sc_hash n)) (butlast final_node_list),
               dp_node_index = ci_node_idx leaf, dp_tree_id = b58 (ci_tree leaf)\<rparr>))"

end
