(* ===== verification/Asset_Service.thy ===== *)
theory Asset_Service
  imports Indexer_Stream Indexer_Proof "HOL-Library.AList"
begin

text \<open>
  \<open>digital_asset_types/src/dapi/asset.rs\<close>, \<open>rpc/asset.rs\<close> and \<open>das_api/src\<close>: the service that describes
  an asset from the rows of the indexer and the metadata that was downloaded for it. JSON values are
  a datatype; JSON paths, URLs, MIME types, JSON text, base58 and the JSON stored in the metadata
  column are parameters (third-party crates). Hash maps are association lists without duplicate keys,
  in the order of insertion, which the code leaves open.
\<close>

section \<open>The description of an asset (rpc/asset.rs)\<close>

datatype json =
    JNull | JBool bool | JNumber string | JString string | JArray "json list" | JObject "(string \<times> json) list"

datatype Interface =
    NftOneZero | NftInterface | FungibleAssetInterface | CustomInterface | IdentityInterface | ExecutableInterface

datatype Context =
    WalletDefault | WebDesktop | WebMobile | AppMobile | AppDesktop | AppContext | VrContext

record asset_file =
  fi_uri :: "string option"
  fi_mime :: "string option"
  fi_quality :: "string option"
  fi_contexts :: "Context list option"

record asset_content =
  ct_schema :: string
  ct_files :: "asset_file list option"
  ct_metadata :: "(string \<times> json) list list option"
  ct_links :: "(string \<times> json) list option"

datatype Scope = FullScope | RoyaltyScope | MetadataScope | ExtensionScope

record rpc_authority =
  ra_address :: string
  ra_scopes :: "Scope list"

record compression =
  co_eligible :: bool
  co_compressed :: bool

record rpc_group =
  rg_group_key :: string
  rg_group_value :: string

datatype RoyaltyModel = CreatorsModel | FanoutModel | SingleModel

definition royalty_model_from :: "RoyaltyTargetType \<Rightarrow> RoyaltyModel" where
  "royalty_model_from s =
     (case s of RoyaltyCreators \<Rightarrow> CreatorsModel | RoyaltyFanout \<Rightarrow> FanoutModel | RoyaltySingle \<Rightarrow> SingleModel
      | RoyaltyUnknown \<Rightarrow> CreatorsModel)"

text \<open>The code's \<open>percent\<close> is \<open>ro_amount\<close> times 0.0001, as a floating point number.\<close>

record royalty =
  ro_royalty_model :: RoyaltyModel
  ro_target :: "string option"
  ro_amount :: int
  ro_locked :: bool

record rpc_creator =
  rc_address :: string
  rc_share :: int
  rc_verified :: bool

datatype OwnershipModel = SingleOwnership | TokenOwnership

definition ownership_model_from :: "OwnerType \<Rightarrow> OwnershipModel" where
  "ownership_model_from s =
     (case s of OwnerToken \<Rightarrow> TokenOwnership | OwnerSingle \<Rightarrow> SingleOwnership | OwnerUnknown \<Rightarrow> SingleOwnership)"

record ownership =
  ow_frozen :: bool
  ow_delegated :: bool
  ow_delegate :: "string option"
  ow_ownership_model :: OwnershipModel
  ow_owner :: string

record rpc_asset =
  as_interface :: Interface
  as_rpc_id :: string
  as_content :: asset_content
  as_authorities :: "rpc_authority list"
  as_compression :: compression
  as_grouping :: "rpc_group list"
  as_royalty :: royalty
  as_creators :: "rpc_creator list"
  as_ownership :: ownership

section \<open>Content (dapi/asset.rs)\<close>

record content_env =
  ce_select :: "json \<Rightarrow> string \<Rightarrow> json list option"
  ce_url_path :: "string \<Rightarrow> string option"
  ce_mime_guess :: "string \<Rightarrow> string option"
  ce_to_string :: "json \<Rightarrow> string"
  ce_json :: "string \<Rightarrow> json"
  ce_b58 :: "bytes \<Rightarrow> string"

definition get_mime_type_from_uri :: "content_env \<Rightarrow> string \<Rightarrow> string option" where
  "get_mime_type_from_uri E uri = Option.bind (ce_url_path E uri) (ce_mime_guess E)"

definition file_from_str :: "content_env \<Rightarrow> string \<Rightarrow> asset_file" where
  "file_from_str E s =
     \<lparr>fi_uri = Some s, fi_mime = get_mime_type_from_uri E s, fi_quality = None, fi_contexts = None\<rparr>"

definition as_str :: "json \<Rightarrow> string option" where
  "as_str v = (case v of JString s \<Rightarrow> Some s | _ \<Rightarrow> None)"

text \<open>\<open>val[0]\<close> on a JSON value is null unless it is an array with an element.\<close>

definition json_first :: "json \<Rightarrow> json" where
  "json_first v = (case v of JArray (x # xs) \<Rightarrow> x | _ \<Rightarrow> JNull)"

type_synonym file_map = "(string \<times> asset_file) list"

definition track_top_level_file ::
  "content_env \<Rightarrow> file_map \<Rightarrow> json option \<Rightarrow> (DbErr, file_map) result" where
  "track_top_level_file E files top_level_file =
     (case top_level_file of
        None \<Rightarrow> Inr files
      | Some x \<Rightarrow>
          and_then (ok_or (as_str x) Panic) (\<lambda>img.
          Inr (if map_of files img = None then AList.update img (file_from_str E img) files else files)))"

text \<open>The last value of a selection that is not empty.\<close>

definition safe_select :: "content_env \<Rightarrow> json \<Rightarrow> string \<Rightarrow> json option" where
  "safe_select E doc expr =
     (case ce_select E doc expr of
        None \<Rightarrow> None
      | Some d \<Rightarrow> if d = [] then None else Some (last d))"

definition add_file :: "content_env \<Rightarrow> json \<Rightarrow> file_map \<Rightarrow> (DbErr, file_map) result" where
  "add_file E v files =
     (case v of
        JObject kvs \<Rightarrow>
          (case (map_of kvs ''uri'', map_of kvs ''type'') of
             (Some u, Some m) \<Rightarrow>
               and_then (ok_or (as_str u) Panic) (\<lambda>str_uri.
               and_then (ok_or (as_str m) Panic) (\<lambda>str_mime.
               Inr (AList.update str_uri \<lparr>fi_uri = Some str_uri, fi_mime = Some str_mime, fi_quality = None,
                 fi_contexts = None\<rparr> files)))
           | (Some u, None) \<Rightarrow>
               let str_uri = ce_to_string E u in Inr (AList.update str_uri (file_from_str E str_uri) files)
           | _ \<Rightarrow> Inr files)
      | JString str_uri \<Rightarrow> Inr (AList.update str_uri (file_from_str E str_uri) files)
      | _ \<Rightarrow> Inr files)"

fun add_files :: "content_env \<Rightarrow> json list \<Rightarrow> file_map \<Rightarrow> (DbErr, file_map) result" where
  "add_files E [] files = Inr files"
| "add_files E (v # vs) files = and_then (add_file E v files) (\<lambda>files. add_files E vs files)"

definition v1_content_from_json :: "content_env \<Rightarrow> json \<Rightarrow> (DbErr, asset_content) result" where
  "v1_content_from_json E metadata =
     (let image = safe_select E metadata ''$.image'';
          animation = safe_select E metadata ''$.animation_url'';
          external_url = map_option (\<lambda>val. [(''external_url'', json_first val)])
            (safe_select E metadata ''$.external_url'')
      in and_then (case ce_select E metadata ''$.properties.files[*]'' of
             Some found \<Rightarrow> add_files E found []
           | None \<Rightarrow> Inr []) (\<lambda>files.
         and_then (track_top_level_file E files image) (\<lambda>files.
         and_then (track_top_level_file E files animation) (\<lambda>files.
         Inr \<lparr>ct_schema = ''https://schema.metaplex.com/nft1.0.json'', ct_files = Some (map snd files),
              ct_metadata = None, ct_links = external_url\<rparr>))))"

definition get_content :: "content_env \<Rightarrow> asset_data_row \<Rightarrow> (DbErr, asset_content) result" where
  "get_content E data =
     (if ad_schema_version data = 1 then v1_content_from_json E (ce_json E (ad_metadata data))
      else Inl (Err (CustomDbErr ''Version Not Implemented'')))"

section \<open>The query (dapi/asset.rs)\<close>

definition to_authority :: "content_env \<Rightarrow> asset_authority_row list \<Rightarrow> rpc_authority list" where
  "to_authority E authority = map (\<lambda>a. \<lparr>ra_address = ce_b58 E (aa_authority a), ra_scopes = [FullScope]\<rparr>) authority"

definition to_creators :: "content_env \<Rightarrow> asset_creator_row list \<Rightarrow> rpc_creator list" where
  "to_creators E creators =
     map (\<lambda>a. \<lparr>rc_address = ce_b58 E (ac_creator a), rc_share = ac_share a, rc_verified = ac_verified a\<rparr>) creators"

definition to_grouping :: "asset_grouping_row list \<Rightarrow> rpc_group list" where
  "to_grouping groups = map (\<lambda>a. \<lparr>rg_group_key = ag_group_key a, rg_group_value = ag_group_value a\<rparr>) groups"

text \<open>An asset with its data: the left join on \<open>chain_data_id\<close>, first row.\<close>

definition find_asset_and_data :: "ingest_db \<Rightarrow> pubkey \<Rightarrow> (DbErr, asset_row \<times> asset_data_row) result" where
  "find_asset_and_data db asset_id =
     (case List.find (\<lambda>a. as_id a = asset_id) (in_assets db) of
        None \<Rightarrow> Inl (Err (RecordNotFound ''Asset Not Found''))
      | Some a \<Rightarrow>
          (case List.find (\<lambda>d. as_chain_data_id a = Some (ad_id d)) (in_asset_data db) of
             None \<Rightarrow> Inl (Err (RecordNotFound ''Asset Not Found''))
           | Some d \<Rightarrow> Inr (a, d)))"

definition get_asset :: "content_env \<Rightarrow> ingest_db \<Rightarrow> pubkey \<Rightarrow> (DbErr, rpc_asset) result" where
  "get_asset E db asset_id =
     and_then (find_asset_and_data db asset_id) (\<lambda>(asset, data).
     let interface = (if as_specification_version asset = 1 then NftOneZero else NftInterface)
     in and_then (get_content E data) (\<lambda>content.
     let authorities = filter (\<lambda>r. aa_asset_id r = as_id asset) (in_authorities db);
         creators = filter (\<lambda>r. ac_asset_id r = as_id asset) (in_creators db);
         grouping = filter (\<lambda>r. ag_asset_id r = as_id asset) (in_groupings db)
     in Inr \<lparr>as_interface = interface, as_rpc_id = ce_b58 E (as_id asset), as_content = content,
          as_authorities = to_authority E authorities,
          as_compression = \<lparr>co_eligible = as_compressible asset, co_compressed = as_compressed asset\<rparr>,
          as_grouping = to_grouping grouping,
          as_royalty = \<lparr>ro_royalty_model = royalty_model_from (as_royalty_target_type asset),
            ro_target = map_option (ce_b58 E) (as_royalty_target asset), ro_amount = as_royalty_amount asset,
            ro_locked = False\<rparr>,
          as_creators = to_creators E creators,
          as_ownership = \<lparr>ow_frozen = as_frozen asset, ow_delegated = (as_delegate asset \<noteq> None),
            ow_delegate = map_option (ce_b58 E) (as_delegate asset),
            ow_ownership_model = ownership_model_from (as_owner_type asset), ow_owner = ce_b58 E (as_owner asset)\<rparr>\<rparr>))"

section \<open>The interface (das_api)\<close>

datatype DasApiError =
    DasConfigurationError string | ServerStartError | DatabaseConnectionError
  | PubkeyValidationError string | ValidationError string | DatabaseError DbErr

text \<open>\<open>parse\<close> is \<open>Pubkey::from_str\<close>.\<close>

definition validate_pubkey :: "(string \<Rightarrow> pubkey option) \<Rightarrow> string \<Rightarrow> (DasApiError, pubkey) result" where
  "validate_pubkey parse str_pubkey = ok_or (parse str_pubkey) (Err (PubkeyValidationError str_pubkey))"

definition das_not_found :: "string \<Rightarrow> DbErr" where
  "das_not_found asset_id = RecordNotFound (''Asset Proof for '' @ asset_id @ '' Not Found'')"

definition das_get_asset_proof ::
  "hashv \<Rightarrow> content_env \<Rightarrow> (string \<Rightarrow> pubkey option) \<Rightarrow> ingest_db \<Rightarrow> string \<Rightarrow> (DasApiError, das_proof) result" where
  "das_get_asset_proof H E parse db asset_id =
     and_then (validate_pubkey parse asset_id) (\<lambda>id_bytes.
     map_failure DatabaseError (and_then (get_proof_for_asset H (ce_b58 E) db id_bytes) (\<lambda>p.
       if length (dp_proof p) = 0 then Inl (Err (das_not_found asset_id)) else Inr p)))"

definition das_get_asset ::
  "content_env \<Rightarrow> (string \<Rightarrow> pubkey option) \<Rightarrow> ingest_db \<Rightarrow> string \<Rightarrow> (DasApiError, rpc_asset) result" where
  "das_get_asset E parse db asset_id =
     and_then (validate_pubkey parse asset_id) (\<lambda>id_bytes.
     map_failure DatabaseError (get_asset E db id_bytes))"

end
