(* ===== verification/Indexer_Table.thy ===== *)
theory Indexer_Table
  imports Indexer_Proof
begin

text \<open>
  The table \<open>cl_items\<close> as a map from tree and node to a row: what an upsert does to it, what it holds
  after change logs were saved in any order, and what the queries for proofs return.
\<close>

definition cl_lookup :: "cl_item list \<Rightarrow> pubkey \<Rightarrow> int \<Rightarrow> cl_item option" where
  "cl_lookup items tree idx = find (\<lambda>r. ci_tree r = tree \<and> ci_node_idx r = idx) items"

definition cl_unique :: "cl_item list \<Rightarrow> bool" where
  "cl_unique items \<longleftrightarrow> distinct (map (\<lambda>r. (ci_tree r, ci_node_idx r)) items)"

section \<open>Upserts\<close>

lemma find_row_map:
  assumes "\<And>x. x \<in> set xs \<Longrightarrow> P (f x) = P x"
  shows "find P (map f xs) = map_option f (find P xs)"
  using assms by (induction xs) auto

lemma find_append: "find P (xs @ ys) = (case find P xs of None \<Rightarrow> find P ys | Some x \<Rightarrow> Some x)"
  by (induction xs) auto

lemma cl_lookup_SomeD:
  "cl_lookup items t x = Some r \<Longrightarrow> r \<in> set items \<and> ci_tree r = t \<and> ci_node_idx r = x"
  unfolding cl_lookup_def by (auto simp: find_Some_iff)

lemma cl_lookup_None:
  "cl_lookup items t x = None \<longleftrightarrow> (\<forall>r\<in>set items. \<not> (ci_tree r = t \<and> ci_node_idx r = x))"
  unfolding cl_lookup_def by (auto simp: find_None_iff)

lemma cl_unique_lookup:
  assumes "cl_unique items" and "r \<in> set items"
  shows "cl_lookup items (ci_tree r) (ci_node_idx r) = Some r"
  using assms unfolding cl_unique_def cl_lookup_def by (induction items) force+

lemma cl_unique_upsert:
  assumes "cl_unique items"
  shows "cl_unique (upsert_cl_item filling it items)"
proof (cases "list_ex (same_node it) items")
  case True
  have "map (\<lambda>r. (ci_tree r, ci_node_idx r)) (upsert_cl_item filling it items) =
      map (\<lambda>r. (ci_tree r, ci_node_idx r)) items"
    using True by (simp add: upsert_cl_item_def)
  then show ?thesis using assms by (simp add: cl_unique_def)
next
  case False
  then show ?thesis
    using assms by (auto simp: upsert_cl_item_def cl_unique_def same_node_def list_ex_iff)
qed

definition upserted :: "bool \<Rightarrow> cl_item \<Rightarrow> cl_item option \<Rightarrow> cl_item" where
  "upserted filling it old =
     (case old of None \<Rightarrow> it
      | Some r \<Rightarrow> if filling \<or> ci_seq r < ci_seq it then r\<lparr>ci_hash := ci_hash it, ci_seq := ci_seq it\<rparr> else r)"

lemma cl_lookup_upsert:
  "cl_lookup (upsert_cl_item filling it items) t x =
    (if ci_tree it = t \<and> ci_node_idx it = x then Some (upserted filling it (cl_lookup items t x))
     else cl_lookup items t x)"
proof (cases "list_ex (same_node it) items")
  case True
  let ?f = "\<lambda>r. if same_node it r \<and> (filling \<or> ci_seq r < ci_seq it)
    then r\<lparr>ci_hash := ci_hash it, ci_seq := ci_seq it\<rparr> else r"
  have eq: "cl_lookup (upsert_cl_item filling it items) t x = map_option ?f (cl_lookup items t x)"
    unfolding cl_lookup_def upsert_cl_item_def using True by (simp add: find_row_map)
  show ?thesis
  proof (cases "cl_lookup items t x")
    case None
    then have "\<not> (ci_tree it = t \<and> ci_node_idx it = x)"
      using True by (auto simp: cl_lookup_None list_ex_iff same_node_def)
    then show ?thesis
      unfolding eq None by (simp only: option.map if_False)
  next
    case (Some r)
    have same: "same_node it r \<longleftrightarrow> ci_tree it = t \<and> ci_node_idx it = x"
      using cl_lookup_SomeD [OF Some] by (auto simp: same_node_def)
    show ?thesis
      unfolding eq Some option.map same by (simp add: upserted_def)
  qed
next
  case False
  then have "cl_lookup items (ci_tree it) (ci_node_idx it) = None"
    by (auto simp: cl_lookup_None list_ex_iff same_node_def)
  then show ?thesis
    using False by (auto simp: upsert_cl_item_def cl_lookup_def find_append upserted_def split: option.splits)
qed

section \<open>Saving the path of a change log\<close>

text \<open>
  \<open>describes\<close>: the event is number \<open>s\<close> of the tree \<open>t\<close> of depth \<open>d\<close> and lists the nodes of the tree
  over \<open>L\<close> on the way from the leaf that was written.
\<close>

definition describes :: "hashv \<Rightarrow> nat \<Rightarrow> pubkey \<Rightarrow> change_log_event \<Rightarrow> nat \<Rightarrow> leaves \<Rightarrow> bool" where
  "describes H d t ev s L \<longleftrightarrow>
     ev_id ev = t \<and> sint (ev_seq ev) = int s \<and> unat (ev_index ev) < 2 ^ d \<and> length (ev_path ev) = Suc d \<and>
     (\<forall>l\<le>d. pn_node (ev_path ev ! l) = node_at H l (unat (ev_index ev) div 2 ^ l) L \<and>
       unat (pn_index (ev_path ev ! l)) = 2 ^ (d - l) + unat (ev_index ev) div 2 ^ l)"

definition node_number :: "nat \<Rightarrow> nat \<Rightarrow> nat \<Rightarrow> int" where
  "node_number d l m = 2 ^ (d - l) + int m"

lemma node_number_int: "node_number d l m = int (2 ^ (d - l) + m)"
  by (simp add: node_number_def)

lemma div_pow_less:
  assumes "i < 2 ^ d" and "l \<le> d"
  shows "i div 2 ^ l < (2 :: nat) ^ (d - l)"
proof (rule less_mult_imp_div_less)
  show "i < 2 ^ (d - l) * 2 ^ l"
    using assms by (simp flip: power_add)
qed

lemma node_number_inj:
  assumes "node_number d l m = node_number d l' m'" and "l \<le> d" "l' \<le> d" and "m < 2 ^ (d - l)" "m' < 2 ^ (d - l')"
  shows "l = l' \<and> m = m'"
proof -
  have eq: "2 ^ (d - l) + m = 2 ^ (d - l') + m'"
    using assms(1) unfolding node_number_int by (rule of_nat_eq_iff [THEN iffD1])
  have less: "2 ^ k + j < 2 ^ k'" if "j < 2 ^ k" "k < k'" for k k' j :: nat
    using that power_increasing [of "Suc k" k' "2 :: nat"] by simp
  have "d - l = d - l'"
    using less [OF assms(4), of "d - l'"] less [OF assms(5), of "d - l"] eq
    by (cases "d - l" "d - l'" rule: linorder_cases) auto
  then show ?thesis
    using eq assms(2,3) by simp
qed

lemma cl_item_of_keys [simp]:
  "ci_tree (cl_item_of ev depth i p) = ev_id ev" "ci_node_idx (cl_item_of ev depth i p) = uint (pn_index p)"
  by (simp_all add: cl_item_of_def Let_def)

lemma cl_unique_save_path: "cl_unique items \<Longrightarrow> cl_unique (save_path filling ev depth i ps items)"
  by (induction ps arbitrary: i items) (simp_all add: cl_unique_upsert)

lemma save_path_other:
  "t \<noteq> ev_id ev \<or> x \<notin> (\<lambda>p. uint (pn_index p)) ` set ps \<Longrightarrow>
    cl_lookup (save_path filling ev depth i ps items) t x = cl_lookup items t x"
  by (induction ps arbitrary: i items) (auto simp: cl_lookup_upsert)

lemma save_path_lookup:
  assumes "j < length ps" and "distinct (map pn_index ps)" and "x = uint (pn_index (ps ! j))"
  shows "cl_lookup (save_path filling ev depth i ps items) (ev_id ev) x =
    Some (upserted filling (cl_item_of ev depth (i + j) (ps ! j)) (cl_lookup items (ev_id ev) x))"
  using assms
proof (induction ps arbitrary: i j items)
  case (Cons p ps)
  show ?case
  proof (cases j)
    case 0
    have "x \<notin> (\<lambda>p. uint (pn_index p)) ` set ps"
      using Cons.prems(2,3) 0 by (auto simp: word_uint_eq_iff)
    then show ?thesis
      using 0 Cons.prems(3) by (simp add: save_path_other cl_lookup_upsert)
  next
    case (Suc k)
    have "pn_index (ps ! k) \<in> set (map pn_index ps)"
      using Suc Cons.prems(1) by simp
    then have "uint (pn_index p) \<noteq> x"
      using Cons.prems(2,3) Suc by (auto simp: word_uint_eq_iff)
    with Cons.IH [of k "i + 1"] Cons.prems Suc show ?thesis
      by (simp add: cl_lookup_upsert)
  qed
qed simp

definition row_of :: "change_log_event \<Rightarrow> nat \<Rightarrow> cl_item" where
  "row_of ev l = cl_item_of ev (length (ev_path ev) - 1) l (ev_path ev ! l)"

lemma row_of_describes:
  assumes "describes H d t ev s L" and "l \<le> d"
  shows "row_of ev l = \<lparr>ci_tree = t, ci_node_idx = node_number d l (unat (ev_index ev) div 2 ^ l),
    ci_leaf_idx = (if l = 0 then Some (int (unat (ev_index ev))) else None), ci_seq = int s, ci_level = int l,
    ci_hash = node_at H l (unat (ev_index ev) div 2 ^ l) L\<rparr>"
proof -
  have d: "ev_id ev = t" "sint (ev_seq ev) = int s" "length (ev_path ev) = Suc d"
    "pn_node (ev_path ev ! l) = node_at H l (unat (ev_index ev) div 2 ^ l) L"
    "unat (pn_index (ev_path ev ! l)) = 2 ^ (d - l) + unat (ev_index ev) div 2 ^ l"
    using assms by (auto simp: describes_def)
  have "uint (pn_index (ev_path ev ! l)) = node_number d l (unat (ev_index ev) div 2 ^ l)"
    unfolding uint_nat d(5) by (simp add: node_number_def)
  then show ?thesis
    by (simp add: row_of_def cl_item_of_def d node_idx_to_leaf_idx_def node_number_def)
qed

lemma path_index_distinct:
  assumes "describes H d t ev s L"
  shows "distinct (map pn_index (ev_path ev))"
proof -
  have len: "length (ev_path ev) = Suc d" and i: "unat (ev_index ev) < 2 ^ d"
    and ix: "\<And>l. l \<le> d \<Longrightarrow> unat (pn_index (ev_path ev ! l)) = 2 ^ (d - l) + unat (ev_index ev) div 2 ^ l"
    using assms by (auto simp: describes_def)
  have "l = l'" if "l \<le> d" "l' \<le> d" "pn_index (ev_path ev ! l) = pn_index (ev_path ev ! l')" for l l'
  proof -
    have "2 ^ (d - l) + unat (ev_index ev) div 2 ^ l = 2 ^ (d - l') + unat (ev_index ev) div 2 ^ l'"
      using ix [OF that(1)] ix [OF that(2)] that(3) by simp
    then have "node_number d l (unat (ev_index ev) div 2 ^ l) = node_number d l' (unat (ev_index ev) div 2 ^ l')"
      unfolding node_number_int by (rule arg_cong)
    from node_number_inj [OF this that(1,2)] show ?thesis
      using div_pow_less [OF i] that(1,2) by blast
  qed
  then show ?thesis
    unfolding distinct_conv_nth by (auto simp: len less_Suc_eq_le)
qed

end
