(* ===== verification/Indexer_Log.thy ===== *)
theory Indexer_Log
  imports Indexer_Table
begin

text \<open>
  The index of a tree whose change logs were saved in any order and any number of times: every node
  has the hash of the latest change log that mentions it (\<open>indexes\<close>). In the order in which a tree
  emits its change logs (\<open>tree_log\<close>) the latest one that mentions a node has the node's hash in the
  current tree.
\<close>

abbreviation on_path :: "change_log_event \<Rightarrow> nat \<Rightarrow> nat \<Rightarrow> bool" where
  "on_path ev l m \<equiv> unat (ev_index ev) div 2 ^ l = m"

definition described :: "hashv \<Rightarrow> nat \<Rightarrow> pubkey \<Rightarrow> change_log_event \<Rightarrow> bool" where
  "described H d t ev \<longleftrightarrow> (\<exists>s L. describes H d t ev s L)"

definition latest_row :: "change_log_event set \<Rightarrow> nat \<Rightarrow> nat \<Rightarrow> cl_item \<Rightarrow> bool" where
  "latest_row E l m r \<longleftrightarrow>
     (\<exists>ev\<in>E. on_path ev l m \<and> r = row_of ev l \<and>
        (\<forall>ev'\<in>E. on_path ev' l m \<longrightarrow> sint (ev_seq ev') \<le> sint (ev_seq ev)))"

definition indexes :: "nat \<Rightarrow> pubkey \<Rightarrow> cl_item list \<Rightarrow> change_log_event set \<Rightarrow> bool" where
  "indexes d t items E \<longleftrightarrow>
     (\<forall>l\<le>d. \<forall>m<2 ^ (d - l). case cl_lookup items t (node_number d l m) of
        None \<Rightarrow> \<forall>ev\<in>E. \<not> on_path ev l m
      | Some r \<Rightarrow> latest_row E l m r)"

lemma indexesD:
  assumes "indexes d t items E" and "l \<le> d" and "m < 2 ^ (d - l)"
  shows "cl_lookup items t (node_number d l m) = None \<Longrightarrow> ev \<in> E \<Longrightarrow> \<not> on_path ev l m"
    and "cl_lookup items t (node_number d l m) = Some r \<Longrightarrow> latest_row E l m r"
  using assms unfolding indexes_def by force+

lemma indexes_cong:
  assumes "indexes d t items E" and "\<And>x. cl_lookup items' t x = cl_lookup items t x"
  shows "indexes d t items' E"
  using assms by (simp add: indexes_def)

section \<open>Saving a change log\<close>

text \<open>\<open>saved ev items\<close> is the table after the event was saved.\<close>

definition saved :: "change_log_event \<Rightarrow> cl_item list \<Rightarrow> cl_item list" where
  "saved ev items = save_path False ev (length (ev_path ev) - 1) 0 (ev_path ev) items"

lemma saved_lookup:
  assumes ev: "describes H d t ev s L" and l: "l \<le> d" and m: "m < 2 ^ (d - l)"
  shows "cl_lookup (saved ev items) t (node_number d l m) =
    (if on_path ev l m then Some (upserted False (row_of ev l) (cl_lookup items t (node_number d l m)))
     else cl_lookup items t (node_number d l m))"
proof -
  have e: "ev_id ev = t" "unat (ev_index ev) < 2 ^ d" "length (ev_path ev) = Suc d"
    "\<And>l. l \<le> d \<Longrightarrow> unat (pn_index (ev_path ev ! l)) = 2 ^ (d - l) + unat (ev_index ev) div 2 ^ l"
    using ev by (auto simp: describes_def)
  have num: "uint (pn_index (ev_path ev ! k)) = node_number d k (unat (ev_index ev) div 2 ^ k)" if "k \<le> d" for k
    unfolding uint_nat e(4) [OF that] by (simp add: node_number_int)
  show ?thesis
  proof (cases "on_path ev l m")
    case True
    then show ?thesis
      using save_path_lookup [of l "ev_path ev" "node_number d l m" False ev d 0 items]
        path_index_distinct [OF ev] num [OF l] l by (simp add: e row_of_def saved_def)
  next
    case False
    have "node_number d l m \<noteq> uint (pn_index p)" if p: "p \<in> set (ev_path ev)" for p
    proof
      assume eq: "node_number d l m = uint (pn_index p)"
      obtain k where "k < length (ev_path ev)" "ev_path ev ! k = p"
        using p by (auto simp: in_set_conv_nth)
      then have k: "k \<le> d" "p = ev_path ev ! k"
        using e(3) by auto
      have "l = k \<and> m = unat (ev_index ev) div 2 ^ k"
        using node_number_inj [OF _ l k(1) m] div_pow_less [OF e(2) k(1)] eq num [OF k(1)] k(2) by simp
      then show False using False by simp
    qed
    then show ?thesis
      using False unfolding saved_def by (subst save_path_other) auto
  qed
qed

lemma latest_row_upserted:
  assumes E: "\<And>e. e \<in> E \<Longrightarrow> described H d t e" and ev: "describes H d t ev s L" and l: "l \<le> d"
    and on: "on_path ev l m" and r: "latest_row E l m r"
  shows "latest_row (insert ev E) l m (upserted False (row_of ev l) (Some r))"
proof -
  obtain ev0 where ev0: "ev0 \<in> E" "on_path ev0 l m" "r = row_of ev0 l"
    "\<And>e. e \<in> E \<Longrightarrow> on_path e l m \<Longrightarrow> sint (ev_seq e) \<le> sint (ev_seq ev0)"
    using r by (auto simp: latest_row_def)
  obtain s0 L0 where d0: "describes H d t ev0 s0 L0"
    using E [OF ev0(1)] by (auto simp: described_def)
  note row = row_of_describes [OF ev l] and row0 = row_of_describes [OF d0 l]
  have seq: "sint (ev_seq ev) = int s" "sint (ev_seq ev0) = int s0"
    using ev d0 by (auto simp: describes_def)
  show ?thesis
  proof (cases "s0 < s")
    case True
    have "ev_index ev0 = ev_index ev" if "l = 0"
      using on ev0(2) that by (simp add: word_unat_eq_iff)
    then have "ci_leaf_idx (row_of ev0 l) = ci_leaf_idx (row_of ev l)"
      by (simp add: row row0)
    then have "upserted False (row_of ev l) (Some r) = row_of ev l"
      using True on ev0(2,3) by (simp add: upserted_def row row0)
    then show ?thesis
      using True on ev0(4) seq by (fastforce simp: latest_row_def)
  next
    case False
    then have "upserted False (row_of ev l) (Some r) = r"
      by (simp add: upserted_def ev0(3) row row0)
    then show ?thesis
      using False ev0 seq unfolding latest_row_def
      by (intro bexI [of _ ev0]) auto
  qed
qed

lemma indexes_saved:
  assumes ix: "indexes d t items E" and E: "\<And>e. e \<in> E \<Longrightarrow> described H d t e"
    and ev: "described H d t ev"
  shows "indexes d t (saved ev items) (insert ev E)"
  unfolding indexes_def
proof (intro allI impI)
  fix l m :: nat assume l: "l \<le> d" and m: "m < 2 ^ (d - l)"
  obtain s L where d: "describes H d t ev s L"
    using ev by (auto simp: described_def)
  note lk = saved_lookup [OF d l m, of items]
  show "case cl_lookup (saved ev items) t (node_number d l m) of
      None \<Rightarrow> \<forall>ev\<in>insert ev E. \<not> on_path ev l m | Some r \<Rightarrow> latest_row (insert ev E) l m r"
  proof (cases "on_path ev l m")
    case False
    then have eq: "cl_lookup (saved ev items) t (node_number d l m) = cl_lookup items t (node_number d l m)"
      by (simp add: lk)
    show ?thesis
    proof (cases "cl_lookup items t (node_number d l m)")
      case None
      then show ?thesis using False indexesD(1) [OF ix l m None] by (simp add: eq)
    next
      case (Some r)
      then show ?thesis
        using False indexesD(2) [OF ix l m Some] by (simp add: eq latest_row_def)
    qed
  next
    case True
    show ?thesis
    proof (cases "cl_lookup items t (node_number d l m)")
      case None
      then have "latest_row (insert ev E) l m (row_of ev l)"
        using True indexesD(1) [OF ix l m None] by (auto simp: latest_row_def)
      then show ?thesis using True by (simp add: lk None upserted_def)
    next
      case (Some r)
      have "latest_row (insert ev E) l m (upserted False (row_of ev l) (Some r))"
        by (rule latest_row_upserted [OF E d l True indexesD(2) [OF ix l m Some]])
      then show ?thesis using True by (simp add: lk Some)
    qed
  qed
qed

text \<open>Change logs of other trees do not matter.\<close>

lemma indexes_saved_other:
  assumes "indexes d t items E" and "ev_id ev \<noteq> t"
  shows "indexes d t (saved ev items) E"
  by (rule indexes_cong [OF assms(1)]) (use assms(2) in \<open>simp add: save_path_other saved_def\<close>)

lemma save_changelog_events_items:
  "db_cl_items (save_changelog_events evs slot db) = fold saved evs (db_cl_items db)"
  by (induction evs arbitrary: db) (simp_all add: gummyroll_change_log_event_to_database_def Let_def saved_def)

lemma indexes_fold:
  assumes "indexes d t items E" and "\<And>e. e \<in> E \<Longrightarrow> described H d t e"
    and "\<And>e. e \<in> set evs \<Longrightarrow> ev_id e = t \<Longrightarrow> described H d t e"
  shows "indexes d t (fold saved evs items) (E \<union> {e \<in> set evs. ev_id e = t})"
  using assms
proof (induction evs arbitrary: items E)
  case (Cons ev evs)
  show ?case
  proof (cases "ev_id ev = t")
    case True
    have "indexes d t (saved ev items) (insert ev E)"
      by (rule indexes_saved [OF Cons.prems(1,2)]) (use Cons.prems(3) True in auto)
    moreover have "insert ev E \<union> {e \<in> set evs. ev_id e = t} = E \<union> {e \<in> set (ev # evs). ev_id e = t}"
      using True by auto
    ultimately show ?thesis
      using Cons.IH [of "saved ev items" "insert ev E"] Cons.prems(2,3) True by auto
  next
    case False
    have "indexes d t (saved ev items) E"
      by (rule indexes_saved_other [OF Cons.prems(1) False])
    moreover have "{e \<in> set evs. ev_id e = t} = {e \<in> set (ev # evs). ev_id e = t}"
      using False by auto
    ultimately show ?thesis
      using Cons.IH [of "saved ev items" E] Cons.prems(2,3) by auto
  qed
qed simp

lemma indexes_empty: "indexes d t [] {}"
  by (simp add: indexes_def cl_lookup_def)

lemma cl_unique_fold: "cl_unique items \<Longrightarrow> cl_unique (fold saved evs items)"
  by (induction evs arbitrary: items) (simp_all add: cl_unique_save_path saved_def)

text \<open>Batches of change logs, each with its slot.\<close>

definition saved_batches :: "(change_log_event list \<times> u64) list \<Rightarrow> index_db \<Rightarrow> index_db" where
  "saved_batches batches db = fold (\<lambda>(evs, slot). save_changelog_events evs slot) batches db"

lemma saved_batches_items:
  "db_cl_items (saved_batches batches db) = fold saved (concat (map fst batches)) (db_cl_items db)"
  unfolding saved_batches_def
  by (induction batches arbitrary: db) (auto simp: save_changelog_events_items)

end
