(* ===== verification/Indexer_Stream_Run.thy ===== *)
theory Indexer_Stream_Run
  imports Indexer_Stream Indexer_Log
begin

text \<open>
  The stream on transactions whose logs are what the runtime writes: for every outer instruction the
  line that names its program at level 1, then the lines of its execution, none of which reads like a
  line of level 1. On such transactions every outer instruction reaches its handler with its own
  lines. A line that reads like one of level 1 but is none stops the loop.
\<close>

section \<open>The pattern of program lines\<close>

lemma strip_prefix_append [simp]: "strip_prefix p (p @ s) = Some s"
  by (induction p) simp_all

lemma takeWhile_word:
  assumes "list_all word_char name" and "\<not> word_char c"
  shows "takeWhile word_char (name @ c # s) = name" "dropWhile word_char (name @ c # s) = c # s"
  using assms by (induction name) auto

lemma invoke_at_program:
  assumes "list_all word_char name" and "digit_char d"
  shows "invoke_at (''Program '' @ name @ '' invoke ['' @ d # '']'' @ s) = Some (name, [d])"
proof -
  have "\<not> word_char CHR '' ''"
    by (simp add: word_char_def digit_char_def)
  from takeWhile_word [OF assms(1) this, of "''invoke ['' @ d # '']'' @ s"] show ?thesis
    unfolding invoke_at_def strip_prefix_append option.case
    using assms(2) by simp
qed

text \<open>A message of a program is logged behind \<open>Program log: \<close>; the pattern is found inside it too.\<close>

lemma captures_program:
  assumes "list_all word_char name" and "digit_char d"
  shows "plre_captures (''Program '' @ name @ '' invoke ['' @ d # '']'' @ s) = Some (name, [d])"
    and "plre_captures (''Program log: Program '' @ name @ '' invoke ['' @ d # '']'' @ s) = Some (name, [d])"
proof -
  have head: "\<And>t. ''Program '' @ t = CHR ''P'' # ''rogram '' @ t" by simp
  show one: "plre_captures (''Program '' @ name @ '' invoke ['' @ d # '']'' @ s) = Some (name, [d])"
    using invoke_at_program [OF assms, of s] unfolding head plre_captures.simps by simp
  have log: "plre_captures (''Program log: '' @ t) = plre_captures t" for t
    by (simp add: invoke_at_def word_char_def digit_char_def)
  have "''Program log: Program '' @ name @ '' invoke ['' @ d # '']'' @ s =
      ''Program log: '' @ (''Program '' @ name @ '' invoke ['' @ d # '']'' @ s)"
    by simp
  then show "plre_captures (''Program log: Program '' @ name @ '' invoke ['' @ d # '']'' @ s) = Some (name, [d])"
    unfolding log one by (simp only: log one)
qed

section \<open>Log lines in blocks\<close>

definition invokes :: "ingest_env \<Rightarrow> pubkey \<Rightarrow> string \<Rightarrow> bool" where
  "invokes E k log \<longleftrightarrow> (parse_invoke E log :: (unit, (pubkey \<times> u8) option) result) = Inr (Some (k, 1))"

definition ordinary :: "ingest_env \<Rightarrow> string \<Rightarrow> bool" where
  "ordinary E log \<longleftrightarrow> (\<exists>cap. (parse_invoke E log :: (unit, (pubkey \<times> u8) option) result) = Inr cap \<and>
     (\<forall>k. cap \<noteq> Some (k, 1)))"

lemma invokesI:
  assumes "list_all word_char name" and "ie_b58 E name = Some k" and "length k = 32"
  shows "invokes E k (''Program '' @ name @ '' invoke [1]'' @ s)"
    and "invokes E k (''Program log: Program '' @ name @ '' invoke [1]'' @ s)"
  using captures_program [OF assms(1), of "CHR ''1''" s] assms(2,3)
  by (simp_all add: invokes_def parse_invoke_def pubkey_new_def parse_level_def digit_char_def)

lemma ordinaryI: "plre_captures log = None \<Longrightarrow> ordinary E log"
  by (simp add: ordinary_def parse_invoke_def)

lemma parse_invoked:
  assumes "invokes E k log"
  shows "(parse_log_lines E (log # logs) acc :: (unit, (pubkey \<times> string list \<times> u8) list) result) =
    parse_log_lines E logs (acc @ [(k, [], 1)])"
  using assms by (simp add: invokes_def)

lemma parse_ordinary:
  assumes "ordinary E log"
  shows "(parse_log_lines E (log # logs) (acc @ [(k, ls, l)]) :: (unit, (pubkey \<times> string list \<times> u8) list) result) =
    parse_log_lines E logs (acc @ [(k, ls @ [log], l)])"
proof -
  obtain cap where "(parse_invoke E log :: (unit, (pubkey \<times> u8) option) result) = Inr cap" "\<And>k. cap \<noteq> Some (k, 1)"
    using assms by (auto simp: ordinary_def)
  then show ?thesis
    by (cases cap) auto
qed

lemma parse_body:
  "list_all (ordinary E) body \<Longrightarrow>
   (parse_log_lines E (body @ logs) (acc @ [(k, ls, l)]) :: (unit, (pubkey \<times> string list \<times> u8) list) result) =
    parse_log_lines E logs (acc @ [(k, ls @ body, l)])"
  by (induction body arbitrary: ls) (simp_all add: parse_ordinary del: parse_log_lines.simps)

lemma parse_block:
  assumes "invokes E k head" and "list_all (ordinary E) body"
  shows "(parse_log_lines E (head # body @ logs) acc :: (unit, (pubkey \<times> string list \<times> u8) list) result) =
    parse_log_lines E logs (acc @ [(k, body, 1)])"
  using parse_body [OF assms(2), of logs acc k "[]" 1] by (simp add: parse_invoked [OF assms(1)] del: parse_log_lines.simps)

lemma parse_blocks:
  assumes "list_all2 (\<lambda>k (head, body). invokes E k head \<and> list_all (ordinary E) body) ks blocks"
  shows "(parse_log_lines E (concat (map (\<lambda>(head, body). head # body) blocks)) acc ::
      (unit, (pubkey \<times> string list \<times> u8) list) result) =
    Inr (acc @ map (\<lambda>(k, body). (k, body, 1)) (zip ks (map snd blocks)))"
  using assms
proof (induction ks blocks arbitrary: acc rule: list_all2_induct)
  case (Cons k ks block blocks)
  obtain head body where block: "block = (head, body)" by force
  show ?case
    using parse_block [of E k head body "concat (map (\<lambda>(head, body). head # body) blocks)" acc] Cons block
    by (simp del: parse_log_lines.simps(2))
qed simp

section \<open>Transactions\<close>

definition inner_complete :: "transaction_info \<Rightarrow> bool" where
  "inner_complete tx \<longleftrightarrow>
     (\<forall>l. ti_inner_instructions tx = Some l \<longrightarrow> (\<forall>ii\<in>set l. ii_instructions ii \<noteq> None))"

abbreviation program_of :: "(nat \<Rightarrow> pubkey) \<Rightarrow> compiled_instruction \<Rightarrow> pubkey" where
  "program_of keys ix \<equiv> keys (cx_program_id_index ix)"

definition well_logged ::
  "ingest_env \<Rightarrow> transaction_info \<Rightarrow> (nat \<Rightarrow> pubkey) \<Rightarrow> compiled_instruction list \<Rightarrow> string list list \<Rightarrow> bool" where
  "well_logged E tx keys outer bodies \<longleftrightarrow>
     ti_account_keys tx = Some keys \<and> ti_outer_instructions tx = Some outer \<and> inner_complete tx \<and>
     (\<exists>blocks. bodies = map snd blocks \<and>
       ti_log_messages tx = Some (concat (map (\<lambda>(head, body). head # body) blocks)) \<and>
       list_all2 (\<lambda>k (head, body). invokes E k head \<and> list_all (ordinary E) body)
         (map (program_of keys) outer) blocks)"

lemma order_from_complete:
  assumes "\<And>l. inner = Some l \<Longrightarrow> \<forall>ii\<in>set l. ii_instructions ii \<noteq> None"
  shows "\<exists>inners. length inners = length outer \<and>
    (order_from keys inner i outer :: (unit, (ix_pair \<times> ix_pair list option) list) result) =
      Inr (zip (map (\<lambda>ix. (program_of keys ix, ix)) outer) inners)"
proof (induction outer arbitrary: i)
  case (Cons ix outer)
  obtain inners where inners: "length inners = length outer"
    "(order_from keys inner (i + 1) outer :: (unit, (ix_pair \<times> ix_pair list option) list) result) =
      Inr (zip (map (\<lambda>ix. (program_of keys ix, ix)) outer) inners)"
    using Cons.IH by blast
  show ?case
  proof (cases "get_inner_ixs inner i")
    case None
    then show ?thesis
      using inners by (intro exI [of _ "None # inners"]) simp
  next
    case (Some ii)
    then obtain l where "inner = Some l" "ii \<in> set l"
      by (auto simp: get_inner_ixs_def find_Some_iff split: option.splits)
    then obtain instances where "ii_instructions ii = Some instances"
      using assms by blast
    then show ?thesis
      using inners Some
      by (intro exI [of _ "Some (map (\<lambda>ix. (program_of keys ix, ix)) instances) # inners"]) simp
  qed
qed simp

text \<open>What the loop is to do with a transaction: give every outer instruction its lines.\<close>

fun handle_each ::
  "ingest_env \<Rightarrow> program_handlers \<Rightarrow> (nat \<Rightarrow> pubkey) \<Rightarrow> u64 \<Rightarrow> (compiled_instruction \<times> string list) list \<Rightarrow>
   ingester \<Rightarrow> ingester" where
  "handle_each E manager keys slot [] st = st"
| "handle_each E manager keys slot ((ix, body) # rest) st =
     (let st' = handle_outer E manager keys slot (program_of keys ix, ix) body st
      in if ig_running st' then handle_each E manager keys slot rest st' else st')"

lemma handle_pairs_aligned:
  assumes "length inners = length outer" and "length bodies = length outer"
  shows "handle_pairs E manager keys slot (zip (zip (map (\<lambda>ix. (program_of keys ix, ix)) outer) inners)
      (map (\<lambda>(k, body). (k, body, 1)) (zip (map (program_of keys) outer) bodies))) st =
    handle_each E manager keys slot (zip outer bodies) st"
  using assms
proof (induction inners outer arbitrary: bodies st rule: list_induct2)
  case (Cons inner inners ix outer)
  then obtain body bodies' where "bodies = body # bodies'"
    by (cases bodies) auto
  then show ?case
    using Cons by (simp add: Let_def)
qed simp

lemma well_logged_message:
  assumes "well_logged E tx keys outer bodies"
  shows "handle_message E manager (Some tx) st =
    handle_each E manager keys (ti_slot tx) (zip outer bodies) st"
proof -
  obtain blocks where b: "bodies = map snd blocks"
    "ti_log_messages tx = Some (concat (map (\<lambda>(head, body). head # body) blocks))"
    "list_all2 (\<lambda>k (head, body). invokes E k head \<and> list_all (ordinary E) body) (map (program_of keys) outer) blocks"
    and t: "ti_account_keys tx = Some keys" "ti_outer_instructions tx = Some outer" "inner_complete tx"
    using assms by (auto simp: well_logged_def)
  have "\<And>l. ti_inner_instructions tx = Some l \<Longrightarrow> \<forall>ii\<in>set l. ii_instructions ii \<noteq> None"
    using t(3) unfolding inner_complete_def by blast
  from order_from_complete [OF this, where keys = keys and outer = outer and i = 0]
  obtain inners where i: "length inners = length outer"
    "(order_from keys (ti_inner_instructions tx) 0 outer :: (unit, (ix_pair \<times> ix_pair list option) list) result) =
      Inr (zip (map (\<lambda>ix. (program_of keys ix, ix)) outer) inners)"
    by blast
  have "length bodies = length outer"
    using list_all2_lengthD [OF b(3)] b(1) by simp
  then show ?thesis
    using handle_pairs_aligned [OF i(1), of bodies] parse_blocks [OF b(3), of "[]"]
    by (simp add: handle_message_def order_instructions_def t i(2) parse_logs_def b)
qed

section \<open>The change logs that reach the index\<close>

definition published :: "ingest_env \<Rightarrow> string list \<Rightarrow> change_log_event list" where
  "published E body =
     (case get_gummy_roll_events (de_capture (ie_decoders E)) (de_change_log (ie_decoders E)) body of
        Inr evs \<Rightarrow> evs | Inl _ \<Rightarrow> [])"

text \<open>The instructions of Bubblegum whose change logs the handler saves.\<close>

definition tree_instruction :: "compiled_instruction \<Rightarrow> bool" where
  "tree_instruction ix \<longleftrightarrow>
     (case cx_data ix of None \<Rightarrow> False
      | Some data \<Rightarrow> (get_instruction_type data :: (unit, InstructionName) result) \<in>
          Inr ` {TransferIns, BurnIns, DelegateIns, MintV1Ins, RedeemIns, CancelRedeemIns})"

lemma handle_with_leaf_index:
  assumes "handle_with_leaf (ie_decoders E) slot body model db = Inr (tasks, db')"
  shows "in_index db' = save_changelog_events (published E body) slot (in_index db)"
  using assms
  by (auto simp: handle_with_leaf_def index_and_update_def update_asset_def published_def result_simps
      split: if_splits)

lemma index_mint_index:
  assumes "index_mint H de evs schema metadata auth owner delegate slab slot db = Inr (n, db')"
  shows "in_index db' = save_changelog_events evs slot (in_index db)"
  using assms
  by (auto simp: index_mint_def insert_asset_data_def insert_asset_def Let_def result_simps)

lemma handle_mint_index:
  assumes "handle_mint H (ie_decoders E) ix data slot body keys db = Inr (tasks, db')"
  shows "in_index db' = save_changelog_events (published E body) slot (in_index db)"
  using assms by (auto simp: handle_mint_def published_def result_simps dest: index_mint_index)

lemma handle_bubblegum_index:
  assumes "handle_bubblegum_instruction H (ie_decoders E) ix slot body keys db = Inr (tasks, db')"
  shows "in_index db' = (if tree_instruction ix
    then save_changelog_events (published E body) slot (in_index db) else in_index db)"
proof -
  obtain data n where d: "cx_data ix = Some data"
    "(get_instruction_type data :: (IngesterError, InstructionName) result) = Inr n"
    using assms by (auto simp: handle_bubblegum_instruction_def result_simps)
  have "(get_instruction_type data :: (unit, InstructionName) result) = Inr n"
    using d(2) by (auto simp: get_instruction_type_def result_simps Let_def)
  then have t: "tree_instruction ix \<longleftrightarrow>
      n \<in> {TransferIns, BurnIns, DelegateIns, MintV1Ins, RedeemIns, CancelRedeemIns}"
    by (auto simp: tree_instruction_def d(1))
  show ?thesis
    using assms unfolding handle_bubblegum_instruction_def d(1) ok_or_simps and_then_simps d(2) t
    by (cases n) (auto simp: update_asset_def result_simps split: if_splits
        dest: handle_with_leaf_index handle_mint_index)
qed

section \<open>The whole stream\<close>

text \<open>A call: the account keys and slot of its transaction, the outer instruction and its lines.\<close>

type_synonym outer_call = "(nat \<Rightarrow> pubkey) \<times> u64 \<times> compiled_instruction \<times> string list"

abbreviation manager_of :: "ingest_env \<Rightarrow> program_handlers" where
  "manager_of E \<equiv> setup_manager E Map.empty"

fun handle_call :: "ingest_env \<Rightarrow> outer_call \<Rightarrow> ingester \<Rightarrow> ingester" where
  "handle_call E (keys, slot, ix, body) st =
     handle_outer E (manager_of E) keys slot (program_of keys ix, ix) body st"

fun handle_calls :: "ingest_env \<Rightarrow> outer_call list \<Rightarrow> ingester \<Rightarrow> ingester" where
  "handle_calls E [] st = st"
| "handle_calls E (c # cs) st =
     (let st' = handle_call E c st in if ig_running st' then handle_calls E cs st' else st')"

text \<open>
  The handlers get along with the calls: none panics, and Bubblegum's handler makes no error, which
  would roll back the change logs too. (The lines of a Gummyroll instruction without a change log are
  an error for its handler.)
\<close>

fun call_handled :: "ingest_env \<Rightarrow> outer_call \<Rightarrow> ingester \<Rightarrow> bool" where
  "call_handled E (keys, slot, ix, body) st \<longleftrightarrow>
     (case match_program (manager_of E) (program_of keys ix) of
        None \<Rightarrow> True
      | Some p \<Rightarrow>
          (case handle_instruction E p ix slot body keys (ig_db st) of
             Inr _ \<Rightarrow> True | Inl (Err _) \<Rightarrow> p = GummyRollHandler | Inl _ \<Rightarrow> False))"

fun calls_handled :: "ingest_env \<Rightarrow> outer_call list \<Rightarrow> ingester \<Rightarrow> bool" where
  "calls_handled E [] st \<longleftrightarrow> True"
| "calls_handled E (c # cs) st \<longleftrightarrow> call_handled E c st \<and> calls_handled E cs (handle_call E c st)"

fun tree_call :: "ingest_env \<Rightarrow> outer_call \<Rightarrow> bool" where
  "tree_call E (keys, slot, ix, body) \<longleftrightarrow>
     program_of keys ix = ie_gummyroll_id E \<or> program_of keys ix = ie_bubblegum_id E \<and> tree_instruction ix"

definition published_calls :: "ingest_env \<Rightarrow> outer_call list \<Rightarrow> (change_log_event list \<times> u64) list" where
  "published_calls E calls =
     map (\<lambda>(keys, slot, ix, body). (published E body, slot)) (filter (tree_call E) calls)"

lemma manager_of_eq:
  "match_program (manager_of E) k =
    (if k = ie_gummyroll_id E then Some GummyRollHandler
     else if k = ie_bubblegum_id E then Some BubblegumHandler else None)"
  by (simp add: match_program_def setup_manager_def register_parser_def handler_id_def)

lemma handle_call_index:
  assumes "call_handled E c st"
  shows "in_index (ig_db (handle_call E c st)) = saved_batches (published_calls E [c]) (in_index (ig_db st))"
    and "ig_running (handle_call E c st) = ig_running st"
proof -
  obtain keys slot ix body where c: "c = (keys, slot, ix, body)"
    by (cases c) auto
  have both: "in_index (ig_db (handle_call E c st)) = saved_batches (published_calls E [c]) (in_index (ig_db st)) \<and>
    ig_running (handle_call E c st) = ig_running st"
  proof (cases "program_of keys ix = ie_gummyroll_id E")
    case True
    then show ?thesis
      using assms
      by (auto simp: c handle_outer_def manager_of_eq handler_config_def handle_instruction_def Let_def
          handle_gummyroll_instruction_def handled_def published_calls_def published_def saved_batches_def
          and_then_def split: sum.splits failure.splits)
  next
    case False
    show ?thesis
    proof (cases "program_of keys ix = ie_bubblegum_id E")
      case True
      then obtain tasks db' where r: "handle_bubblegum_instruction (ie_hashv E) (ie_decoders E) ix slot body keys
          (ig_db st) = Inr (tasks, db')"
        using assms False
        by (auto simp: c manager_of_eq handle_instruction_def split: sum.splits failure.splits)
      show ?thesis
        using handle_bubblegum_index [OF r] True False
        by (auto simp: c handle_outer_def manager_of_eq handler_config_def handle_instruction_def r handled_def
            published_calls_def saved_batches_def)
    next
      case out: False
      then show ?thesis
        using False by (simp add: c handle_outer_def manager_of_eq published_calls_def saved_batches_def)
    qed
  qed
  show "in_index (ig_db (handle_call E c st)) = saved_batches (published_calls E [c]) (in_index (ig_db st))"
    and "ig_running (handle_call E c st) = ig_running st"
    using both by auto
qed

lemma saved_batches_append: "saved_batches (a @ b) db = saved_batches b (saved_batches a db)"
  by (simp add: saved_batches_def)

lemma handle_calls_index:
  assumes "calls_handled E calls st" and "ig_running st"
  shows "in_index (ig_db (handle_calls E calls st)) = saved_batches (published_calls E calls) (in_index (ig_db st)) \<and>
    ig_running (handle_calls E calls st)"
  using assms
proof (induction calls arbitrary: st)
  case (Cons c calls)
  have "published_calls E (c # calls) = published_calls E [c] @ published_calls E calls"
    by (simp add: published_calls_def)
  then show ?case
    using Cons.IH [of "handle_call E c st"] Cons.prems handle_call_index [of E c st]
    by (simp add: saved_batches_append)
qed (simp add: published_calls_def saved_batches_def)

text \<open>The transactions among the messages, and their calls.\<close>

definition transactions :: "transaction_info option list option list \<Rightarrow> transaction_info list" where
  "transactions recvs = List.map_filter (\<lambda>d. d) (concat (List.map_filter (\<lambda>r. r) recvs))"

definition calls_of :: "(transaction_info \<times> string list list) list \<Rightarrow> outer_call list" where
  "calls_of stream = concat (map (\<lambda>(tx, bodies).
     map (\<lambda>(ix, body). (the (ti_account_keys tx), ti_slot tx, ix, body))
       (zip (the (ti_outer_instructions tx)) bodies)) stream)"

lemma handle_each_calls:
  "handle_each E (manager_of E) keys slot l st = handle_calls E (map (\<lambda>(ix, body). (keys, slot, ix, body)) l) st"
proof (induction l arbitrary: st)
  case (Cons x l)
  obtain ix body where "x = (ix, body)" by force
  then show ?case
    using Cons by (simp add: Let_def)
qed simp

lemma handle_calls_append:
  "ig_running st \<Longrightarrow> handle_calls E (a @ b) st =
    (let st' = handle_calls E a st in if ig_running st' then handle_calls E b st' else st')"
proof (induction a arbitrary: st)
  case (Cons c a)
  then show ?case
    by (cases "ig_running (handle_call E c st)") (simp_all add: Let_def del: handle_call.simps)
qed simp

lemma handle_transaction_append:
  "ig_running st \<Longrightarrow> handle_transaction E m (a @ b) st =
    (let st' = handle_transaction E m a st in if ig_running st' then handle_transaction E m b st' else st')"
proof (induction a arbitrary: st)
  case (Cons c a)
  then show ?case
    by (cases "ig_running (handle_message E m c st)") (simp_all add: Let_def del: handle_call.simps)
qed simp

lemma handle_transaction_valid:
  "ig_running st \<Longrightarrow> handle_transaction E m data st = handle_transaction E m (map Some (List.map_filter (\<lambda>d. d) data)) st"
proof (induction data arbitrary: st)
  case (Cons d data)
  then show ?case
    by (cases d) (simp_all add: List.map_filter_def handle_message_def Let_def)
qed simp

lemma service_stream_transactions:
  "ig_running st \<Longrightarrow> service_transaction_stream E recvs st =
    handle_transaction E (manager_of E) (map Some (transactions recvs)) st"
proof (induction recvs arbitrary: st)
  case (Cons r recvs)
  show ?case
  proof (cases r)
    case None
    then show ?thesis
      using Cons by (simp add: transactions_def List.map_filter_def)
  next
    case (Some data)
    have "transactions (r # recvs) = List.map_filter (\<lambda>d. d) data @ transactions recvs"
      by (simp add: Some transactions_def List.map_filter_def)
    then show ?thesis
      using Cons by (simp add: Some handle_transaction_append handle_transaction_valid [of st E "manager_of E" data] Let_def)
  qed
qed (simp add: transactions_def)

abbreviation logged_tx :: "ingest_env \<Rightarrow> transaction_info \<times> string list list \<Rightarrow> bool" where
  "logged_tx E t \<equiv> well_logged E (fst t) (the (ti_account_keys (fst t))) (the (ti_outer_instructions (fst t))) (snd t)"

lemma handle_transaction_calls:
  assumes "list_all (logged_tx E) stream" and "ig_running st"
  shows "handle_transaction E (manager_of E) (map (Some \<circ> fst) stream) st = handle_calls E (calls_of stream) st"
  using assms
proof (induction stream arbitrary: st)
  case (Cons t stream)
  obtain tx bodies where t: "t = (tx, bodies)" by force
  have "well_logged E tx (the (ti_account_keys tx)) (the (ti_outer_instructions tx)) bodies"
    using Cons.prems(1) by (simp add: t)
  from well_logged_message [OF this, of "manager_of E" st] show ?case
    using Cons by (auto simp: t calls_of_def handle_each_calls handle_calls_append Let_def)
qed (simp add: calls_of_def)

end
