(* ===== verification/Asset_Tables.thy ===== *)
theory Asset_Tables
  imports Asset_Service Indexer_Stream_Run
begin

text \<open>
  The well-formedness of the indexer's tables: unique keys, and every reference to a row leads to
  one. All handlers and background tasks keep it, and an asset is served as it was minted.
\<close>

section \<open>Well-formed tables\<close>

definition keys_ok ::
  "pubkey list \<Rightarrow> nat option list \<Rightarrow> nat list \<Rightarrow> nat \<Rightarrow> pubkey list \<Rightarrow> bool" where
  "keys_ok ids refs data_ids next_id owners \<longleftrightarrow>
     distinct ids \<and> distinct refs \<and> distinct data_ids \<and> (\<forall>n\<in>set data_ids. n < next_id) \<and>
     set refs \<subseteq> Some ` set data_ids \<and> set owners \<subseteq> set ids"

text \<open>The asset ids that the rows of the other tables refer to.\<close>

definition referred_ids :: "ingest_db \<Rightarrow> pubkey list" where
  "referred_ids db = map ac_asset_id (in_creators db) @ map aa_asset_id (in_authorities db) @
     map ag_asset_id (in_groupings db)"

definition tables_ok :: "ingest_db \<Rightarrow> bool" where
  "tables_ok db \<longleftrightarrow> keys_ok (map as_id (in_assets db)) (map as_chain_data_id (in_assets db))
     (map ad_id (in_asset_data db)) (in_asset_data_next_id db) (referred_ids db)"

lemma tables_ok_index [simp]: "tables_ok (db\<lparr>in_index := index\<rparr>) = tables_ok db"
  by (simp add: tables_ok_def referred_ids_def)

text \<open>A change of one asset row that keeps its keys.\<close>

definition keeps_keys :: "(asset_row \<Rightarrow> asset_row) \<Rightarrow> bool" where
  "keeps_keys model \<longleftrightarrow> (\<forall>a. as_id (model a) = as_id a \<and> as_chain_data_id (model a) = as_chain_data_id a)"

lemma update_asset_tables:
  assumes "update_asset asset_id model db = Inr db'" and "keeps_keys model" and "tables_ok db"
  shows "tables_ok db'"
proof -
  let ?upd = "\<lambda>a. if as_id a = asset_id then model a else a"
  have db': "db' = db\<lparr>in_assets := map ?upd (in_assets db)\<rparr>"
    using assms(1) by (auto simp: update_asset_def split: if_splits)
  have keys: "as_id \<circ> ?upd = as_id" "as_chain_data_id \<circ> ?upd = as_chain_data_id"
    using assms(2) by (auto simp: keeps_keys_def fun_eq_iff)
  show ?thesis
    using assms(3) by (simp add: tables_ok_def referred_ids_def db' keys)
qed

text \<open>A minted asset: new rows with new keys.\<close>

definition minted_groupings :: "decoders \<Rightarrow> metadata_args \<Rightarrow> pubkey \<Rightarrow> asset_grouping_row list" where
  "minted_groupings de md asset_id =
     (case ma_collection md of
        Some c \<Rightarrow> if co_verified c then [\<lparr>ag_asset_id = asset_id, ag_group_key = ''collection'',
          ag_group_value = de_pubkey_string de (co_key c)\<rparr>] else []
      | None \<Rightarrow> [])"

lemma minted_groupings_ids: "ag_asset_id ` set (minted_groupings de md asset_id) \<subseteq> {asset_id}"
  by (auto simp: minted_groupings_def split: option.splits)

definition minted_row ::
  "hashv \<Rightarrow> leaf_schema \<Rightarrow> metadata_args \<Rightarrow> pubkey \<Rightarrow> pubkey \<Rightarrow> pubkey \<Rightarrow> nat \<Rightarrow> asset_row" where
  "minted_row H schema md owner delegate slab n =
     \<lparr>as_id = ls_id schema, as_specification_version = 1, as_owner = owner, as_owner_type = OwnerSingle,
       as_delegate = (if owner = delegate then None else Some delegate), as_frozen = False, as_supply = 1,
       as_supply_mint = None, as_compressed = True, as_compressible = False, as_tree_id = Some slab,
       as_leaf = Some (leaf_to_node H schema), as_nonce = sint (ls_nonce schema),
       as_royalty_target_type = RoyaltyCreators, as_royalty_target = None,
       as_royalty_amount = uint (ma_seller_fee_basis_points md), as_chain_data_id = Some n, as_burnt = False\<rparr>"

lemma index_mint_eq:
  assumes "index_mint H de evs schema md auth owner delegate slab slot db = Inr (n, db')"
  obtains asset data where "ls_id schema \<notin> as_id ` set (in_assets db)" "n = in_asset_data_next_id db"
    "as_id asset = ls_id schema" "as_chain_data_id asset = Some n" "ad_id data = n"
    "in_assets db' = in_assets db @ [asset]" "in_asset_data db' = in_asset_data db @ [data]"
    "in_asset_data_next_id db' = n + 1"
    "in_creators db' = in_creators db @ map (\<lambda>c. \<lparr>ac_asset_id = ls_id schema, ac_creator = cr_address c,
       ac_share = uint (cr_share c), ac_verified = cr_verified c\<rparr>) (ma_creators md)"
    "in_authorities db' = in_authorities db @ [\<lparr>aa_asset_id = ls_id schema, aa_authority = auth\<rparr>]"
    "in_groupings db' = in_groupings db @ minted_groupings de md (ls_id schema)"
    "asset = minted_row H schema md owner delegate slab n"
    "ad_schema_version data = 1" "ad_metadata data = ''processing''"
  using assms
  by (auto simp: index_mint_def insert_asset_data_def insert_asset_def Let_def result_simps list_ex_iff image_iff
      minted_groupings_def minted_row_def split: option.splits intro!: that)

lemma index_mint_tables:
  assumes "index_mint H de evs schema md auth owner delegate slab slot db = Inr (n, db')" and "tables_ok db"
  shows "tables_ok db'"
proof -
  obtain asset data where new: "ls_id schema \<notin> as_id ` set (in_assets db)" "n = in_asset_data_next_id db"
    "as_id asset = ls_id schema" "as_chain_data_id asset = Some n" "ad_id data = n"
    "in_assets db' = in_assets db @ [asset]" "in_asset_data db' = in_asset_data db @ [data]"
    "in_asset_data_next_id db' = n + 1"
    "in_creators db' = in_creators db @ map (\<lambda>c. \<lparr>ac_asset_id = ls_id schema, ac_creator = cr_address c,
       ac_share = uint (cr_share c), ac_verified = cr_verified c\<rparr>) (ma_creators md)"
    "in_authorities db' = in_authorities db @ [\<lparr>aa_asset_id = ls_id schema, aa_authority = auth\<rparr>]"
    "in_groupings db' = in_groupings db @ minted_groupings de md (ls_id schema)"
    by (rule index_mint_eq [OF assms(1)])
  note ok = assms(2) [unfolded tables_ok_def keys_ok_def]
  have fresh: "n \<notin> set (map ad_id (in_asset_data db))"
    using ok new(2) by blast
  then have "Some n \<notin> set (map as_chain_data_id (in_assets db))"
    using ok by blast
  moreover have "set (referred_ids db') \<subseteq> insert (ls_id schema) (set (referred_ids db))"
    using minted_groupings_ids [of de md "ls_id schema"] by (auto simp: referred_ids_def new(9-11))
  ultimately show ?thesis
    using ok new(1-5) fresh unfolding tables_ok_def keys_ok_def new(6-8) by auto
qed

lemma handle_with_leaf_tables:
  assumes "handle_with_leaf de slot logs model db = Inr (tasks, db')" and "\<And>s. keeps_keys (model s)" and "tables_ok db"
  shows "tables_ok db'"
  using assms(1)
  by (auto simp: handle_with_leaf_def index_and_update_def result_simps
      intro: update_asset_tables [OF _ assms(2)] simp: assms(3))

lemma handle_mint_tables:
  assumes "handle_mint H de ix data slot logs keys db = Inr (tasks, db')" and "tables_ok db"
  shows "tables_ok db'"
  using assms by (auto simp: handle_mint_def result_simps intro: index_mint_tables)

lemma handle_instruction_tables:
  assumes "handle_instruction E p ix slot logs keys db = Inr (tasks, db')" and "tables_ok db"
  shows "tables_ok db'"
proof (cases p)
  case GummyRollHandler
  then show ?thesis
    using assms by (auto simp: handle_instruction_def Let_def result_simps)
next
  case BubblegumHandler
  then obtain data n where n: "handle_bubblegum_instruction (ie_hashv E) (ie_decoders E) ix slot logs keys db =
      Inr (tasks, db')" "cx_data ix = Some data" "(get_instruction_type data :: (IngesterError, InstructionName) result) = Inr n"
    using assms(1) by (auto simp: handle_instruction_def Let_def handle_bubblegum_instruction_def result_simps)
  note r = n(1) [unfolded handle_bubblegum_instruction_def n(2) ok_or_simps and_then_simps n(3)]
  show ?thesis
    using r assms(2)
    by (cases n) (auto simp: result_simps keeps_keys_def
        intro: handle_mint_tables handle_with_leaf_tables update_asset_tables)
qed

section \<open>The stream and the background tasks keep the tables well-formed\<close>

lemma handle_outer_tables:
  "tables_ok (ig_db st) \<Longrightarrow> tables_ok (ig_db (handle_outer E m keys slot outer_ix logs st))"
  by (auto simp: handle_outer_def handled_def Let_def split: option.splits sum.splits failure.splits prod.splits
      dest: handle_instruction_tables)

lemma handle_pairs_tables:
  "tables_ok (ig_db st) \<Longrightarrow> tables_ok (ig_db (handle_pairs E m keys slot pairs st))"
proof (induction pairs arbitrary: st)
  case (Cons p pairs)
  obtain outer_ix inner log_key logs level where "p = ((outer_ix, inner), (log_key, logs, level))"
    by (metis prod.exhaust)
  then show ?case
    using Cons handle_outer_tables by (simp add: Let_def)
qed simp

lemma handle_message_tables:
  "tables_ok (ig_db st) \<Longrightarrow> tables_ok (ig_db (handle_message E m data st))"
  by (auto simp: handle_message_def handle_pairs_tables split: option.splits sum.splits)

lemma handle_transaction_tables:
  "tables_ok (ig_db st) \<Longrightarrow> tables_ok (ig_db (handle_transaction E m data st))"
  by (induction data arbitrary: st) (simp_all add: handle_message_tables Let_def)

lemma service_stream_tables:
  "tables_ok (ig_db st) \<Longrightarrow> tables_ok (ig_db (service_transaction_stream E recvs st))"
proof (induction recvs arbitrary: st)
  case (Cons r recvs)
  then show ?case
    by (cases r) (simp_all add: handle_transaction_tables Let_def)
qed simp

lemma download_tables:
  assumes "download_metadata fetch t db = Inr db'" and "tables_ok db"
  shows "tables_ok db'"
proof -
  obtain n uri where t: "t = (n, uri)" by force
  obtain body where db': "db' = db\<lparr>in_asset_data := map (\<lambda>d. if ad_id d = n then d\<lparr>ad_metadata := body\<rparr> else d)
      (in_asset_data db)\<rparr>"
    using assms(1) by (auto simp: download_metadata_def t result_simps)
  have keys: "ad_id \<circ> (\<lambda>d. if ad_id d = n then d\<lparr>ad_metadata := body\<rparr> else d) = ad_id"
    by (auto simp: fun_eq_iff)
  show ?thesis
    using assms(2) by (simp add: tables_ok_def referred_ids_def db' keys)
qed

lemma run_tasks_tables: "tables_ok db \<Longrightarrow> tables_ok (run_tasks fetch tasks db)"
  by (induction tasks arbitrary: db) (auto split: sum.splits dest: download_tables)

section \<open>Finding an asset with its data\<close>

lemma find_unique:
  assumes "distinct (map f xs)" and "x \<in> set xs"
  shows "List.find (\<lambda>y. f y = f x) xs = Some x"
  using assms by (induction xs) force+

lemma find_unique_data:
  assumes "distinct (map f xs)" and "x \<in> set xs" and "r = Some (f x)"
  shows "List.find (\<lambda>y. r = Some (f y)) xs = Some x"
proof -
  have "(\<lambda>y. r = Some (f y)) = (\<lambda>y. f y = f x)"
    using assms(3) by auto
  then show ?thesis
    using find_unique [OF assms(1,2)] by simp
qed

lemma find_asset_and_data_ok:
  assumes "tables_ok db" and "a \<in> set (in_assets db)"
  obtains d where "d \<in> set (in_asset_data db)" "as_chain_data_id a = Some (ad_id d)"
    "find_asset_and_data db (as_id a) = Inr (a, d)"
proof -
  note ok = assms(1) [unfolded tables_ok_def keys_ok_def]
  have "as_chain_data_id a \<in> set (map as_chain_data_id (in_assets db))"
    using assms(2) by simp
  then have "as_chain_data_id a \<in> Some ` set (map ad_id (in_asset_data db))"
    using ok by blast
  then obtain d where d: "d \<in> set (in_asset_data db)" "as_chain_data_id a = Some (ad_id d)"
    by auto
  have "find_asset_and_data db (as_id a) = Inr (a, d)"
    using find_unique [of as_id, OF _ assms(2)] find_unique_data [of ad_id, OF _ d] ok
    by (simp add: find_asset_and_data_def)
  with d show thesis by (rule that)
qed

lemma find_asset_and_data_eq:
  assumes "tables_ok db" and "a \<in> set (in_assets db)" and "d \<in> set (in_asset_data db)"
    and "as_chain_data_id a = Some (ad_id d)"
  shows "find_asset_and_data db (as_id a) = Inr (a, d)"
proof -
  obtain d' where d': "d' \<in> set (in_asset_data db)" "as_chain_data_id a = Some (ad_id d')"
    "find_asset_and_data db (as_id a) = Inr (a, d')"
    by (rule find_asset_and_data_ok [OF assms(1,2)])
  have "inj_on ad_id (set (in_asset_data db))"
    using assms(1) by (simp add: tables_ok_def keys_ok_def distinct_map)
  then have "d' = d"
    using assms(3,4) d' by (auto dest: inj_onD)
  then show ?thesis using d'(3) by simp
qed

lemma find_asset_and_data_none:
  assumes "asset_id \<notin> as_id ` set (in_assets db)"
  shows "find_asset_and_data db asset_id = Inl (Err (RecordNotFound ''Asset Not Found''))"
proof -
  have "List.find (\<lambda>a. as_id a = asset_id) (in_assets db) = None"
    using assms by (auto simp: find_None_iff)
  then show ?thesis by (simp add: find_asset_and_data_def)
qed

text \<open>Adding the rows of another asset and changing its data leaves the description of an asset alone.\<close>

lemma get_asset_frame:
  assumes ok: "tables_ok db" "tables_ok db'" and other: "asset_id \<noteq> new_id"
    and assets: "in_assets db' = in_assets db @ [asset]" "as_id asset = new_id"
    and data: "\<And>d. d \<in> set (in_asset_data db) \<Longrightarrow> d \<in> set (in_asset_data db')"
    and rows: "in_creators db' = in_creators db @ cs" "\<forall>c\<in>set cs. ac_asset_id c = new_id"
      "in_authorities db' = in_authorities db @ auths" "\<forall>c\<in>set auths. aa_asset_id c = new_id"
      "in_groupings db' = in_groupings db @ gs" "\<forall>c\<in>set gs. ag_asset_id c = new_id"
  shows "get_asset E db' asset_id = get_asset E db asset_id"
proof (cases "asset_id \<in> as_id ` set (in_assets db)")
  case True
  then obtain a where a: "a \<in> set (in_assets db)" "as_id a = asset_id" by auto
  obtain d where d: "d \<in> set (in_asset_data db)" "as_chain_data_id a = Some (ad_id d)"
    "find_asset_and_data db (as_id a) = Inr (a, d)"
    by (rule find_asset_and_data_ok [OF ok(1) a(1)])
  have "find_asset_and_data db' (as_id a) = Inr (a, d)"
    by (rule find_asset_and_data_eq [OF ok(2) _ data d(2)]) (simp_all add: a assets d)
  moreover have "filter (\<lambda>r. ac_asset_id r = asset_id) cs = []" "filter (\<lambda>r. aa_asset_id r = asset_id) auths = []"
    "filter (\<lambda>r. ag_asset_id r = asset_id) gs = []"
    using rows(2,4,6) other by (auto simp: filter_empty_conv)
  ultimately show ?thesis
    using d(3) by (simp add: get_asset_def a(2) rows(1,3,5))
next
  case False
  then show ?thesis
    using find_asset_and_data_none [of asset_id db] find_asset_and_data_none [of asset_id db'] other
    by (simp add: get_asset_def assets)
qed

section \<open>A minted asset after its download\<close>

lemma minted_then_downloaded:
  assumes mint: "index_mint H de evs schema md auth owner delegate slab sl db = Inr (n, db')" and ok: "tables_ok db"
    and body: "fetch (ma_uri md) = Some body"
  defines "final \<equiv> run_tasks fetch [(n, ma_uri md)] db'"
  obtains asset dat where "find_asset_and_data final (ls_id schema) = Inr (asset, dat)"
    "ad_schema_version dat = 1" "ad_metadata dat = body" "tables_ok final"
    "in_assets final = in_assets db @ [asset]" "set (in_asset_data db) \<subseteq> set (in_asset_data final)"
    "in_creators final = in_creators db @ map (\<lambda>c. \<lparr>ac_asset_id = ls_id schema, ac_creator = cr_address c,
       ac_share = uint (cr_share c), ac_verified = cr_verified c\<rparr>) (ma_creators md)"
    "in_authorities final = in_authorities db @ [\<lparr>aa_asset_id = ls_id schema, aa_authority = auth\<rparr>]"
    "in_groupings final = in_groupings db @ minted_groupings de md (ls_id schema)"
    "asset = minted_row H schema md owner delegate slab n"
proof (rule index_mint_eq [OF mint])
  fix asset dat
  assume new: "n = in_asset_data_next_id db" "as_id asset = ls_id schema" "as_chain_data_id asset = Some n" "ad_id dat = n"
    "in_assets db' = in_assets db @ [asset]" "in_asset_data db' = in_asset_data db @ [dat]"
    "ad_schema_version dat = 1" "asset = minted_row H schema md owner delegate slab n"
    and rows: "in_creators db' = in_creators db @ map (\<lambda>c. \<lparr>ac_asset_id = ls_id schema, ac_creator = cr_address c,
       ac_share = uint (cr_share c), ac_verified = cr_verified c\<rparr>) (ma_creators md)"
    "in_authorities db' = in_authorities db @ [\<lparr>aa_asset_id = ls_id schema, aa_authority = auth\<rparr>]"
    "in_groupings db' = in_groupings db @ minted_groupings de md (ls_id schema)"
  let ?dat = "dat\<lparr>ad_metadata := body\<rparr>"
  have "ad_id d \<noteq> n" if "d \<in> set (in_asset_data db)" for d
    using ok that new(1) by (auto simp: tables_ok_def keys_ok_def)
  then have "map (\<lambda>d. if ad_id d = n then d\<lparr>ad_metadata := body\<rparr> else d) (in_asset_data db) = in_asset_data db"
    by (auto intro: map_idI)
  then have final: "final = db'\<lparr>in_asset_data := in_asset_data db @ [?dat]\<rparr>"
    by (simp add: final_def download_metadata_def body new(4,6))
  have fin_ok: "tables_ok final"
    unfolding final_def by (rule run_tasks_tables [OF index_mint_tables [OF mint ok]])
  have found: "find_asset_and_data final (ls_id schema) = Inr (asset, ?dat)"
    using find_asset_and_data_eq [OF fin_ok, of asset ?dat] new(2-5) by (simp add: final)
  show thesis
    by (rule that [OF found _ _ fin_ok _ _ _ _ _ new(8)]) (auto simp: final new(5,7) rows)
qed

text \<open>No row refers to an asset that does not exist.\<close>

lemma no_rows_of_missing:
  assumes "tables_ok db" and "asset_id \<notin> as_id ` set (in_assets db)"
  shows "filter (\<lambda>r. ac_asset_id r = asset_id) (in_creators db) = []"
    and "filter (\<lambda>r. aa_asset_id r = asset_id) (in_authorities db) = []"
    and "filter (\<lambda>r. ag_asset_id r = asset_id) (in_groupings db) = []"
proof -
  have "asset_id \<notin> set (referred_ids db)"
    using assms by (auto simp: tables_ok_def keys_ok_def)
  then show "filter (\<lambda>r. ac_asset_id r = asset_id) (in_creators db) = []"
    "filter (\<lambda>r. aa_asset_id r = asset_id) (in_authorities db) = []"
    "filter (\<lambda>r. ag_asset_id r = asset_id) (in_groupings db) = []"
    by (auto simp: referred_ids_def filter_empty_conv)
qed

lemma index_mint_fresh:
  "index_mint H de evs schema md auth owner delegate slab sl db = Inr (n, db') \<Longrightarrow>
    ls_id schema \<notin> as_id ` set (in_assets db)"
  by (erule index_mint_eq)

end
