(* ===== verification/Indexer_Queries.thy ===== *)
theory Indexer_Queries
  imports Indexer_Log
begin

text \<open>
  What the queries for a proof return. The rows of the required nodes come in the order of the nodes,
  those that exist; placing them at their levels and filling the gaps with empty nodes gives one
  node per level.
\<close>

section \<open>The required nodes\<close>

lemma required_nodes:
  assumes "m < 2 ^ (d - l)" and "l \<le> d"
  shows "get_required_nodes_for_proof (node_number d l m) =
    map (\<lambda>k. node_number d k (sibling (m div 2 ^ (k - l)))) [l..<d] @ [1]"
  using assms
proof (induction "d - l" arbitrary: l m)
  case 0
  then show ?case
    by (subst get_required_nodes_for_proof.simps) (simp add: node_number_def)
next
  case (Suc k)
  then have l: "l < d" by simp
  have big: "1 < node_number d l m"
  proof -
    have "2 ^ 1 \<le> (2 ^ (d - l) :: int)"
      by (rule power_increasing) (use l in auto)
    then show ?thesis by (simp add: node_number_def)
  qed
  have e: "2 ^ (d - l) = (2 * 2 ^ (d - Suc l) :: int)"
    using l by (simp flip: power_Suc add: Suc_diff_Suc)
  have parity: "node_number d l m mod 2 = int (m mod 2)"
    unfolding node_number_def e by (simp add: zmod_int)
  have half: "node_number d l m div 2 = node_number d (Suc l) (m div 2)"
    unfolding node_number_def e by (simp add: zdiv_int)
  have sib: "(if node_number d l m mod 2 = 0 then node_number d l m + 1 else node_number d l m - 1) =
      node_number d l (sibling m)"
  proof (cases "even m")
    case True
    then have "int (m mod 2) = 0" by simp
    with True show ?thesis
      unfolding parity by (simp add: node_number_def sibling_def)
  next
    case False
    then have "int (m mod 2) = 1" "1 \<le> m"
      by (auto simp: odd_iff_mod_2_eq_one odd_pos Suc_leI)
    with False show ?thesis
      unfolding parity by (simp add: node_number_def sibling_def of_nat_diff)
  qed
  have m: "m div 2 < 2 ^ (d - Suc l)"
    using Suc.prems(1) l by (intro less_mult_imp_div_less) (simp flip: power_Suc2 add: Suc_diff_Suc)
  have "get_required_nodes_for_proof (node_number d (Suc l) (m div 2)) =
      map (\<lambda>k. node_number d k (sibling (m div 2 div 2 ^ (k - Suc l)))) [Suc l..<d] @ [1]"
    by (rule Suc.hyps(1)) (use Suc.hyps(2) m l in auto)
  also have "map (\<lambda>k. node_number d k (sibling (m div 2 div 2 ^ (k - Suc l)))) [Suc l..<d] =
      map (\<lambda>k. node_number d k (sibling (m div 2 ^ (k - l)))) [Suc l..<d]"
  proof (rule map_cong [OF refl])
    fix k assume "k \<in> set [Suc l..<d]"
    then have "k - l = Suc (k - Suc l)" by auto
    then have "m div 2 div 2 ^ (k - Suc l) = m div 2 ^ (k - l)"
      by (simp add: div_mult2_eq)
    then show "node_number d k (sibling (m div 2 div 2 ^ (k - Suc l))) =
        node_number d k (sibling (m div 2 ^ (k - l)))"
      by simp
  qed
  finally show ?case
    using l by (subst get_required_nodes_for_proof.simps) (simp add: big sib half upt_conv_Cons)
qed

section \<open>Sorted and distinct rows\<close>

lemma distinct_on_node_id:
  "distinct (map ci_node_idx rs) \<Longrightarrow> distinct_on_node rs = rs"
proof (induction rs rule: distinct_on_node.induct)
  case (2 r rs)
  have "dropWhile (\<lambda>s. ci_node_idx s = ci_node_idx r) rs = rs"
    using 2(2) by (cases rs) auto
  then show ?case using 2 by simp
qed simp

lemma map_filter_append: "List.map_filter f (xs @ ys) = List.map_filter f xs @ List.map_filter f ys"
  by (simp add: List.map_filter_def)

lemma set_map_filter: "set (List.map_filter f xs) = {y. \<exists>x\<in>set xs. f x = Some y}"
  by (force simp: List.map_filter_def)

lemma descending_distinct: "sorted_wrt (>) (xs :: int list) \<Longrightarrow> distinct xs"
  by (induction xs) auto

text \<open>
  A list of rows with distinct nodes, sorted by descending node, is the list of rows found for a
  descending list of nodes.
\<close>

lemma sorted_rows:
  assumes rs: "\<And>r. r \<in> set rs \<longleftrightarrow> (\<exists>x\<in>set nodes. lk x = Some r)"
    and key: "\<And>x r. lk x = Some r \<Longrightarrow> ci_node_idx r = x"
    and dist: "distinct (map ci_node_idx rs)" and nodes: "sorted_wrt (>) nodes"
  shows "distinct_on_node (sort_key (\<lambda>r. - ci_node_idx r) rs) = List.map_filter lk nodes"
proof -
  let ?f = "\<lambda>r. - ci_node_idx r" and ?ys = "List.map_filter lk nodes"
  have ys: "map ci_node_idx ?ys = filter (\<lambda>x. lk x \<noteq> None) nodes"
    using key by (induction nodes) (auto split: option.splits)
  have desc: "sorted_wrt (>) (map ci_node_idx ?ys)"
    unfolding ys using nodes by (rule sorted_wrt_filter)
  have dk: "distinct (map ci_node_idx ?ys)"
    by (rule descending_distinct [OF desc])
  have inj: "inj_on ?f (set (sort_key ?f rs) \<union> set ?ys)"
  proof (rule inj_onI)
    fix r s assume "r \<in> set (sort_key ?f rs) \<union> set ?ys" "s \<in> set (sort_key ?f rs) \<union> set ?ys" "?f r = ?f s"
    moreover from this obtain x y where "lk x = Some r" "lk y = Some s"
      by (auto simp: rs set_map_filter)
    ultimately show "r = s" using key by fastforce
  qed
  have "sort_key ?f rs = ?ys"
  proof (rule map_sorted_distinct_set_unique [OF inj])
    show "sorted (map ?f (sort_key ?f rs))"
      by (rule sorted_sort_key)
    show "distinct (map ?f (sort_key ?f rs))"
      using dist by (simp add: distinct_map inj_on_def)
    show "sorted (map ?f ?ys)"
      using desc unfolding sorted_wrt_map by (rule sorted_wrt_mono_rel [rotated]) simp
    show "distinct (map ?f ?ys)"
      using dk by (simp add: distinct_map inj_on_def)
    show "set (sort_key ?f rs) = set ?ys"
      by (auto simp: rs set_map_filter)
  qed
  then show ?thesis
    using dk by (simp add: distinct_on_node_id)
qed

section \<open>One node per level\<close>

lemma length_map_filter: "length (List.map_filter f xs) \<le> length xs"
  by (induction xs) (auto split: option.splits)

lemma map_filter_all:
  "length (List.map_filter f xs) = length xs \<Longrightarrow> \<forall>x\<in>set xs. f x \<noteq> None"
proof (induction xs)
  case (Cons x xs)
  then show ?case
    using length_map_filter [of f xs] by (auto split: option.splits)
qed simp

lemma map_filter_total:
  "\<forall>x\<in>set xs. f x \<noteq> None \<Longrightarrow> List.map_filter f xs = map (\<lambda>x. the (f x)) xs"
  by (induction xs) auto

lemma place_rows_eq:
  assumes "\<And>k r. k < length nodes \<Longrightarrow> lk (nodes ! k) = Some r \<Longrightarrow> level r = int (length pre + k)"
  shows "place_rows level (List.map_filter lk nodes) (pre @ replicate (length nodes) dflt) view =
    (Inr (pre @ map (\<lambda>x. case lk x of None \<Rightarrow> dflt | Some r \<Rightarrow> view r) nodes) :: ('e, 'v list) result)"
  using assms
proof (induction nodes arbitrary: pre)
  case (Cons x xs)
  have later: "level r = int (length (pre @ [v]) + k)" if "k < length xs" "lk (xs ! k) = Some r" for k r v
    using Cons.prems [of "Suc k" r] that by simp
  show ?case
  proof (cases "lk x")
    case None
    then show ?thesis
      using Cons.IH [of "pre @ [dflt]", OF later] by simp
  next
    case (Some r)
    have "level r = int (length pre)"
      using Cons.prems [of 0 r] Some by simp
    then show ?thesis
      using Cons.IH [of "pre @ [view r]", OF later] Some by (simp add: list_update_append)
  qed
qed simp

lemma filled_rows:
  assumes "\<And>x r. x \<in> set nodes \<Longrightarrow> lk x = Some r \<Longrightarrow> view r \<noteq> dflt"
  shows "map (\<lambda>(i, n, nin). if n = dflt then mk i nin else n)
      (enumerate k (zip (map (\<lambda>x. case lk x of None \<Rightarrow> dflt | Some r \<Rightarrow> view r) nodes) nodes)) =
    map (\<lambda>(i, x). case lk x of None \<Rightarrow> mk i x | Some r \<Rightarrow> view r) (enumerate k nodes)"
  using assms by (induction nodes arbitrary: k) (auto split: option.splits)

text \<open>The nodes that a query finds: the row, or an empty node.\<close>

definition row_or_empty :: "hashv \<Rightarrow> (int \<Rightarrow> cl_item option) \<Rightarrow> nat \<times> int \<Rightarrow> cl_item" where
  "row_or_empty H lk = (\<lambda>(k, x). case lk x of None \<Rightarrow> make_empty_node H k x | Some r \<Rightarrow> r)"

text \<open>What both services need of the rows found.\<close>

definition rows_found :: "(int \<Rightarrow> cl_item option) \<Rightarrow> int list \<Rightarrow> bool" where
  "rows_found lk nodes \<longleftrightarrow>
     (\<forall>k<length nodes. \<forall>r. lk (nodes ! k) = Some r \<longrightarrow> ci_level r = int k \<and> ci_node_idx r = nodes ! k) \<and>
     0 \<notin> set nodes"

lemma rows_foundD:
  assumes "rows_found lk nodes"
  shows "k < length nodes \<Longrightarrow> lk (nodes ! k) = Some r \<Longrightarrow> ci_level r = int k"
    and "x \<in> set nodes \<Longrightarrow> lk x = Some r \<Longrightarrow> ci_node_idx r \<noteq> 0"
proof -
  show "ci_level r = int k" if "k < length nodes" "lk (nodes ! k) = Some r" for k r
    using assms that by (simp add: rows_found_def)
  show "ci_node_idx r \<noteq> 0" if x: "x \<in> set nodes" "lk x = Some r" for x r
  proof -
    obtain k where "k < length nodes" "nodes ! k = x"
      using x(1) by (auto simp: in_set_conv_nth)
    then have "ci_node_idx r = x" using assms x(2) by (auto simp: rows_found_def)
    then show ?thesis using x(1) assms by (auto simp: rows_found_def)
  qed
qed

lemma get_proof_and_root_eq:
  assumes rows: "proof_rows items t (get_required_nodes_for_proof i) =
      List.map_filter lk (get_required_nodes_for_proof i)"
    and found: "rows_found lk (get_required_nodes_for_proof i)"
  shows "get_proof_and_root H b58 items t i =
    Inr (map (node_to_view b58 \<circ> row_or_empty H lk) (enumerate 0 (get_required_nodes_for_proof i)))"
proof -
  let ?nodes = "get_required_nodes_for_proof i" and ?view = "node_to_view b58"
  note foundD = rows_foundD [OF found]
  have view: "?view r \<noteq> default_view" if "x \<in> set ?nodes" "lk x = Some r" for x r
    using foundD(2) [OF that] by (auto simp: node_to_view_def default_view_def)
  have place: "place_rows ci_level (List.map_filter lk ?nodes) (replicate (length ?nodes) default_view) ?view =
      (Inr (map (\<lambda>x. case lk x of None \<Rightarrow> default_view | Some r \<Rightarrow> ?view r) ?nodes) :: (ApiError, node_view list) result)"
    using place_rows_eq [of ?nodes lk ci_level "[]" default_view ?view] foundD(1) by simp
  have fill: "map (\<lambda>(i, n, nin). if n = default_view then ?view (make_empty_node H i nin) else n)
      (enumerate 0 (zip (map (\<lambda>x. case lk x of None \<Rightarrow> default_view | Some r \<Rightarrow> ?view r) ?nodes) ?nodes)) =
      map (?view \<circ> row_or_empty H lk) (enumerate 0 ?nodes)"
    by (rule trans, rule filled_rows, erule view, assumption, rule map_cong [OF refl])
      (auto simp: row_or_empty_def split: option.splits)
  show ?thesis
  proof (cases "length (List.map_filter lk ?nodes) = length ?nodes")
    case True
    have all: "\<forall>x\<in>set ?nodes. lk x \<noteq> None"
      by (rule map_filter_all [OF True])
    have "map (?view \<circ> row_or_empty H lk) (enumerate 0 ?nodes) =
        map ?view (List.map_filter lk ?nodes)"
      unfolding map_filter_total [OF all]
    proof (rule nth_equalityI)
      fix k assume "k < length (map (?view \<circ> row_or_empty H lk) (enumerate 0 ?nodes))"
      then have k: "k < length ?nodes" by simp
      obtain r where "lk (?nodes ! k) = Some r"
        using all nth_mem [OF k] by blast
      then show "map (?view \<circ> row_or_empty H lk) (enumerate 0 ?nodes) ! k = map ?view (map (\<lambda>x. the (lk x)) ?nodes) ! k"
        using k by (simp add: nth_enumerate_eq row_or_empty_def)
    qed simp
    then show ?thesis
      using True by (simp add: get_proof_and_root_def rows node_list_to_view_def)
  next
    case False
    then show ?thesis
      using length_map_filter [of lk ?nodes]
      by (simp add: get_proof_and_root_def rows place fill Let_def)
  qed
qed

text \<open>
  The service by asset fills the list only when a row is missing; if all rows are there, it returns
  the default values.
\<close>

lemma get_proof_for_asset_eq:
  assumes leaf: "asset_leaf_rows db asset_id = leaf # others"
  defines "nodes \<equiv> get_required_nodes_for_proof (ci_node_idx leaf)"
  assumes rows: "das_rows (db_cl_items (in_index db)) (ci_tree leaf) nodes = List.map_filter lk nodes"
    and found: "rows_found lk nodes"
  shows "get_proof_for_asset H b58 db asset_id =
    (let hashes = (if \<forall>x\<in>set nodes. lk x \<noteq> None then replicate (length nodes) []
         else map (ci_hash \<circ> row_or_empty H lk) (enumerate 0 nodes))
     in Inr \<lparr>dp_root = b58 (last hashes), dp_leaf = b58 (ci_hash leaf), dp_proof = map b58 (butlast hashes),
       dp_node_index = ci_node_idx leaf, dp_tree_id = b58 (ci_tree leaf)\<rparr>)"
proof -
  note foundD = rows_foundD [OF found]
  have ne: "nodes \<noteq> []"
    unfolding nodes_def by (subst get_required_nodes_for_proof.simps) simp
  then have "length (enumerate 0 nodes) \<noteq> 0"
    by simp
  then have enum_ne: "enumerate 0 nodes \<noteq> []"
    by fastforce
  have view: "simple_log r \<noteq> default_log" if "x \<in> set nodes" "lk x = Some r" for x r
    using foundD(2) [OF that] by (auto simp: simple_log_def default_log_def)
  have place: "place_rows ci_level (List.map_filter lk nodes) (replicate (length nodes) default_log) simple_log =
      (Inr (map (\<lambda>x. case lk x of None \<Rightarrow> default_log | Some r \<Rightarrow> simple_log r) nodes) ::
        (DbErr, simple_change_log list) result)"
    using place_rows_eq [of nodes lk ci_level "[]" default_log simple_log] foundD(1) by simp
  have fill: "map (\<lambda>(i, n, nin). if n = default_log then simple_log (make_empty_node H i nin) else n)
      (enumerate 0 (zip (map (\<lambda>x. case lk x of None \<Rightarrow> default_log | Some r \<Rightarrow> simple_log r) nodes) nodes)) =
      map (simple_log \<circ> row_or_empty H lk) (enumerate 0 nodes)"
    by (rule trans, rule filled_rows, erule view, assumption, rule map_cong [OF refl])
      (auto simp: row_or_empty_def split: option.splits)
  have all: "length (List.map_filter lk nodes) = length nodes \<longleftrightarrow> (\<forall>x\<in>set nodes. lk x \<noteq> None)"
    using map_filter_all [of lk nodes] map_filter_total [of nodes lk] by auto
  show ?thesis
  proof (cases "\<forall>x\<in>set nodes. lk x \<noteq> None")
    case True
    then have "length (List.map_filter lk nodes) = length nodes" by (simp only: all)
    then show ?thesis
      using True ne unfolding get_proof_for_asset_def leaf list.case Let_def nodes_def [symmetric] rows
      by (simp add: default_log_def butlast_conv_take)
  next
    case False
    then have len: "length (List.map_filter lk nodes) \<noteq> length nodes" using all by blast
    show ?thesis
      unfolding get_proof_for_asset_def leaf list.case Let_def nodes_def [symmetric] rows if_P [OF len]
        place and_then_simps fill if_not_P [OF False]
      using enum_ne by (simp add: last_map map_butlast simple_log_def comp_def)
  qed
qed

end
