(* ===== verification/Indexer_Tree.thy ===== *)
theory Indexer_Tree
  imports Indexer_Queries
begin

text \<open>
  A tree emits its change logs in order (\<open>tree_log\<close>); a table that indexes them, in whatever order they
  were saved, answers with the proofs of the current tree.
\<close>

section \<open>The change logs of a tree\<close>

inductive tree_log :: "hashv \<Rightarrow> nat \<Rightarrow> pubkey \<Rightarrow> change_log_event list \<Rightarrow> leaves \<Rightarrow> bool" for H d t where
  first: "describes H d t ev 0 no_leaves \<Longrightarrow> tree_log H d t [ev] no_leaves"
| later: "tree_log H d t evs L \<Longrightarrow> describes H d t ev (length evs) (L(unat (ev_index ev) := x)) \<Longrightarrow>
    tree_log H d t (evs @ [ev]) (L(unat (ev_index ev) := x))"

lemma tree_log_described: "tree_log H d t evs L \<Longrightarrow> ev \<in> set evs \<Longrightarrow> described H d t ev"
  by (induction rule: tree_log.induct) (auto simp: described_def)

lemma tree_log_nonempty: "tree_log H d t evs L \<Longrightarrow> evs \<noteq> []"
  by (induction rule: tree_log.induct) auto

lemma tree_log_seq:
  "tree_log H d t evs L \<Longrightarrow> k < length evs \<Longrightarrow> sint (ev_seq (evs ! k)) = int k"
  by (induction rule: tree_log.induct) (auto simp: describes_def nth_append less_Suc_eq)

text \<open>
  A node that no change log but the first mentions is empty; the last change log that mentions it has
  its hash.
\<close>

lemma tree_log_untouched:
  "tree_log H d t evs L \<Longrightarrow> \<forall>ev\<in>set (tl evs). \<not> on_path ev l m \<Longrightarrow> node_at H l m L = node_at H l m no_leaves"
proof (induction rule: tree_log.induct)
  case (later evs L ev x)
  then show ?case
    using tree_log_nonempty [OF later.hyps(1)] by (subst node_at_upd_other) auto
qed simp

lemma nth_in_tl: "0 < k \<Longrightarrow> k < length xs \<Longrightarrow> xs ! k \<in> set (tl xs)"
  by (cases xs) (auto simp: nth_Cons')

lemma tree_log_last:
  "tree_log H d t evs L \<Longrightarrow> l \<le> d \<Longrightarrow> k < length evs \<Longrightarrow> on_path (evs ! k) l m \<Longrightarrow>
    \<forall>k'. k < k' \<and> k' < length evs \<longrightarrow> \<not> on_path (evs ! k') l m \<Longrightarrow>
    pn_node (ev_path (evs ! k) ! l) = node_at H l m L"
proof (induction rule: tree_log.induct)
  case (first ev)
  then show ?case by (auto simp: describes_def)
next
  case (later evs L ev x)
  show ?case
  proof (cases "k = length evs")
    case True
    then show ?thesis
      using later.hyps(2) later.prems by (auto simp: describes_def nth_append simp del: fun_upd_apply)
  next
    case False
    then have k: "k < length evs" using later.prems(2) by simp
    have other: "\<not> on_path ev l m"
      using later.prems(4) k by (auto dest: spec [of _ "length evs"])
    have rest: "\<forall>k'. k < k' \<and> k' < length evs \<longrightarrow> \<not> on_path (evs ! k') l m"
      using later.prems(4) by (auto simp: nth_append)
    have "pn_node (ev_path (evs ! k) ! l) = node_at H l m L"
      by (rule later.IH [OF later.prems(1) k _ rest]) (use later.prems(3) k in \<open>simp add: nth_append\<close>)
    then show ?thesis
      using k other by (subst node_at_upd_other) (auto simp: nth_append)
  qed
qed

section \<open>The index of the whole log\<close>

text \<open>
  The table indexes the change logs of the tree, all but possibly the first, which describes the empty
  tree.
\<close>

abbreviation nearly_all :: "change_log_event list \<Rightarrow> change_log_event set \<Rightarrow> bool" where
  "nearly_all evs E \<equiv> set (tl evs) \<subseteq> E \<and> E \<subseteq> set evs \<and> E \<noteq> {}"

text \<open>The row of every node: the current hash, or no row and an empty subtree.\<close>

lemma index_node:
  assumes log: "tree_log H d t evs L" and E: "nearly_all evs E" and ix: "indexes d t items E"
    and l: "l \<le> d" and m: "m < 2 ^ (d - l)"
  shows "case cl_lookup items t (node_number d l m) of
      None \<Rightarrow> node_at H l m L = node_at H l m no_leaves
    | Some r \<Rightarrow> ci_hash r = node_at H l m L \<and> ci_level r = int l \<and> ci_node_idx r = node_number d l m \<and>
        ci_leaf_idx r = (if l = 0 then Some (int m) else None) \<and>
        0 \<le> ci_seq r \<and> ci_seq r < int (length evs)"
proof (cases "cl_lookup items t (node_number d l m)")
  case None
  have "\<forall>ev\<in>set (tl evs). \<not> on_path ev l m"
    using indexesD(1) [OF ix l m None] E by blast
  from tree_log_untouched [OF log this] show ?thesis
    by (simp add: None)
next
  case (Some r)
  obtain ev where ev: "ev \<in> set evs" "on_path ev l m" "r = row_of ev l"
    "\<And>ev'. ev' \<in> E \<Longrightarrow> on_path ev' l m \<Longrightarrow> sint (ev_seq ev') \<le> sint (ev_seq ev)"
    using indexesD(2) [OF ix l m Some] E unfolding latest_row_def by blast
  obtain k where k: "k < length evs" "evs ! k = ev"
    using ev(1) by (auto simp: in_set_conv_nth)
  have "\<not> on_path (evs ! k') l m" if "k < k'" "k' < length evs" for k'
    using ev(4) [of "evs ! k'"] nth_in_tl [of k' evs] E tree_log_seq [OF log that(2)] tree_log_seq [OF log k(1)]
      that k(2) by auto
  then have hash: "pn_node (ev_path ev ! l) = node_at H l m L"
    using tree_log_last [OF log l k(1), of m] ev(2) k(2) by simp
  obtain s L' where d: "describes H d t ev s L'"
    using tree_log_described [OF log ev(1)] by (auto simp: described_def)
  have s: "int s = int k"
    using d tree_log_seq [OF log k(1)] k(2) by (simp add: describes_def)
  have leaf: "l = 0 \<Longrightarrow> unat (ev_index ev) = m"
    using ev(2) by simp
  have "pn_node (ev_path ev ! l) = node_at H l (unat (ev_index ev) div 2 ^ l) L'"
    using d l by (simp add: describes_def)
  then show ?thesis
    using hash s k(1) ev(2) leaf unfolding ev(3) Some option.case row_of_describes [OF d l]
    by simp
qed

text \<open>The root is on every path.\<close>

lemma index_root:
  assumes log: "tree_log H d t evs L" and E: "nearly_all evs E" and ix: "indexes d t items E"
  obtains r where "cl_lookup items t 1 = Some r" "ci_hash r = tree_root H d L" "ci_level r = int d"
    "ci_seq r = int (length evs - 1)"
proof -
  have one: "node_number d d 0 = 1" by (simp add: node_number_def)
  have root: "on_path ev d 0" if ev: "ev \<in> set evs" for ev
    using tree_log_described [OF log ev] by (auto simp: described_def describes_def)
  let ?k = "length evs - 1"
  have k: "?k < length evs" using tree_log_nonempty [OF log] by (cases evs) auto
  have last: "evs ! ?k \<in> set evs" using k by (rule nth_mem)
  have lastE: "evs ! ?k \<in> E"
  proof (cases "?k = 0")
    case True
    then have "set evs = {evs ! ?k}"
      using k by (cases evs) auto
    then have "E \<subseteq> {evs ! ?k}" "E \<noteq> {}"
      using E by simp_all
    then show ?thesis by blast
  next
    case False
    then show ?thesis
      using nth_in_tl [OF _ k] E by blast
  qed
  obtain r where r: "cl_lookup items t 1 = Some r"
    using indexesD(1) [OF ix, of d 0 "evs ! ?k"] lastE root [OF last] by (cases "cl_lookup items t 1") (auto simp: one)
  obtain ev where ev: "ev \<in> set evs" "r = row_of ev d"
    "\<And>ev'. ev' \<in> E \<Longrightarrow> on_path ev' d 0 \<Longrightarrow> sint (ev_seq ev') \<le> sint (ev_seq ev)"
  proof -
    have "latest_row E d 0 r"
      using indexesD(2) [OF ix, of d 0 r] r by (simp add: one)
    then show thesis
      using that E unfolding latest_row_def by blast
  qed
  obtain s L' where d: "describes H d t ev s L'"
    using tree_log_described [OF log ev(1)] by (auto simp: described_def)
  have "int ?k \<le> int s"
    using ev(3) [OF lastE root [OF last]] tree_log_seq [OF log k] d by (simp add: describes_def)
  moreover have nd: "ci_hash r = node_at H d 0 L" "ci_level r = int d" "ci_seq r < int (length evs)"
    using index_node [OF log E ix, of d 0] r by (simp_all add: one)
  moreover have "ci_seq r = int s"
    by (simp add: ev(2) row_of_describes [OF d])
  ultimately show ?thesis
    using that [OF r] k by (simp add: tree_root_def)
qed

section \<open>The nodes of a proof\<close>

lemma sibling_in_level:
  assumes "i < 2 ^ d" and "k < d"
  shows "sibling (i div 2 ^ k) < 2 ^ (d - k)"
proof -
  have "i div 2 ^ k < 2 ^ (d - k)"
    by (rule div_pow_less) (use assms in auto)
  moreover have e: "2 ^ (d - k) = (2 * 2 ^ (d - Suc k) :: nat)"
    using assms(2) by (simp flip: power_Suc add: Suc_diff_Suc)
  ultimately have "i div 2 ^ k < 2 * 2 ^ (d - Suc k)"
    by simp
  then show ?thesis
    unfolding e by (cases "even (i div 2 ^ k)") (auto simp: sibling_def elim!: evenE)
qed

lemma node_number_pos: "0 < node_number d l m"
  by (simp add: node_number_def add_pos_nonneg)

lemma node_number_less:
  assumes "k < k'" and "k' \<le> d" and "m' < 2 ^ (d - k')"
  shows "node_number d k' m' < node_number d k m"
proof -
  have "2 ^ Suc (d - k') \<le> (2 ^ (d - k) :: int)"
    by (rule power_increasing) (use assms(1,2) in auto)
  moreover have "int m' < int (2 ^ (d - k'))"
    using assms(3) by (simp only: of_nat_less_iff)
  ultimately show ?thesis
    unfolding node_number_def power_Suc of_nat_power of_nat_numeral by linarith
qed

abbreviation proof_nodes :: "nat \<Rightarrow> nat \<Rightarrow> int list" where
  "proof_nodes d i \<equiv> get_required_nodes_for_proof (node_number d 0 i)"

lemma proof_nodes_eq:
  assumes "i < 2 ^ d"
  shows "proof_nodes d i = map (\<lambda>k. node_number d k (if k < d then sibling (i div 2 ^ k) else 0)) [0..<Suc d]"
  using required_nodes [of i d 0] assms by (simp add: node_number_def)

lemma length_proof_nodes: "i < 2 ^ d \<Longrightarrow> length (proof_nodes d i) = Suc d"
  by (simp add: proof_nodes_eq)

lemma nth_proof_nodes:
  assumes "i < 2 ^ d" and "k \<le> d"
  shows "proof_nodes d i ! k = node_number d k (if k < d then sibling (i div 2 ^ k) else 0)"
    and "(if k < d then sibling (i div 2 ^ k) else 0) < 2 ^ (d - k)"
proof -
  show "proof_nodes d i ! k = node_number d k (if k < d then sibling (i div 2 ^ k) else 0)"
    unfolding proof_nodes_eq [OF assms(1)] using assms(2) by (subst nth_map) (simp_all del: upt_Suc)
  show "(if k < d then sibling (i div 2 ^ k) else 0) < 2 ^ (d - k)"
    using sibling_in_level [OF assms(1)] by simp
qed

lemma proof_nodes_sorted:
  assumes "i < 2 ^ d"
  shows "sorted_wrt (>) (proof_nodes d i)"
  unfolding sorted_wrt_iff_nth_less
  using node_number_less nth_proof_nodes [OF assms] by (simp add: length_proof_nodes [OF assms] less_Suc_eq_le)

lemma proof_nodes_positive:
  assumes "i < 2 ^ d"
  shows "0 \<notin> set (proof_nodes d i)"
proof
  assume "0 \<in> set (proof_nodes d i)"
  then obtain k where "0 = node_number d k (if k < d then sibling (i div 2 ^ k) else 0)"
    unfolding proof_nodes_eq [OF assms] by (auto simp del: upt_Suc)
  then show False
    using node_number_pos by (metis less_irrefl)
qed

section \<open>Rows of a unique table\<close>

lemma distinct_singleton:
  assumes "distinct xs" and "set xs = {r}"
  shows "xs = [r]"
proof (cases xs)
  case (Cons a ys)
  then have "a = r" "set ys \<subseteq> {r}" "r \<notin> set ys"
    using assms by auto
  then show ?thesis
    using Cons by (cases ys) auto
qed (use assms in simp)

lemma root_rows_eq:
  assumes u: "cl_unique items" and r: "cl_lookup items t 1 = Some r"
  shows "root_rows items t = [r]"
proof -
  let ?rs = "filter (\<lambda>r. ci_node_idx r = 1 \<and> ci_tree r = t) items"
  have "r' = r" if "r' \<in> set ?rs" for r'
    using cl_unique_lookup [OF u, of r'] that r by auto
  then have "set ?rs = {r}"
    using cl_lookup_SomeD [OF r] by auto
  moreover have "distinct ?rs"
    using u by (simp add: cl_unique_def distinct_map)
  ultimately have "?rs = [r]"
    by (intro distinct_singleton)
  then show ?thesis
    by (simp add: root_rows_def)
qed

lemma filtered_rows:
  assumes u: "cl_unique items" and nodes: "sorted_wrt (>) nodes"
    and ok: "\<And>x r. x \<in> set nodes \<Longrightarrow> cl_lookup items t x = Some r \<Longrightarrow> ok r"
    and rs: "set rs = {r \<in> set items. ci_node_idx r \<in> set nodes \<and> ci_tree r = t \<and> ok r}" and dist: "distinct rs"
  shows "distinct_on_node (sort_key (\<lambda>r. - ci_node_idx r) rs) = List.map_filter (cl_lookup items t) nodes"
proof (rule sorted_rows [OF _ _ _ nodes])
  fix r
  show "r \<in> set rs \<longleftrightarrow> (\<exists>x\<in>set nodes. cl_lookup items t x = Some r)"
    using cl_unique_lookup [OF u] cl_lookup_SomeD ok unfolding rs by blast
next
  have "inj_on ci_node_idx (set rs)"
  proof (rule inj_onI)
    fix r s assume "r \<in> set rs" "s \<in> set rs" "ci_node_idx r = ci_node_idx s"
    then show "r = s"
      using cl_unique_lookup [OF u, of r] cl_unique_lookup [OF u, of s] by (simp add: rs)
  qed
  then show "distinct (map ci_node_idx rs)"
    using dist by (simp add: distinct_map)
qed (use cl_lookup_SomeD in blast)

lemma distinct_rows: "cl_unique items \<Longrightarrow> distinct (filter P items)"
  by (simp add: cl_unique_def distinct_map)

section \<open>Proofs from the index\<close>

text \<open>A table that holds the log of a tree.\<close>

definition holds_log ::
  "hashv \<Rightarrow> nat \<Rightarrow> pubkey \<Rightarrow> cl_item list \<Rightarrow> change_log_event list \<Rightarrow> change_log_event set \<Rightarrow> leaves \<Rightarrow> bool"
where
  "holds_log H d t items evs E L \<longleftrightarrow>
     tree_log H d t evs L \<and> nearly_all evs E \<and> indexes d t items E \<and> cl_unique items"

lemma saved_log_held:
  assumes log: "tree_log H d t evs L" and evs': "nearly_all evs {e \<in> set evs'. ev_id e = t}"
  shows "holds_log H d t (fold saved evs' []) evs {e \<in> set evs'. ev_id e = t} L"
proof -
  have "indexes d t (fold saved evs' []) ({} \<union> {e \<in> set evs'. ev_id e = t})"
    by (rule indexes_fold [OF indexes_empty]) (use tree_log_described [OF log] evs' in auto)
  then show ?thesis
    using log evs' cl_unique_fold [of "[]" evs'] by (simp add: holds_log_def cl_unique_def)
qed

lemma held_node:
  assumes h: "holds_log H d t items evs E L" and i: "i < 2 ^ d" and k: "k \<le> d"
  shows "case cl_lookup items t (proof_nodes d i ! k) of
      None \<Rightarrow> empty_node H k = (proof_at H d L i @ [tree_root H d L]) ! k
    | Some r \<Rightarrow> ci_hash r = (proof_at H d L i @ [tree_root H d L]) ! k \<and> ci_level r = int k \<and>
        ci_node_idx r = proof_nodes d i ! k \<and> ci_seq r < int (length evs)"
proof -
  let ?m = "if k < d then sibling (i div 2 ^ k) else 0"
  have "(proof_at H d L i @ [tree_root H d L]) ! k = node_at H k ?m L"
    using k by (auto simp: nth_append nth_proof_at tree_root_def)
  moreover have "node_at H k ?m no_leaves = empty_node H k"
    by (rule empty_node_eq [symmetric])
  ultimately show ?thesis
    using index_node [of H d t evs L E items k ?m] h k nth_proof_nodes [OF i k]
    by (auto simp: holds_log_def split: option.splits)
qed

lemma held_found:
  assumes h: "holds_log H d t items evs E L" and i: "i < 2 ^ d"
  shows "rows_found (cl_lookup items t) (proof_nodes d i)"
  unfolding rows_found_def
proof (intro conjI allI impI)
  fix k r assume "k < length (proof_nodes d i)" "cl_lookup items t (proof_nodes d i ! k) = Some r"
  then show "ci_level r = int k" "ci_node_idx r = proof_nodes d i ! k"
    using held_node [OF h i, of k] by (simp_all add: length_proof_nodes [OF i])
qed (rule proof_nodes_positive [OF i])

lemma held_hashes:
  assumes h: "holds_log H d t items evs E L" and i: "i < 2 ^ d"
  shows "map (ci_hash \<circ> row_or_empty H (cl_lookup items t)) (enumerate 0 (proof_nodes d i)) =
    proof_at H d L i @ [tree_root H d L]"
proof (rule nth_equalityI)
  show "length (map (ci_hash \<circ> row_or_empty H (cl_lookup items t)) (enumerate 0 (proof_nodes d i))) =
      length (proof_at H d L i @ [tree_root H d L])"
    by (simp add: length_proof_nodes [OF i])
  fix k assume "k < length (map (ci_hash \<circ> row_or_empty H (cl_lookup items t)) (enumerate 0 (proof_nodes d i)))"
  then have "k \<le> d" by (simp add: length_proof_nodes [OF i])
  then show "map (ci_hash \<circ> row_or_empty H (cl_lookup items t)) (enumerate 0 (proof_nodes d i)) ! k =
      (proof_at H d L i @ [tree_root H d L]) ! k"
    using held_node [OF h i, of k]
    by (simp add: nth_enumerate_eq length_proof_nodes [OF i] row_or_empty_def make_empty_node_def
        split: option.splits)
qed

lemma held_proof_rows:
  assumes h: "holds_log H d t items evs E L" and i: "i < 2 ^ d"
  shows "proof_rows items t (proof_nodes d i) = List.map_filter (cl_lookup items t) (proof_nodes d i)"
proof -
  have u: "cl_unique items" and log: "tree_log H d t evs L" and E: "nearly_all evs E" and ix: "indexes d t items E"
    using h by (auto simp: holds_log_def)
  obtain r where r: "cl_lookup items t 1 = Some r" "ci_seq r = int (length evs - 1)"
    by (rule index_root [OF log E ix])
  have "ci_seq s \<le> ci_seq r" if s: "x \<in> set (proof_nodes d i)" "cl_lookup items t x = Some s" for x s
  proof -
    obtain k where "k \<le> d" "x = proof_nodes d i ! k"
      using s(1) by (auto simp: in_set_conv_nth length_proof_nodes [OF i] less_Suc_eq_le)
    then show ?thesis
      using held_node [OF h i, of k] s(2) r(2) by auto
  qed
  then show ?thesis
    unfolding proof_rows_def root_rows_eq [OF u r(1)]
    by (intro filtered_rows [OF u proof_nodes_sorted [OF i], where ok = "\<lambda>s. ci_seq s \<le> ci_seq r"])
      (auto simp: distinct_rows [OF u])
qed

lemma held_das_rows:
  assumes h: "holds_log H d t items evs E L" and i: "i < 2 ^ d"
  shows "das_rows items t (proof_nodes d i) = List.map_filter (cl_lookup items t) (proof_nodes d i)"
proof -
  have u: "cl_unique items"
    using h by (simp add: holds_log_def)
  show ?thesis
    unfolding das_rows_def
    by (intro filtered_rows [OF u proof_nodes_sorted [OF i], where ok = "\<lambda>s. True"])
      (auto simp: distinct_rows [OF u])
qed

text \<open>The proof served by tree and leaf is the proof in the current tree.\<close>

lemma served_proof:
  assumes h: "holds_log H d t items evs E L" and i: "i < 2 ^ d" and d: "d < 32"
  shows "handle_get_asset_proof H b58 items (Some leaf) t (int i) =
    Inr \<lparr>ap_root = b58 (tree_root H d L), ap_hash = leaf, ap_proof = map b58 (proof_at H d L i)\<rparr>"
proof -
  have u: "cl_unique items" and log: "tree_log H d t evs L" and E: "nearly_all evs E" and ix: "indexes d t items E"
    using h by (auto simp: holds_log_def)
  obtain r where r: "cl_lookup items t 1 = Some r" "ci_level r = int d"
    by (rule index_root [OF log E ix])
  have "d < 2 ^ 32" using d by simp
  then have "unat (word_of_int (int d) :: u32) = d"
    by (simp add: unat_of_nat)
  then have height: "get_height items t = Inr (word_of_nat d)" "unat (word_of_nat d :: u32) = d"
    by (simp_all add: get_height_def root_rows_eq [OF u r(1)] r(2))
  have node: "leaf_idx_to_node_idx (int i) d = node_number d 0 i"
    by (simp add: leaf_idx_to_node_idx_def node_number_def)
  have hash: "map nv_hash (map (node_to_view b58 \<circ> row_or_empty H (cl_lookup items t)) (enumerate 0 (proof_nodes d i))) =
      map b58 (proof_at H d L i @ [tree_root H d L])"
    unfolding held_hashes [OF h i, symmetric] by (simp add: node_to_view_def comp_def)
  show ?thesis
    unfolding handle_get_asset_proof_def height(1) sum.case Let_def height(2) node
      get_proof_and_root_eq [OF held_proof_rows [OF h i] held_found [OF h i]] and_then_simps hash
    by simp
qed

end
