(* ===== verification/Indexer_Run.thy ===== *)
theory Indexer_Run
  imports Indexer_Tree Gummyroll_Events
begin

text \<open>
  The indexer beside a Gummyroll account: the events of every run are a \<open>tree_log\<close>, so a table into
  which they were all saved serves the proofs that the account accepts.
\<close>

lemma sint_of_small:
  assumes "unat w < 2 ^ 63"
  shows "sint (w :: u64) = int (unat w)"
proof -
  have "int (unat w) < int (2 ^ 63)"
    using assms by (simp only: of_nat_less_iff)
  then have u: "uint w < 2 ^ 63"
    by (simp only: uint_nat of_nat_power of_nat_numeral)
  have "signed_take_bit 63 (uint w) = uint w"
    by (rule signed_take_bit_int_eq_self [OF _ u]) (rule order_trans [OF _ uint_ge_0], simp)
  then have "sint w = uint w"
    by (simp add: sint_uint)
  then show ?thesis
    by (simp only: uint_nat)
qed

lemma gr_logged_tree_log:
  assumes "gr_logged H tree_id acc L evs" and nz: "hash_nonzero H" and "length evs \<le> 2 ^ 63"
  shows "\<exists>hist. gummyroll_inv H acc hist \<and> hist ! 0 = L \<and> tree_log H (gr_depth acc) tree_id evs L \<and>
    unat (sequence_number (gr_roll acc)) = length evs - 1"
  using assms(1,3)
proof (induction rule: gr_logged.induct)
  case (init auth append_auth clock_slot max_depth max_buffer_size data_len ev acc)
  note inv = init_empty_gummyroll_inv(1) [OF init(1,2) nz]
  note e = init_event [OF init(1,2) nz]
  have "describes H (gr_depth acc) tree_id ev 0 no_leaves"
    using e(1) by (auto simp: describes_def)
  then have "tree_log H (gr_depth acc) tree_id [ev] no_leaves"
    by (rule tree_log.first)
  then show ?case
    using inv e(2) by (intro exI [of _ "[no_leaves]"]) simp
next
  case (step acc L evs instr ev acc')
  have "length evs \<le> 2 ^ 63"
    using step.prems by simp
  then obtain hist where inv: "gummyroll_inv H acc hist" and L: "hist ! 0 = L"
    and log: "tree_log H (gr_depth acc) tree_id evs L"
    and seq: "unat (sequence_number (gr_roll acc)) = length evs - 1"
    using step.IH by blast
  have coll: "\<not> gr_instr_collides H acc (hist ! 0) instr"
    using step.hyps(3) unfolding L .
  have next_inv: "\<exists>hist'. gummyroll_inv H acc' hist' \<and> hist' ! 0 = indexed_event ev L"
    using gr_exec_simulates [OF inv step.hyps(2) coll] by (simp only: L)
  have depth: "gr_depth acc' = gr_depth acc"
    by (rule gr_exec_depth [OF inv step.hyps(2) coll])
  show ?case
  proof (cases ev)
    case None
    then show ?thesis
      using next_inv gr_exec_silent [OF inv _ coll, of tree_id acc'] step.hyps(2) log seq depth by auto
  next
    case (Some e)
    note ok = step.hyps(2) [unfolded Some]
    note p = gr_event_path [OF inv ok coll]
    have n: "0 < length evs" "Suc (length evs) \<le> 2 ^ 63"
      using tree_log_nonempty [OF log] step.prems Some by auto
    have "unat (sequence_number (gr_roll acc)) + unat (1 :: u64) < 2 ^ 64"
      using seq n by simp
    then have s: "unat (ev_seq e) = length evs"
      using p(1) seq n by (simp add: saturating_add_def unat_word_ariths)
    then have "sint (ev_seq e) = int (length evs)"
      using n(2) by (simp add: sint_of_small)
    then have "describes H (gr_depth acc) tree_id e (length evs)
        (L(unat (ev_index e) := pn_node (ev_path e ! 0)))"
      unfolding describes_def using p(1) [unfolded L indexed_event.simps] by blast
    from tree_log.later [OF log this] have "tree_log H (gr_depth acc') tree_id (evs @ [e]) (indexed_event ev L)"
      unfolding Some indexed_event.simps depth .
    moreover have "unat (sequence_number (gr_roll acc')) = length (evs @ [e]) - 1"
      using s unfolding p(2) by simp
    ultimately show ?thesis
      using next_inv unfolding Some option.case by blast
  qed
qed

end
