(* ===== verification/Node_Service.thy ===== *)
theory Node_Service
  imports Indexer_Tree
begin

text \<open>
  The other requests of \<open>nft_api/src/main.rs\<close>: the root and the nodes of a tree, and assets. The
  queries for assets join \<open>cl_items\<close> with the tables \<open>app_specific\<close> and \<open>app_specific_ownership\<close>, which
  neither \<open>init.sql\<close> creates nor the indexer writes; their rows are arguments here. Rows that a query
  leaves in an unspecified order keep the order of the tables.
\<close>

section \<open>Roots and nodes\<close>

definition handle_get_root :: "(node \<Rightarrow> string) \<Rightarrow> cl_item list \<Rightarrow> pubkey \<Rightarrow> (ApiError, string) result" where
  "handle_get_root b58 items tree_id = get_root b58 items tree_id"

text \<open>\<open>distinct on (node_idx) ... order by node_idx, seq, level desc\<close>.\<close>

definition tree_rows_by_node :: "cl_item list \<Rightarrow> pubkey \<Rightarrow> cl_item list" where
  "tree_rows_by_node items tree_id =
     distinct_on_node (sort_key ci_node_idx (sort_key ci_seq (sort_key (\<lambda>r. - ci_level r)
       (filter (\<lambda>r. ci_tree r = tree_id) items))))"

definition handle_get_tree :: "(node \<Rightarrow> string) \<Rightarrow> cl_item list \<Rightarrow> pubkey \<Rightarrow> node_view list" where
  "handle_get_tree b58 items tree_id = node_list_to_view b58 (tree_rows_by_node items tree_id)"

section \<open>Assets\<close>

record app_row =
  app_msg :: string
  app_owner :: pubkey
  app_tree_id :: pubkey
  app_leaf :: node

record app_ownership_row =
  own_tree_id :: pubkey
  own_authority :: pubkey

record asset_dao =
  ao_data :: string
  ao_index :: int
  ao_owner :: pubkey
  ao_tree :: pubkey
  ao_admin :: pubkey
  ao_hash :: node
  ao_level :: int

record asset_view =
  av_data :: string
  av_index :: int
  av_owner :: string
  av_tree_account :: string
  av_tree_admin :: string
  av_hash :: string

definition api_node_idx_to_leaf_idx :: "int \<Rightarrow> nat \<Rightarrow> int" where
  "api_node_idx_to_leaf_idx index tree_height = index - 2 ^ tree_height"

definition asset_to_view :: "(node \<Rightarrow> string) \<Rightarrow> asset_dao \<Rightarrow> asset_view" where
  "asset_to_view b58 r =
     \<lparr>av_data = ao_data r,
      av_index = api_node_idx_to_leaf_idx (ao_index r) (unat (word_of_int (ao_level r) :: u32)),
      av_owner = b58 (ao_owner r), av_tree_account = b58 (ao_tree r),
      av_tree_admin = b58 (ao_admin r), av_hash = b58 (ao_hash r)\<rparr>"

definition asset_list_to_view :: "(node \<Rightarrow> string) \<Rightarrow> asset_dao list \<Rightarrow> asset_view list" where
  "asset_list_to_view b58 items = map (asset_to_view b58) items"

text \<open>The joined rows, each with its sequence number, and their groups with the maximal one.\<close>

definition joined_assets ::
  "app_row list \<Rightarrow> app_ownership_row list \<Rightarrow> cl_item list \<Rightarrow> (asset_dao \<times> int) list" where
  "joined_assets apps owns items =
     concat (map (\<lambda>a.
       concat (map (\<lambda>c.
         concat (map (\<lambda>aso.
           map (\<lambda>c2. (\<lparr>ao_data = app_msg a, ao_index = ci_node_idx c, ao_owner = app_owner a,
               ao_tree = app_tree_id a, ao_admin = own_authority aso, ao_hash = app_leaf a,
               ao_level = ci_level c2\<rparr>, ci_seq c))
             (filter (\<lambda>c2. ci_tree c2 = ci_tree c \<and> ci_node_idx c2 = 1) items))
           (filter (\<lambda>aso. own_tree_id aso = app_tree_id a) owns)))
         (filter (\<lambda>c. ci_tree c = app_tree_id a \<and> ci_hash c = app_leaf a) items)))
       apps)"

definition grouped_by_seq :: "(asset_dao \<times> int) list \<Rightarrow> asset_dao list" where
  "grouped_by_seq rows =
     sort_key (\<lambda>r. Max (snd ` set (filter (\<lambda>s. fst s = r) rows))) (remdups (map fst rows))"

definition get_asset_by_node ::
  "(node \<Rightarrow> string) \<Rightarrow> app_row list \<Rightarrow> app_ownership_row list \<Rightarrow> cl_item list \<Rightarrow> pubkey \<Rightarrow> int \<Rightarrow>
   (ApiError, asset_view) result" where
  "get_asset_by_node b58 apps owns items tree_id node_idx =
     (case grouped_by_seq (filter (\<lambda>(r, _). ao_tree r = tree_id \<and> ao_index r = node_idx)
         (joined_assets apps owns items)) of
        [] \<Rightarrow> Inl (Err (ResponseError ''no rows''))
      | r # _ \<Rightarrow> Inr (asset_to_view b58 r))"

definition handle_get_asset ::
  "(node \<Rightarrow> string) \<Rightarrow> app_row list \<Rightarrow> app_ownership_row list \<Rightarrow> cl_item list \<Rightarrow> pubkey \<Rightarrow> int \<Rightarrow>
   (ApiError, asset_view) result" where
  "handle_get_asset b58 apps owns items tree_id leaf_idx =
     (case get_height items tree_id of
        Inl _ \<Rightarrow> Inl Panic
      | Inr tree_height \<Rightarrow>
          get_asset_by_node b58 apps owns items tree_id
            (leaf_idx_to_node_idx leaf_idx (unat tree_height)))"

definition handler_get_assets_for_owner ::
  "(node \<Rightarrow> string) \<Rightarrow> app_row list \<Rightarrow> app_ownership_row list \<Rightarrow> cl_item list \<Rightarrow> pubkey \<Rightarrow>
   asset_view list" where
  "handler_get_assets_for_owner b58 apps owns items owner =
     asset_list_to_view b58 (grouped_by_seq (filter (\<lambda>(r, _). ao_owner r = owner)
       (joined_assets apps owns items)))"

section \<open>The nodes of a tree\<close>

text \<open>
  A table with one row per node gives every node of the tree once, in ascending order: the root
  first, then level by level.
\<close>

lemma tree_rows_by_node_spec:
  assumes u: "cl_unique items"
  shows "set (tree_rows_by_node items t) = {r \<in> set items. ci_tree r = t}"
    and "sorted_wrt (<) (map ci_node_idx (tree_rows_by_node items t))"
proof -
  let ?rs = "filter (\<lambda>r. ci_tree r = t) items"
  let ?sorted = "sort_key ci_node_idx (sort_key ci_seq (sort_key (\<lambda>r. - ci_level r) ?rs))"
  have "inj_on ci_node_idx (set ?rs)"
    using u by (auto simp: inj_on_def cl_unique_def distinct_map)
  then have dist: "distinct (map ci_node_idx ?sorted)"
    using distinct_rows [OF u] by (simp add: distinct_map)
  then have eq: "tree_rows_by_node items t = ?sorted"
    by (simp add: tree_rows_by_node_def distinct_on_node_id)
  show "set (tree_rows_by_node items t) = {r \<in> set items. ci_tree r = t}"
    unfolding eq by auto
  show "sorted_wrt (<) (map ci_node_idx (tree_rows_by_node items t))"
    unfolding eq using dist by (simp add: strict_sorted_iff)
qed

text \<open>
  From a table that holds the log of a tree, each node comes with its hash in the current tree and
  its level; a node that is missing is an empty subtree, and the root is never missing.
\<close>

lemma served_tree:
  assumes held: "holds_log H d t items evs E L"
    and rows: "\<And>r. r \<in> set items \<Longrightarrow> ci_tree r = t \<Longrightarrow>
      \<exists>l\<le>d. \<exists>m<2 ^ (d - l). ci_node_idx r = node_number d l m"
  shows "sorted_wrt (<) (map nv_index (handle_get_tree b58 items t))"
    and "v \<in> set (handle_get_tree b58 items t) \<Longrightarrow> \<exists>l\<le>d. \<exists>m<2 ^ (d - l).
      nv_index v = node_number d l m \<and> nv_level v = int l \<and> nv_hash v = b58 (node_at H l m L)"
    and "l \<le> d \<Longrightarrow> m < 2 ^ (d - l) \<Longrightarrow> node_number d l m \<notin> nv_index ` set (handle_get_tree b58 items t) \<Longrightarrow>
      l < d \<and> node_at H l m L = node_at H l m no_leaves"
    and "handle_get_root b58 items t = Inr (b58 (tree_root H d L))"
proof -
  have u: "cl_unique items" and log: "tree_log H d t evs L" and E: "nearly_all evs E"
    and ix: "indexes d t items E"
    using held by (auto simp: holds_log_def)
  note spec = tree_rows_by_node_spec [OF u, of t]
  have views: "set (handle_get_tree b58 items t) = node_to_view b58 ` {r \<in> set items. ci_tree r = t}"
    by (simp add: handle_get_tree_def node_list_to_view_def spec(1))
  have "map nv_index (handle_get_tree b58 items t) = map ci_node_idx (tree_rows_by_node items t)"
    by (simp add: handle_get_tree_def node_list_to_view_def node_to_view_def)
  then show "sorted_wrt (<) (map nv_index (handle_get_tree b58 items t))"
    using spec(2) by simp
  show "\<exists>l\<le>d. \<exists>m<2 ^ (d - l).
      nv_index v = node_number d l m \<and> nv_level v = int l \<and> nv_hash v = b58 (node_at H l m L)"
    if v: "v \<in> set (handle_get_tree b58 items t)"
  proof -
    obtain r where r: "r \<in> set items" "ci_tree r = t" "v = node_to_view b58 r"
      using v unfolding views by blast
    obtain l m where lm: "l \<le> d" "m < 2 ^ (d - l)" "ci_node_idx r = node_number d l m"
      using rows [OF r(1,2)] by blast
    have "cl_lookup items t (node_number d l m) = Some r"
      using cl_unique_lookup [OF u r(1)] by (simp add: r(2) lm(3))
    then show ?thesis
      using index_node [OF log E ix lm(1,2)] lm r(3) by (auto simp: node_to_view_def)
  qed
  obtain r where root: "cl_lookup items t 1 = Some r" "ci_hash r = tree_root H d L"
    by (rule index_root [OF log E ix])
  show "handle_get_root b58 items t = Inr (b58 (tree_root H d L))"
    by (simp add: handle_get_root_def get_root_def root_rows_eq [OF u root(1)] root(2))
  show "l < d \<and> node_at H l m L = node_at H l m no_leaves"
    if l: "l \<le> d" and m: "m < 2 ^ (d - l)"
      and missing: "node_number d l m \<notin> nv_index ` set (handle_get_tree b58 items t)"
  proof -
    have none: "cl_lookup items t (node_number d l m) = None"
      using missing unfolding views cl_lookup_None by (force simp: node_to_view_def)
    then have "l \<noteq> d"
      using root(1) m by (auto simp: node_number_def)
    then show ?thesis
      using index_node [OF log E ix l m] none l by simp
  qed
qed

section \<open>The asset of a leaf\<close>

lemma in_joined_assets:
  "x \<in> set (joined_assets apps owns items) \<longleftrightarrow>
    (\<exists>a\<in>set apps. \<exists>c\<in>{c \<in> set items. ci_tree c = app_tree_id a \<and> ci_hash c = app_leaf a}.
      \<exists>aso\<in>{aso \<in> set owns. own_tree_id aso = app_tree_id a}.
      \<exists>c2\<in>{c2 \<in> set items. ci_tree c2 = ci_tree c \<and> ci_node_idx c2 = 1}.
      x = (\<lparr>ao_data = app_msg a, ao_index = ci_node_idx c, ao_owner = app_owner a,
        ao_tree = app_tree_id a, ao_admin = own_authority aso, ao_hash = app_leaf a,
        ao_level = ci_level c2\<rparr>, ci_seq c))"
  by (simp only: joined_assets_def set_concat set_map UN_simps UN_iff image_iff set_filter)

text \<open>
  If the tables of the applications have one row for the leaf and one authority for the tree, the
  request for leaf \<open>i\<close> returns this row with the index of the leaf.
\<close>

lemma served_asset:
  assumes held: "holds_log H d t items evs E L" and i: "i < 2 ^ d" and d: "d < 32"
    and leaf: "cl_lookup items t (node_number d 0 i) = Some c"
    and app: "filter (\<lambda>a. app_tree_id a = t \<and> app_leaf a = L i) apps = [a]"
    and own: "filter (\<lambda>o'. own_tree_id o' = t) owns = [o']"
  shows "handle_get_asset b58 apps owns items t (int i) =
    Inr \<lparr>av_data = app_msg a, av_index = int i, av_owner = b58 (app_owner a), av_tree_account = b58 t,
      av_tree_admin = b58 (own_authority o'), av_hash = b58 (L i)\<rparr>"
proof -
  have u: "cl_unique items" and log: "tree_log H d t evs L" and E: "nearly_all evs E"
    and ix: "indexes d t items E"
    using held by (auto simp: holds_log_def)
  obtain r where root: "cl_lookup items t 1 = Some r" "ci_level r = int d"
    by (rule index_root [OF log E ix])
  have c: "ci_hash c = L i" "ci_node_idx c = node_number d 0 i" "c \<in> set items" "ci_tree c = t"
    using index_node [OF log E ix, of 0 i] i leaf cl_lookup_SomeD [OF leaf] by auto
  have height: "get_height items t = Inr (word_of_int (int d))"
    by (simp add: get_height_def root_rows_eq [OF u root(1)] root(2))
  have "d < 2 ^ 32"
    using d by simp
  then have unat_d: "unat (of_nat d :: u32) = d"
    by (simp add: unat_of_nat)
  define dao where "dao = \<lparr>ao_data = app_msg a, ao_index = node_number d 0 i, ao_owner = app_owner a,
      ao_tree = t, ao_admin = own_authority o', ao_hash = L i, ao_level = int d\<rparr>"
  have a: "app_tree_id a = t" "app_leaf a = L i" "a \<in> set apps"
    using app by (auto simp: filter_eq_Cons_iff)
  have o': "own_tree_id o' = t" "o' \<in> set owns"
    using own by (auto simp: filter_eq_Cons_iff)
  let ?rows = "filter (\<lambda>(r, _). ao_tree r = t \<and> ao_index r = node_number d 0 i)
    (joined_assets apps owns items)"
  have only: "x = (dao, ci_seq c)" if x: "x \<in> set ?rows" for x
  proof -
    obtain a' c' aso c2 where *: "a' \<in> set apps" "c' \<in> set items" "aso \<in> set owns" "c2 \<in> set items"
      "ci_tree c' = app_tree_id a'" "ci_hash c' = app_leaf a'" "own_tree_id aso = app_tree_id a'"
      "ci_tree c2 = ci_tree c'" "ci_node_idx c2 = 1"
      and x': "x = (\<lparr>ao_data = app_msg a', ao_index = ci_node_idx c', ao_owner = app_owner a',
          ao_tree = app_tree_id a', ao_admin = own_authority aso, ao_hash = app_leaf a',
          ao_level = ci_level c2\<rparr>, ci_seq c')"
      using x unfolding set_filter mem_Collect_eq in_joined_assets by blast
    have t': "app_tree_id a' = t" and n': "ci_node_idx c' = node_number d 0 i"
      using x by (simp_all add: x')
    have "c' = c"
      using cl_unique_lookup [OF u *(2)] leaf *(5) t' n' by simp
    moreover have "c2 = r"
      using cl_unique_lookup [OF u *(4)] root(1) *(5,8,9) t' by simp
    moreover have "a' \<in> set (filter (\<lambda>a. app_tree_id a = t \<and> app_leaf a = L i) apps)"
      using *(1,6) t' c(1) calculation(1) by simp
    then have "a' = a"
      unfolding app by simp
    moreover have "aso \<in> set (filter (\<lambda>o'. own_tree_id o' = t) owns)"
      using *(3,7) t' by simp
    then have "aso = o'"
      unfolding own by simp
    ultimately show ?thesis
      using x' c(2) root(2) a by (simp add: dao_def)
  qed
  have "(dao, ci_seq c) \<in> set (joined_assets apps owns items)"
    unfolding in_joined_assets
    by (rule bexI [of _ a], rule bexI [of _ c], rule bexI [of _ o'], rule bexI [of _ r])
      (use a o' c cl_lookup_SomeD [OF root(1)] root(2) in \<open>simp_all add: dao_def\<close>)
  then have "(dao, ci_seq c) \<in> set ?rows"
    by (simp add: dao_def)
  then have "set ?rows = {(dao, ci_seq c)}"
    using only by blast
  then have "set (map fst ?rows) = {dao}"
    by (simp only: set_map image_insert image_empty fst_conv)
  then have "remdups (map fst ?rows) = [dao]"
    by (intro distinct_singleton [OF distinct_remdups]) (simp only: set_remdups)
  then have "get_asset_by_node b58 apps owns items t (node_number d 0 i) = Inr (asset_to_view b58 dao)"
    unfolding get_asset_by_node_def grouped_by_seq_def by simp
  then show ?thesis
    by (simp add: handle_get_asset_def height unat_d leaf_idx_to_node_idx_def node_number_def
        asset_to_view_def dao_def api_node_idx_to_leaf_idx_def add.commute)
qed

end
