(* ===== verification/Indexer_Props.thy ===== *)
theory Indexer_Props
  imports Indexer_Run Node_Service Gummyroll_Props
begin

text \<open>
  The properties of the indexer. Batches of change logs (of any trees, in any order, with
  repetitions) are saved with their slots; the hypothesis on them is that the change logs of the tree
  are those it emitted, all of them.
\<close>

abbreviation delivered :: "pubkey \<Rightarrow> (change_log_event list \<times> u64) list \<Rightarrow> change_log_event set" where
  "delivered t batches \<equiv> {e \<in> set (concat (map fst batches)). ev_id e = t}"

lemma delivered_held:
  assumes "gr_logged H t acc L evs" and "hash_nonzero H" and "length evs \<le> 2 ^ 63"
    and "nearly_all evs (delivered t batches)"
  shows "\<exists>hist. gummyroll_inv H acc hist \<and> hist ! 0 = L \<and>
    holds_log H (gr_depth acc) t (db_cl_items (saved_batches batches empty_db)) evs (delivered t batches) L"
proof -
  obtain hist where "gummyroll_inv H acc hist" "hist ! 0 = L" "tree_log H (gr_depth acc) t evs L"
    using gr_logged_tree_log [OF assms(1-3)] by blast
  moreover from saved_log_held [OF this(3) assms(4)]
  have "holds_log H (gr_depth acc) t (db_cl_items (saved_batches batches empty_db)) evs (delivered t batches) L"
    by (simp add: saved_batches_items empty_db_def)
  ultimately show ?thesis by blast
qed

section \<open>A small index\<close>

lemma toy_logged:
  obtains acc ev0 ev1 where "gr_logged toy_hash [1] acc ((\<lambda>_. EMPTY)(0 := [7])) [ev0, ev1]"
    "gr_depth acc = 3" "ev_id ev0 = [1]" "ev_id ev1 = [1]" "next_leaf (gr_roll acc) = 1"
    "unat (ev_index ev0) = 0" "unat (ev_index ev1) = 0" "hd_authority (gr_header acc) = [2]"
proof -
  obtain ev0 acc0 where i: "init_empty_gummyroll toy_hash [1] [2] [3] 0 3 8 (Zeroed 1392) = Inr (ev0, acc0)"
    using toy_account by blast
  have small: "(1392 :: nat) < 2 ^ 32" by simp
  note inv = init_empty_gummyroll_inv [OF i small toy_hash_nonzero] and e0 = init_event [OF i small toy_hash_nonzero]
  have d: "gr_depth acc0 = 3" using inv(5) by simp
  obtain ev1 acc1 where a: "gummyroll_append toy_hash [1] [2] [3] [7] acc0 = Inr (ev1, acc1)"
    using gummyroll_append_ok [OF inv(1,3,4), of "[7]" "[1]"] inv(2) d by auto
  then have x: "gr_exec toy_hash [1] (AppendLeaf [2] [3] [7]) acc0 = Inr (Some ev1, acc1)"
    by simp
  have c: "\<not> gr_instr_collides toy_hash acc0 ([no_leaves] ! 0) (AppendLeaf [2] [3] [7])"
    by simp
  have com: "committed toy_hash [1] [no_leaves] 0 [7] acc0 ev1 acc1"
    using gummyroll_append_ok [OF inv(1,3,4), of "[7]" "[1]"] inv(2) d a by auto
  have abs: "gr_abs acc1 (indexed_event (Some ev1) no_leaves) = (no_leaves(0 := [7]), 1, [2], [3])"
    using committed_spec(2) [OF com inv(1)] inv(2,3,4) by (simp add: gr_abs_def)
  have w: "wrote toy_hash (gr_depth acc0) (gr_buffer acc0) [no_leaves] 0 [7] (gr_roll acc0) (gr_roll acc1)"
    and ev1: "ev1 = change_log_event_from (get_change_log (gr_roll acc1)) [1] (sequence_number (gr_roll acc1))"
    using com by (auto simp: committed_def)
  have "gr_logged toy_hash [1] acc1 (indexed_event (Some ev1) no_leaves) ([ev0] @ [ev1])"
    using gr_logged.step [OF gr_logged.init [OF i small] x] by simp
  then have "gr_logged toy_hash [1] acc1 (no_leaves(0 := [7])) [ev0, ev1]"
    using abs by (simp add: gr_abs_def)
  then show thesis
    by (rule that)
      (use abs e0(1) wroteD(4) [OF w] gr_exec_depth [OF inv(1) x c] d in
        \<open>auto simp: gr_abs_def ev1 change_log_event_from_def Let_def\<close>)
qed

section \<open>Proofs by tree and leaf\<close>

text \<open>
  However the change logs of a tree reach the index, once all of them are saved (but possibly the
  first, for the empty tree) the served proof is the proof in the current tree, and it is accepted.
\<close>

lemma saved_proof_accepted:
  fixes acc :: gummyroll_account
  defines "d \<equiv> gr_depth acc" and "root \<equiv> cl_root (get_change_log (gr_roll acc))"
  assumes "gr_logged H tree_id acc L evs" and "hash_nonzero H" and "length evs \<le> 2 ^ 63"
    and "nearly_all evs (delivered tree_id batches)"
    and "unat i < 2 ^ d" and "unat i \<le> next_leaf (gr_roll acc)"
  shows "\<exists>pv ev acc'.
    handle_get_asset_proof H b58 (db_cl_items (saved_batches batches empty_db)) (Some leaf) tree_id (int (unat i)) =
      Inr \<lparr>ap_root = b58 root, ap_hash = leaf, ap_proof = map b58 pv\<rparr> \<and>
    root = tree_root H d L \<and> pv = proof_at H d L (unat i) \<and>
    replace_leaf H tree_id (hd_authority (gr_header acc)) root (L (unat i)) x i (take (d - cached_len acc) pv) acc =
      Inr (ev, acc')"
proof -
  obtain hist where inv: "gummyroll_inv H acc hist" and L: "hist ! 0 = L"
    and held: "holds_log H d tree_id (db_cl_items (saved_batches batches empty_db)) evs
    (delivered tree_id batches) L"
    using delivered_held [OF assms(3-6)] unfolding d_def by blast
  note invD = gummyroll_invD [OF inv]
  have root: "root = tree_root H d L"
    using current_root [of H d "gr_buffer acc" "gr_roll acc" hist] invD(3)
    by (simp add: roll_inv_def root_def d_def L)
  have "d < 32" using invD(6) by (simp add: d_def)
  have proof_ok: "handle_get_asset_proof H b58 (db_cl_items (saved_batches batches empty_db)) (Some leaf) tree_id
      (int (unat i)) = Inr \<lparr>ap_root = b58 root, ap_hash = leaf, ap_proof = map b58 (proof_at H d L (unat i))\<rparr>"
    unfolding root by (rule served_proof [OF held assms(7) \<open>d < 32\<close>])
  have "hist \<noteq> []"
    using roll_inv_history [OF invD(3)] by simp
  then have "latest H d hist 0" by (rule latest_0)
  from replace_leaf_complete [OF inv _ assms(8) refl this [unfolded d_def], of tree_id x]
  obtain ev acc' where "replace_leaf H tree_id (hd_authority (gr_header acc)) root (L (unat i)) x i
      (take (d - cached_len acc) (proof_at H d L (unat i))) acc = Inr (ev, acc')"
    using assms(7) unfolding L root d_def by auto
  with proof_ok root show ?thesis by blast
qed

section \<open>Proofs by asset\<close>

text \<open>The rows of a tree stand at the numbers of its nodes.\<close>

lemma save_path_keys:
  "r \<in> set (save_path filling ev depth i ps items) \<Longrightarrow>
    (ci_tree r, ci_node_idx r) \<in> (\<lambda>r. (ci_tree r, ci_node_idx r)) ` set items \<union>
      (\<lambda>p. (ev_id ev, uint (pn_index p))) ` set ps"
proof (induction ps arbitrary: i items)
  case (Cons p ps)
  let ?key = "\<lambda>r. (ci_tree r, ci_node_idx r)" and ?it = "cl_item_of ev depth i p"
  have up: "?key ` set (upsert_cl_item filling ?it items) \<subseteq> insert (?key ?it) (?key ` set items)"
    by (auto simp: upsert_cl_item_def)
  have "?key r \<in> ?key ` set (upsert_cl_item filling ?it items) \<union> (\<lambda>p. (ev_id ev, uint (pn_index p))) ` set ps"
    by (rule Cons.IH) (use Cons.prems in simp)
  then have "?key r \<in> insert (?key ?it) (?key ` set items) \<union> (\<lambda>p. (ev_id ev, uint (pn_index p))) ` set ps"
    using up by blast
  then show ?case
    unfolding cl_item_of_keys by auto
qed simp

lemma tree_rows:
  assumes "\<And>e. e \<in> set evs \<Longrightarrow> ev_id e = t \<Longrightarrow> described H d t e"
    and "r \<in> set (fold saved evs items)" and "ci_tree r = t"
    and "\<And>r. r \<in> set items \<Longrightarrow> ci_tree r = t \<Longrightarrow> \<exists>l\<le>d. \<exists>m<2 ^ (d - l). ci_node_idx r = node_number d l m"
  shows "\<exists>l\<le>d. \<exists>m<2 ^ (d - l). ci_node_idx r = node_number d l m"
  using assms
proof (induction evs arbitrary: items)
  case (Cons ev evs)
  have "\<exists>l\<le>d. \<exists>m<2 ^ (d - l). ci_node_idx r = node_number d l m"
    if r: "r \<in> set (saved ev items)" "ci_tree r = t" for r
  proof -
    consider (old) r' where "r' \<in> set items" "ci_tree r' = t" "ci_node_idx r' = ci_node_idx r"
      | (path) p where "p \<in> set (ev_path ev)" "ev_id ev = t" "ci_node_idx r = uint (pn_index p)"
      using save_path_keys [OF r(1) [unfolded saved_def]] r(2) by auto
    then show ?thesis
    proof cases
      case old
      then show ?thesis using Cons.prems(4) by metis
    next
      case path
      then obtain s L where dsc: "describes H d t ev s L"
        using Cons.prems(1) [of ev] by (auto simp: described_def)
      then have len: "length (ev_path ev) = Suc d" "unat (ev_index ev) < 2 ^ d"
        and num: "\<And>l. l \<le> d \<Longrightarrow> unat (pn_index (ev_path ev ! l)) = 2 ^ (d - l) + unat (ev_index ev) div 2 ^ l"
        by (auto simp: describes_def)
      obtain l where "l < length (ev_path ev)" "ev_path ev ! l = p"
        using path(1) by (auto simp: in_set_conv_nth)
      then have l: "l \<le> d" "p = ev_path ev ! l"
        using len(1) by auto
      have "ci_node_idx r = node_number d l (unat (ev_index ev) div 2 ^ l)"
        unfolding path(3) l(2) uint_nat num [OF l(1)] by (simp add: node_number_int)
      then show ?thesis
        using l(1) div_pow_less [OF len(2) l(1)] by blast
    qed
  qed
  then show ?case
    using Cons.IH [of "saved ev items"] Cons.prems by simp
qed auto

text \<open>The row of the asset's leaf.\<close>

lemma asset_leaf_row:
  assumes held: "holds_log H d t (db_cl_items (in_index db)) evs E L"
    and rows: "\<And>r. r \<in> set (db_cl_items (in_index db)) \<Longrightarrow> ci_tree r = t \<Longrightarrow>
      \<exists>l\<le>d. \<exists>m<2 ^ (d - l). ci_node_idx r = node_number d l m"
    and asset: "filter (\<lambda>a. as_id a = asset_id) (in_assets db) = [a]" "as_tree_id a = Some t" "as_nonce a = int i"
    and i: "i < 2 ^ d" and leaf: "cl_lookup (db_cl_items (in_index db)) t (node_number d 0 i) = Some leaf"
  shows "asset_leaf_rows db asset_id = [leaf]"
proof -
  let ?items = "db_cl_items (in_index db)"
  let ?P = "\<lambda>r. ci_level r = 0 \<and> list_ex (\<lambda>a. as_id a = asset_id \<and> as_tree_id a = Some (ci_tree r) \<and>
    ci_leaf_idx r = Some (as_nonce a)) (in_assets db)"
  have u: "cl_unique ?items" and log: "tree_log H d t evs L" and E: "nearly_all evs E" and ix: "indexes d t ?items E"
    using held by (auto simp: holds_log_def)
  have "{b \<in> set (in_assets db). as_id b = asset_id} = {a}"
    using arg_cong [OF asset(1), of set] by simp
  then have only: "b \<in> set (in_assets db) \<and> as_id b = asset_id \<longleftrightarrow> b = a" for b
    by blast
  have P: "?P r \<longleftrightarrow> ci_level r = 0 \<and> ci_tree r = t \<and> ci_leaf_idx r = Some (int i)" for r
    using only asset(2,3) unfolding list_ex_iff by (metis option.inject)
  have leafD: "leaf \<in> set ?items" "ci_tree leaf = t" "ci_level leaf = 0" "ci_leaf_idx leaf = Some (int i)"
    using cl_lookup_SomeD [OF leaf] index_node [OF log E ix, of 0 i] i leaf by auto
  have "r = leaf" if r: "r \<in> set ?items" "ci_level r = 0" "ci_tree r = t" "ci_leaf_idx r = Some (int i)" for r
  proof -
    obtain l m where lm: "l \<le> d" "m < 2 ^ (d - l)" "ci_node_idx r = node_number d l m"
      using rows [OF r(1,3)] by blast
    have lk: "cl_lookup ?items t (node_number d l m) = Some r"
      using cl_unique_lookup [OF u r(1)] by (simp add: r(3) lm(3))
    then have "l = 0 \<and> m = i"
      using index_node [OF log E ix lm(1,2)] r(2,4) by (auto split: if_splits)
    then show ?thesis
      using lk leaf by simp
  qed
  then have "set (filter ?P ?items) = {leaf}"
    using leafD unfolding set_filter P by blast
  then have "filter ?P ?items = [leaf]"
    by (rule distinct_singleton [OF distinct_rows [OF u]])
  then show ?thesis
    unfolding asset_leaf_rows_def by simp
qed

text \<open>
  The node at height \<open>k\<close> of a proof has a row if some change log went through it; the root always
  has one.
\<close>

lemma proof_row_iff:
  assumes held: "holds_log H d t items evs (set evs) L"
    and ev: "ev \<in> set evs" "unat (ev_index ev) = i" and i: "i < 2 ^ d" and k: "k \<le> d"
  shows "cl_lookup items t (proof_nodes d i ! k) \<noteq> None \<longleftrightarrow>
    k = d \<or> (\<exists>ev\<in>set evs. unat (ev_index ev) div 2 ^ k = sibling (i div 2 ^ k))"
proof (cases "k = d")
  case True
  have "indexes d t items (set evs)"
    using held by (simp add: holds_log_def)
  then show ?thesis
    using indexesD(1) [of d t items "set evs" d 0 ev] ev i nth_proof_nodes(1) [OF i, of d] True by auto
next
  case False
  have ix: "indexes d t items (set evs)"
    using held by (simp add: holds_log_def)
  note n = nth_proof_nodes [OF i k]
  show ?thesis
  proof (cases "cl_lookup items t (proof_nodes d i ! k)")
    case None
    then show ?thesis
      using indexesD(1) [OF ix k, of "sibling (i div 2 ^ k)"] n False k by auto
  next
    case (Some r)
    then have "latest_row (set evs) k (sibling (i div 2 ^ k)) r"
      using indexesD(2) [OF ix k, of "sibling (i div 2 ^ k)" r] n False k by simp
    then show ?thesis
      using Some by (auto simp: latest_row_def)
  qed
qed

lemma proof_complete_iff:
  assumes "holds_log H d t items evs (set evs) L"
    and "ev \<in> set evs" and "unat (ev_index ev) = i" and i: "i < 2 ^ d"
  shows "(\<forall>x\<in>set (proof_nodes d i). cl_lookup items t x \<noteq> None) \<longleftrightarrow>
    (\<forall>k<d. \<exists>ev\<in>set evs. unat (ev_index ev) div 2 ^ k = sibling (i div 2 ^ k))"
proof -
  have "(\<forall>x\<in>set (proof_nodes d i). cl_lookup items t x \<noteq> None) \<longleftrightarrow>
      (\<forall>k\<le>d. cl_lookup items t (proof_nodes d i ! k) \<noteq> None)"
    unfolding all_set_conv_all_nth length_proof_nodes [OF i] less_Suc_eq_le ..
  then show ?thesis
    using proof_row_iff [OF assms] by (metis le_neq_implies_less less_imp_le less_irrefl)
qed

text \<open>The rows of the tree after the batches were saved are numbered by its nodes.\<close>

lemma saved_rows:
  assumes "tree_log H d t evs L" and "delivered t batches = set evs"
    and "r \<in> set (db_cl_items (saved_batches batches empty_db))" and "ci_tree r = t"
  shows "\<exists>l\<le>d. \<exists>m<2 ^ (d - l). ci_node_idx r = node_number d l m"
proof -
  have "described H d t e" if "e \<in> set (concat (map fst batches))" "ev_id e = t" for e
    by (rule tree_log_described [OF assms(1)]) (use assms(2) that in blast)
  then show ?thesis
    using tree_rows [of "concat (map fst batches)" t H d r "[]"] assms(3,4)
    by (simp add: saved_batches_items empty_db_def)
qed

text \<open>
  The service of nodes: once the change logs of a tree are saved, it returns the root stored on chain
  and, in ascending order, nodes of the current tree; those it leaves out are empty subtrees.
\<close>

lemma saved_tree_served:
  fixes acc :: gummyroll_account and b58 :: "node \<Rightarrow> string"
  defines "d \<equiv> gr_depth acc"
  assumes "gr_logged H t acc L evs" and "hash_nonzero H" and "length evs \<le> 2 ^ 63"
    and "delivered t batches = set evs" and "evs \<noteq> []"
  defines "views \<equiv> handle_get_tree b58 (db_cl_items (saved_batches batches empty_db)) t"
  shows "handle_get_root b58 (db_cl_items (saved_batches batches empty_db)) t =
      Inr (b58 (cl_root (get_change_log (gr_roll acc))))"
    and "sorted_wrt (<) (map nv_index views)"
    and "v \<in> set views \<Longrightarrow> \<exists>l\<le>d. \<exists>m<2 ^ (d - l).
      nv_index v = node_number d l m \<and> nv_level v = int l \<and> nv_hash v = b58 (node_at H l m L)"
    and "l \<le> d \<Longrightarrow> m < 2 ^ (d - l) \<Longrightarrow> node_number d l m \<notin> nv_index ` set views \<Longrightarrow>
      l < d \<and> node_at H l m L = node_at H l m no_leaves"
proof -
  have all: "nearly_all evs (delivered t batches)"
    unfolding assms(5) using assms(6) by (auto dest: list.set_sel(2))
  obtain hist where inv: "gummyroll_inv H acc hist" and L: "hist ! 0 = L"
    and held: "holds_log H d t (db_cl_items (saved_batches batches empty_db)) evs (set evs) L"
    using delivered_held [OF assms(2-4) all] unfolding d_def assms(5) by blast
  have log: "tree_log H d t evs L"
    using held by (simp add: holds_log_def)
  note served = served_tree [OF held saved_rows [OF log assms(5)]]
  have "cl_root (get_change_log (gr_roll acc)) = tree_root H d L"
    using current_root [of H d "gr_buffer acc" "gr_roll acc" hist] gummyroll_invD(3) [OF inv]
    by (simp add: roll_inv_def d_def L)
  then show "handle_get_root b58 (db_cl_items (saved_batches batches empty_db)) t =
      Inr (b58 (cl_root (get_change_log (gr_roll acc))))"
    using served(4) [of b58] by simp
  show "sorted_wrt (<) (map nv_index views)"
    unfolding views_def by (rule served(1))
  show "v \<in> set views \<Longrightarrow> \<exists>l\<le>d. \<exists>m<2 ^ (d - l).
      nv_index v = node_number d l m \<and> nv_level v = int l \<and> nv_hash v = b58 (node_at H l m L)"
    unfolding views_def by (rule served(2))
  show "l \<le> d \<Longrightarrow> m < 2 ^ (d - l) \<Longrightarrow> node_number d l m \<notin> nv_index ` set views \<Longrightarrow>
      l < d \<and> node_at H l m L = node_at H l m no_leaves"
    unfolding views_def by (rule served(3))
qed

text \<open>
  C37. The service that looks proofs up by asset gives the current proof only as long as some node
  of it was never written (so that it has no row): from the moment all siblings have rows it returns
  the default values, an empty string for the root and for every node.
\<close>

theorem das_proof_blank_when_complete:
  fixes acc :: gummyroll_account
  defines "d \<equiv> gr_depth acc" and "root \<equiv> cl_root (get_change_log (gr_roll acc))"
  assumes "gr_logged H t acc L evs" and "hash_nonzero H" and "length evs \<le> 2 ^ 63"
    and "delivered t batches = set evs" and "in_index db = saved_batches batches empty_db"
    and "filter (\<lambda>a. as_id a = asset_id) (in_assets db) = [a]" and "as_tree_id a = Some t" and "as_nonce a = int i"
    and "\<exists>ev\<in>set evs. unat (ev_index ev) = i"
  defines "complete \<equiv> \<forall>k<d. \<exists>ev\<in>set evs. unat (ev_index ev) div 2 ^ k = sibling (i div 2 ^ k)"
  shows "\<exists>r. get_proof_for_asset H b58 db asset_id = Inr r \<and> dp_leaf r = b58 (L i) \<and>
    dp_root r = b58 (if complete then [] else root) \<and>
    dp_proof r = map b58 (if complete then replicate d [] else proof_at H d L i)"
proof -
  let ?items = "db_cl_items (in_index db)" and ?lk = "cl_lookup (db_cl_items (in_index db)) t"
  have "evs \<noteq> []"
    using assms(11) by auto
  then have all: "nearly_all evs (delivered t batches)"
    unfolding assms(6) by (auto dest: list.set_sel(2))
  obtain hist where inv: "gummyroll_inv H acc hist" and L: "hist ! 0 = L" and held: "holds_log H d t ?items evs (set evs) L"
    using delivered_held [OF assms(3-5) all] unfolding d_def assms(6,7) by blast
  have log: "tree_log H d t evs L" and E: "nearly_all evs (set evs)" and ix: "indexes d t ?items (set evs)"
    using held by (auto simp: holds_log_def)
  have root: "root = tree_root H d L"
    using current_root [of H d "gr_buffer acc" "gr_roll acc" hist] gummyroll_invD(3) [OF inv]
    by (simp add: roll_inv_def root_def d_def L)
  obtain ev where ev: "ev \<in> set evs" "unat (ev_index ev) = i"
    using assms(11) by blast
  then have i: "i < 2 ^ d"
    using tree_log_described [OF log ev(1)] by (auto simp: described_def describes_def)
  obtain leaf where leaf: "?lk (node_number d 0 i) = Some leaf"
    using indexesD(1) [OF ix, of 0 i ev] ev i by (cases "?lk (node_number d 0 i)") auto
  have leafD: "ci_hash leaf = L i" "ci_node_idx leaf = node_number d 0 i" "ci_tree leaf = t"
    using index_node [OF log E ix, of 0 i] i leaf cl_lookup_SomeD [OF leaf] by auto
  have rows: "\<exists>l\<le>d. \<exists>m<2 ^ (d - l). ci_node_idx r = node_number d l m"
    if "r \<in> set ?items" "ci_tree r = t" for r
    using saved_rows [OF log assms(6)] that assms(7) by simp
  note leaf_rows = asset_leaf_row [OF held rows assms(8-10) i leaf]
  have complete: "(\<forall>x\<in>set (proof_nodes d i). ?lk x \<noteq> None) \<longleftrightarrow> complete"
    using proof_complete_iff [OF held ev i] unfolding complete_def .
  have result: "get_proof_for_asset H b58 db asset_id =
      (let hashes = (if complete then replicate (Suc d) [] else proof_at H d L i @ [tree_root H d L])
       in Inr \<lparr>dp_root = b58 (last hashes), dp_leaf = b58 (L i), dp_proof = map b58 (butlast hashes),
         dp_node_index = node_number d 0 i, dp_tree_id = b58 t\<rparr>)"
    using get_proof_for_asset_eq [OF leaf_rows, of ?lk H b58] held_das_rows [OF held i] held_found [OF held i]
    unfolding leafD complete length_proof_nodes [OF i] held_hashes [OF held i] by blast
  show ?thesis
    unfolding result root
    by (cases complete) (simp_all add: Let_def butlast_conv_take take_replicate del: replicate_Suc)
qed

definition toy_asset :: asset_row where
  "toy_asset = \<lparr>as_id = [5], as_specification_version = 1, as_owner = [2], as_owner_type = OwnerSingle,
     as_delegate = None, as_frozen = False, as_supply = 1, as_supply_mint = None, as_compressed = True,
     as_compressible = False, as_tree_id = Some [1], as_leaf = Some [7], as_nonce = 0,
     as_royalty_target_type = RoyaltyCreators, as_royalty_target = None, as_royalty_amount = 0,
     as_chain_data_id = None, as_burnt = False\<rparr>"

theorem das_proof_blank_when_complete_witness:
  "\<exists>(db :: ingest_db) (acc :: gummyroll_account) r. in_assets db = [toy_asset] \<and> get_proof_for_asset toy_hash (map (\<lambda>b. CHR ''x'')) db [5] = Inr r \<and>
    dp_leaf r = ''x'' \<and> dp_root r = map (\<lambda>b. CHR ''x'') (cl_root (get_change_log (gr_roll acc))) \<and>
    length (dp_proof r) = 3"
proof -
  obtain acc ev0 ev1 where t: "gr_logged toy_hash [1] acc ((\<lambda>_. EMPTY)(0 := [7])) [ev0, ev1]" "gr_depth acc = 3"
    "ev_id ev0 = [1]" "ev_id ev1 = [1]" "unat (ev_index ev0) = 0" "unat (ev_index ev1) = 0"
    by (rule toy_logged)
  have del: "delivered [1] [([ev1, ev0], 9)] = set [ev0, ev1]"
    using t(3,4) by auto
  define db where "db = \<lparr>in_index = saved_batches [([ev1, ev0], 9)] empty_db, in_assets = [toy_asset],
    in_asset_data = [], in_asset_data_next_id = 1, in_creators = [], in_authorities = [], in_groupings = []\<rparr>"
  have index: "in_index db = saved_batches [([ev1, ev0], 9)] empty_db"
    and asset: "filter (\<lambda>a. as_id a = [5]) (in_assets db) = [toy_asset]" "as_tree_id toy_asset = Some [1]"
      "as_nonce toy_asset = int 0"
    by (simp_all add: db_def toy_asset_def)
  have incomplete: "\<not> (\<forall>k<gr_depth acc. \<exists>ev\<in>set [ev0, ev1]. unat (ev_index ev) div 2 ^ k = sibling (0 div 2 ^ k))"
    using t(2,5,6) by (auto simp: sibling_def intro!: exI [of _ 0])
  obtain r where r: "get_proof_for_asset toy_hash (map (\<lambda>b. CHR ''x'')) db [5] = Inr r"
    "dp_leaf r = map (\<lambda>b. CHR ''x'') (((\<lambda>_. EMPTY)(0 := [7])) 0)"
    "dp_root r = map (\<lambda>b. CHR ''x'') (cl_root (get_change_log (gr_roll acc)))"
    "dp_proof r = map (map (\<lambda>b. CHR ''x'')) (proof_at toy_hash (gr_depth acc) ((\<lambda>_. EMPTY)(0 := [7])) 0)"
    using das_proof_blank_when_complete [OF t(1) toy_hash_nonzero _ del index asset, of "map (\<lambda>b. CHR ''x'')"]
      t(5) unfolding if_not_P [OF incomplete] by auto
  show ?thesis
    by (rule exI [of _ db], rule exI [of _ acc], rule exI [of _ r]) (use r t(2) in \<open>simp add: db_def\<close>)
qed

end
