(* ===== verification/Indexer_Stream_Props.thy ===== *)
theory Indexer_Stream_Props
  imports Indexer_Stream_Run Indexer_Props
begin

text \<open>
  The properties of the indexer's stream: on the logs the runtime writes it ends with an index whose
  proofs the programs accept, and one log line of any program can stop it.
\<close>

section \<open>From the stream to an accepted proof\<close>

definition toy_ingest_env :: "change_log_event \<Rightarrow> ingest_env" where
  "toy_ingest_env ev = \<lparr>ie_hashv = toy_hash,
     ie_decoders = \<lparr>de_capture = (\<lambda>l. if l = ''event'' then Some l else None), de_change_log = (\<lambda>_. Inr ev),
       de_leaf_schema = (\<lambda>_. Inl (Err NotImplemented)), de_decompression = (\<lambda>_. Inl (Err NotImplemented)),
       de_mint_v1 = (\<lambda>_. None), de_pubkey_string = (\<lambda>_. '''')\<rparr>,
     ie_b58 = (\<lambda>s. if s = ''G'' then Some (replicate 32 7) else if s = ''B'' then Some (replicate 32 8) else None),
     ie_bubblegum_id = replicate 32 8, ie_gummyroll_id = replicate 32 7\<rparr>"

definition toy_call :: "nat \<Rightarrow> compiled_instruction" where
  "toy_call k = \<lparr>cx_program_id_index = k, cx_data = None, cx_accounts = None\<rparr>"

definition toy_keys :: "nat \<Rightarrow> pubkey" where
  "toy_keys k = (if k = 0 then replicate 32 7 else replicate 32 9)"

definition toy_tx :: "compiled_instruction list \<Rightarrow> string list \<Rightarrow> transaction_info" where
  "toy_tx outer logs = \<lparr>ti_account_keys = Some toy_keys, ti_outer_instructions = Some outer,
     ti_inner_instructions = None, ti_log_messages = Some logs, ti_slot = 5\<rparr>"

definition toy_ingester :: ingester where
  "toy_ingester = \<lparr>ig_db = \<lparr>in_index = empty_db, in_assets = [], in_asset_data = [], in_asset_data_next_id = 1,
     in_creators = [], in_authorities = [], in_groupings = []\<rparr>, ig_tasks = [], ig_running = True\<rparr>"

lemma toy_invokes: "invokes (toy_ingest_env ev) (replicate 32 7) ''Program G invoke [1]''"
  using invokesI(1) [of "''G''" "toy_ingest_env ev" "replicate 32 7" "[]"] by (simp add: toy_ingest_env_def word_char_def digit_char_def)




section \<open>A forged log line\<close>

lemma parse_prefix:
  "(parse_log_lines E logs (acc @ [(k, ls, l)]) :: (unit, (pubkey \<times> string list \<times> u8) list) result) = Inr r \<Longrightarrow>
    \<exists>ls' r'. r = acc @ (k, ls', l) # r'"
proof (induction logs arbitrary: acc k ls l)
  case (Cons log logs)
  obtain cap where cap: "(parse_invoke E log :: (unit, (pubkey \<times> u8) option) result) = Inr cap"
    using Cons.prems by (auto simp: result_simps)
  consider (start) k' where "cap = Some (k', 1)" | (line) "ordinary E log"
    using cap by (auto simp: ordinary_def)
  then show ?case
  proof cases
    case start
    have "\<exists>ls' r'. r = (acc @ [(k, ls, l)]) @ (k', ls', 1) # r'"
      by (rule Cons.IH) (use Cons.prems cap start in simp)
    then show ?thesis by auto
  next
    case line
    show ?thesis
      by (rule Cons.IH) (use Cons.prems parse_ordinary [OF line, of logs acc k ls l] in simp)
  qed
qed auto

lemma misaligned_message:
  assumes "ti_account_keys tx = Some keys" and "ti_outer_instructions tx = Some (i1 # i2 # outer)"
    and "ti_log_messages tx = Some (head # body @ forged # rest)"
    and "invokes E k1 head" and "list_all (ordinary E) body" and "invokes E q forged" and "program_of keys i2 \<noteq> q"
  shows "\<not> ig_running (handle_message E manager (Some tx) st)"
proof (cases "and_then (order_instructions tx) (\<lambda>instructions.
    and_then (parse_logs E (ti_log_messages tx)) (\<lambda>parsed_logs. Inr (zip instructions parsed_logs)))")
  case (Inl e)
  then show ?thesis
    by (simp add: handle_message_def assms(1))
next
  case (Inr pairs)
  then obtain ixs logs where ixs: "(order_instructions tx :: (unit, (ix_pair \<times> ix_pair list option) list) result) = Inr ixs"
    and logs: "parse_logs E (ti_log_messages tx) = Inr logs" and pairs: "pairs = zip ixs logs"
    by (auto simp: result_simps)
  have "(parse_log_lines E (forged # rest) ([] @ [(k1, body, 1)]) :: (unit, (pubkey \<times> string list \<times> u8) list) result) =
      Inr logs"
    using logs parse_block [OF assms(4,5), of "forged # rest" "[]"] by (simp add: parse_logs_def assms(3))
  then have "(parse_log_lines E rest ([(k1, body, 1)] @ [(q, [], 1)]) ::
      (unit, (pubkey \<times> string list \<times> u8) list) result) = Inr logs"
    unfolding parse_invoked [OF assms(6)] by simp
  then obtain ls logs' where l: "logs = (k1, body, 1) # (q, ls, 1) # logs'"
    using parse_prefix by fastforce
  obtain inner1 inner2 ixs' where "ixs = ((program_of keys i1, i1), inner1) # ((program_of keys i2, i2), inner2) # ixs'"
    using ixs by (auto simp: order_instructions_def assms(1,2) result_simps)
  then show ?thesis
    using Inr assms(7) by (simp add: handle_message_def assms(1) pairs l Let_def)
qed

text \<open>
  C36. Programs log messages of their own, which appear as \<open>Program log: \<close> and the message. A message
  that reads like the start of a program at level 1 makes the logs one entry too long: if another
  instruction, of a program other than the one named, follows in the transaction, the loop panics.
  Nothing that arrives afterwards is indexed any more.
\<close>

theorem forged_log_stops_ingester:
  assumes "ti_account_keys tx = Some keys" and "ti_outer_instructions tx = Some (i1 # i2 # outer)"
    and "ti_log_messages tx = Some (head # body @ (''Program log: Program '' @ name @ '' invoke [1]'' @ s) # rest)"
    and "invokes E k1 head" and "list_all (ordinary E) body"
    and "list_all word_char name" and "ie_b58 E name = Some q" and "length q = 32" and "program_of keys i2 \<noteq> q"
  shows "\<not> ig_running (service_transaction_stream E (Some (Some tx # more_data) # later) st) \<and>
    service_transaction_stream E (Some (Some tx # more_data) # later) st =
      service_transaction_stream E [Some [Some tx]] st"
  using misaligned_message [OF assms(1-5) invokesI(2) [OF assms(6-8)] assms(9), of "setup_manager E Map.empty" st]
  by (simp add: Let_def)

theorem forged_log_stops_ingester_witness:
  "\<forall>ev. \<not> ig_running (service_transaction_stream (toy_ingest_env ev)
     [Some [Some (toy_tx [toy_call 0, toy_call 1] [''Program G invoke [1]'', ''Program log: Program B invoke [1]''])]]
     toy_ingester)"
proof (rule allI)
  fix ev :: change_log_event
  let ?tx = "toy_tx [toy_call 0, toy_call 1] [''Program G invoke [1]'', ''Program log: Program B invoke [1]'']"
  have "ti_account_keys ?tx = Some toy_keys" "ti_outer_instructions ?tx = Some [toy_call 0, toy_call 1]"
    "ti_log_messages ?tx = Some (''Program G invoke [1]'' # [] @
      (''Program log: Program '' @ ''B'' @ '' invoke [1]'' @ []) # [])"
    by (simp_all add: toy_tx_def)
  from forged_log_stops_ingester [OF this toy_invokes [of ev] _ _ _ _ , of "replicate 32 8"]
  show "\<not> ig_running (service_transaction_stream (toy_ingest_env ev) [Some [Some ?tx]] toy_ingester)"
    by (simp add: word_char_def digit_char_def toy_ingest_env_def toy_keys_def toy_call_def)
qed

end
