(* ===== verification/Asset_Props.thy ===== *)
theory Asset_Props
  imports Asset_Tables Indexer_Stream_Props
begin

text \<open>The properties of the asset tables and of the service that describes an asset.\<close>

text \<open>
  C38. The tables stay well-formed: whatever messages arrive and whatever the background tasks
  download, asset ids, data ids and the references between them stay unique, data ids stay below the
  next one, no row refers to a missing row, and so every asset is found by its id with its own data.
\<close>

theorem tables_stay_well_formed:
  fixes E :: ingest_env and recvs :: "transaction_info option list option list" and fetch :: "string \<Rightarrow> string option"
  assumes "tables_ok (ig_db st)"
  defines "final \<equiv> service_transaction_stream E recvs st"
  defines "db \<equiv> run_tasks fetch (ig_tasks final) (ig_db final)"
  shows "tables_ok (ig_db final) \<and> tables_ok db \<and>
    (\<forall>a\<in>set (in_assets db). \<exists>d. find_asset_and_data db (as_id a) = Inr (a, d))"
proof -
  have final: "tables_ok (ig_db final)"
    unfolding final_def by (rule service_stream_tables [OF assms(1)])
  then have db: "tables_ok db"
    unfolding db_def by (rule run_tasks_tables)
  have "\<exists>d. find_asset_and_data db (as_id a) = Inr (a, d)" if "a \<in> set (in_assets db)" for a
    by (rule find_asset_and_data_ok [OF db that]) blast
  with final db show ?thesis by blast
qed

theorem tables_stay_well_formed_witness:
  "\<forall>ev. tables_ok (ig_db (service_transaction_stream (toy_ingest_env ev)
     [Some [Some (toy_tx [toy_call 0] [''Program G invoke [1]'', ''event''])]] toy_ingester))"
proof (rule allI)
  fix ev :: change_log_event
  have "tables_ok (ig_db toy_ingester)"
    by (simp add: toy_ingester_def tables_ok_def keys_ok_def referred_ids_def)
  from tables_stay_well_formed [OF this]
  show "tables_ok (ig_db (service_transaction_stream (toy_ingest_env ev)
     [Some [Some (toy_tx [toy_call 0] [''Program G invoke [1]'', ''event''])]] toy_ingester))"
    by blast
qed

section \<open>From a mint to the description of the asset\<close>

definition toy_nft :: metadata_args where
  "toy_nft = \<lparr>ma_name = ''a'', ma_symbol = ''b'', ma_uri = ''c'', ma_seller_fee_basis_points = 500,
     ma_primary_sale_happened = False, ma_is_mutable = True, ma_edition_nonce = None, ma_token_standard = None,
     ma_collection = None, ma_uses = None, ma_token_program_version = Original, ma_creators = []\<rparr>"

definition toy_nft_leaf :: leaf_schema where
  "toy_nft_leaf = LeafV1 [5] [1] [1] 0 [6] [7]"

definition toy_decoders :: decoders where
  "toy_decoders = \<lparr>de_capture = Some, de_change_log = (\<lambda>_. Inl (Err ChangeLogEventMalformed)),
     de_leaf_schema = (\<lambda>_. Inr (leaf_to_event toy_hash toy_nft_leaf)), de_decompression = (\<lambda>_. Inl (Err NotImplemented)),
     de_mint_v1 = (\<lambda>_. Some toy_nft), de_pubkey_string = (\<lambda>_. '''')\<rparr>"

definition toy_mint :: compiled_instruction where
  "toy_mint = \<lparr>cx_program_id_index = 0, cx_data = Some [], cx_accounts = Some [0, 0, 0, 0, 1, 1, 2]\<rparr>"

definition toy_content_env :: content_env where
  "toy_content_env = \<lparr>ce_select = (\<lambda>_ _. None), ce_url_path = (\<lambda>_. None), ce_mime_guess = (\<lambda>_. None),
     ce_to_string = (\<lambda>_. ''''), ce_json = JString, ce_b58 = map (\<lambda>b. CHR ''x'')\<rparr>"

text \<open>
  C39. An NFT whose mint was indexed and whose metadata was downloaded is served as it was minted:
  with the content of the downloaded document, the authority, owner and delegate named in the
  instruction's accounts, the royalties, creators and verified collection of its metadata, and as
  compressed. The description of every other asset is the one from before.
\<close>

theorem minted_asset_served:
  assumes "tables_ok db" and "handle_mint H de ix data sl logs keys db = Inr (tasks, db')"
    and "get_bubblegum_event (de_capture de) (de_leaf_schema de) logs = Inr leaf_event"
    and "de_mint_v1 de (drop 8 data) = Some md" and "cx_accounts ix = Some accounts"
    and "fetch (ma_uri md) = Some body" and "v1_content_from_json E (ce_json E body) = Inr content"
  defines "asset_id \<equiv> ls_id (le_schema leaf_event)" and "account \<equiv> \<lambda>k. keys (unat (accounts ! k))"
    and "final \<equiv> run_tasks fetch tasks db'"
  shows "get_asset E final asset_id =
      Inr \<lparr>as_interface = NftOneZero, as_rpc_id = ce_b58 E asset_id, as_content = content,
        as_authorities = [\<lparr>ra_address = ce_b58 E (account 0), ra_scopes = [FullScope]\<rparr>],
        as_compression = \<lparr>co_eligible = False, co_compressed = True\<rparr>,
        as_grouping = (case ma_collection md of
            Some c \<Rightarrow> if co_verified c then [\<lparr>rg_group_key = ''collection'',
              rg_group_value = de_pubkey_string de (co_key c)\<rparr>] else []
          | None \<Rightarrow> []),
        as_royalty = \<lparr>ro_royalty_model = CreatorsModel, ro_target = None,
          ro_amount = uint (ma_seller_fee_basis_points md), ro_locked = False\<rparr>,
        as_creators = map (\<lambda>c. \<lparr>rc_address = ce_b58 E (cr_address c), rc_share = uint (cr_share c),
          rc_verified = cr_verified c\<rparr>) (ma_creators md),
        as_ownership = \<lparr>ow_frozen = False, ow_delegated = (account 4 \<noteq> account 5),
          ow_delegate = (if account 4 = account 5 then None else Some (ce_b58 E (account 5))),
          ow_ownership_model = SingleOwnership, ow_owner = ce_b58 E (account 4)\<rparr>\<rparr> \<and>
    (\<forall>other. other \<noteq> asset_id \<longrightarrow> get_asset E final other = get_asset E db other)"
proof -
  obtain evs n where mint: "index_mint H de evs (le_schema leaf_event) md (account 0) (account 4) (account 5)
      (account 6) sl db = Inr (n, db')" and tasks: "tasks = [(n, ma_uri md)]"
    using assms(2-5) by (auto simp: handle_mint_def account_key_def account_def result_simps)
  let ?cs = "map (\<lambda>c. \<lparr>ac_asset_id = asset_id, ac_creator = cr_address c, ac_share = uint (cr_share c),
    ac_verified = cr_verified c\<rparr>) (ma_creators md)" and ?au = "\<lparr>aa_asset_id = asset_id, aa_authority = account 0\<rparr>"
  obtain asset dat where found: "find_asset_and_data final asset_id = Inr (asset, dat)"
    and dat: "ad_schema_version dat = 1" "ad_metadata dat = body" and ok: "tables_ok final"
    and new: "in_assets final = in_assets db @ [asset]" "set (in_asset_data db) \<subseteq> set (in_asset_data final)"
      "in_creators final = in_creators db @ ?cs" "in_authorities final = in_authorities db @ [?au]"
      "in_groupings final = in_groupings db @ minted_groupings de md asset_id"
    and asset: "asset = minted_row H (le_schema leaf_event) md (account 4) (account 5) (account 6) n"
    unfolding asset_id_def final_def tasks by (rule minted_then_downloaded [where fetch = fetch, OF mint assms(1,6)])
  note none = no_rows_of_missing [OF assms(1) index_mint_fresh [OF mint], folded asset_id_def]
  have row: "asset = minted_row H (le_schema leaf_event) md (account 4) (account 5) (account 6) n" "as_id asset = asset_id"
    using asset by (simp_all add: minted_row_def asset_id_def)
  have "get_asset E final other = get_asset E db other" if "other \<noteq> asset_id" for other
    by (rule get_asset_frame [OF assms(1) ok that new(1) row(2) _ new(3) _ new(4) _ new(5)])
      (use new(2) minted_groupings_ids [of de md asset_id] in auto)
  then show ?thesis
    using found
    by (simp add: get_asset_def get_content_def dat assms(7) asset minted_row_def asset_id_def [symmetric] new none
        to_authority_def to_creators_def to_grouping_def royalty_model_from_def ownership_model_from_def
        minted_groupings_def comp_def split: option.splits)
qed

theorem minted_asset_served_witness:
  "\<exists>tasks db'. handle_mint toy_hash toy_decoders toy_mint [] 5 [''event''] (\<lambda>k. [of_nat k]) (ig_db toy_ingester) =
      Inr (tasks, db') \<and>
    map_option ow_owner (case get_asset toy_content_env (run_tasks (\<lambda>_. Some ''doc'') tasks db') (ls_id toy_nft_leaf) of
      Inr a \<Rightarrow> Some (as_ownership a) | Inl _ \<Rightarrow> None) = Some ''x''"
proof -
  let ?db = "ig_db toy_ingester"
  have ok: "tables_ok ?db"
    by (simp add: toy_ingester_def tables_ok_def keys_ok_def referred_ids_def)
  have ev: "get_bubblegum_event (de_capture toy_decoders) (de_leaf_schema toy_decoders) [''event''] =
      Inr (leaf_to_event toy_hash toy_nft_leaf)"
    by (simp add: get_bubblegum_event_def filter_events_from_logs_def List.map_filter_def toy_decoders_def)
  have evs: "get_gummy_roll_events (de_capture toy_decoders) (de_change_log toy_decoders) [''event''] = Inr []"
    by (simp add: get_gummy_roll_events_def filter_events_from_logs_def List.map_filter_def toy_decoders_def)
  have md: "de_mint_v1 toy_decoders (drop 8 []) = Some toy_nft"
    by (simp add: toy_decoders_def)
  have accs: "cx_accounts toy_mint = Some [0, 0, 0, 0, 1, 1, 2]"
    by (simp add: toy_mint_def)
  have content: "v1_content_from_json toy_content_env (ce_json toy_content_env ''doc'') =
      Inr \<lparr>ct_schema = ''https://schema.metaplex.com/nft1.0.json'', ct_files = Some [], ct_metadata = None,
        ct_links = None\<rparr>"
    by (simp add: v1_content_from_json_def toy_content_env_def safe_select_def track_top_level_file_def)
  obtain tasks db' where mint: "handle_mint toy_hash toy_decoders toy_mint [] 5 [''event''] (\<lambda>k. [of_nat k]) ?db =
      Inr (tasks, db')"
    by (simp add: handle_mint_def evs ev md [simplified] accs account_key_def index_mint_def insert_asset_data_def insert_asset_def
        toy_nft_def toy_ingester_def Let_def)
  have doc: "(\<lambda>_. Some ''doc'') (ma_uri toy_nft) = Some ''doc''" by simp
  from minted_asset_served [OF ok mint ev md accs doc content] show ?thesis
    using mint by (auto simp: leaf_to_event_def toy_content_env_def)
qed

end
