(* ===== verification/Plerkle.thy ===== *)
theory Plerkle
  imports Indexer_Stream Asset_Service
begin

text \<open>
  \<open>plerkle/src\<close>: the plugin of the validator that selects transactions, accounts, slots and blocks and
  sends them to the message queue. Flatbuffers is third-party code: a message is the content that its
  reader gets back, for transactions the record \<open>transaction_info\<close> of the indexer. Reading the
  configuration file, JSON, base58 and the environment are parameters. The plugin hands each message
  to a task of its own, so the queue gets the messages of \<open>pk_sent\<close> in some order.
\<close>

text \<open>The errors of the plugin interface that the plugin returns.\<close>

datatype GeyserPluginError = ConfigFileReadError string | ConfigFileOpenError | GeneralPluginConfigError string

section \<open>Selectors (transaction_selector.rs, accounts_selector.rs)\<close>

record transaction_selector =
  ts_mentioned_addresses :: "bytes set"
  ts_select_all_transactions :: bool
  ts_select_all_vote_transactions :: bool

definition transaction_selector_default :: transaction_selector where
  "transaction_selector_default = \<lparr>ts_mentioned_addresses = {}, ts_select_all_transactions = False,
     ts_select_all_vote_transactions = False\<rparr>"

text \<open>An address that is not base58 panics.\<close>

fun decode_all :: "(string \<Rightarrow> bytes option) \<Rightarrow> string list \<Rightarrow> ('e, bytes list) result" where
  "decode_all b58 [] = Inr []"
| "decode_all b58 (key # keys) =
     and_then (ok_or (b58 key) Panic) (\<lambda>b. and_then (decode_all b58 keys) (\<lambda>bs. Inr (b # bs)))"

definition transaction_selector_new ::
  "(string \<Rightarrow> bytes option) \<Rightarrow> string list \<Rightarrow> ('e, transaction_selector) result" where
  "transaction_selector_new b58 mentioned_addresses =
     (let select_all_transactions = list_ex (\<lambda>key. key = ''*'' \<or> key = ''all'') mentioned_addresses
      in if select_all_transactions
         then Inr \<lparr>ts_mentioned_addresses = {}, ts_select_all_transactions = select_all_transactions,
           ts_select_all_vote_transactions = True\<rparr>
         else if list_ex (\<lambda>key. key = ''all_votes'') mentioned_addresses
         then Inr \<lparr>ts_mentioned_addresses = {}, ts_select_all_transactions = select_all_transactions,
           ts_select_all_vote_transactions = True\<rparr>
         else and_then (decode_all b58 mentioned_addresses) (\<lambda>addresses.
           Inr \<lparr>ts_mentioned_addresses = set addresses, ts_select_all_transactions = False,
             ts_select_all_vote_transactions = False\<rparr>))"

definition transaction_selector_enabled :: "transaction_selector \<Rightarrow> bool" where
  "transaction_selector_enabled s \<longleftrightarrow>
     ts_select_all_transactions s \<or> ts_select_all_vote_transactions s \<or> ts_mentioned_addresses s \<noteq> {}"

definition is_transaction_selected :: "transaction_selector \<Rightarrow> bool \<Rightarrow> pubkey list \<Rightarrow> bool" where
  "is_transaction_selected s is_vote mentioned_addresses =
     (if \<not> transaction_selector_enabled s then False
      else if ts_select_all_transactions s \<or> ts_select_all_vote_transactions s \<and> is_vote then True
      else list_ex (\<lambda>address. address \<in> ts_mentioned_addresses s) mentioned_addresses)"

record accounts_selector =
  sel_accounts :: "bytes set"
  sel_owners :: "bytes set"
  sel_all_accounts :: bool

definition accounts_selector_default :: accounts_selector where
  "accounts_selector_default = \<lparr>sel_accounts = {}, sel_owners = {}, sel_all_accounts = True\<rparr>"

definition accounts_selector_new ::
  "(string \<Rightarrow> bytes option) \<Rightarrow> string list \<Rightarrow> string list \<Rightarrow> ('e, accounts_selector) result" where
  "accounts_selector_new b58 accounts owners =
     (let select_all_accounts = list_ex (\<lambda>key. key = ''*'') accounts
      in if select_all_accounts
         then Inr \<lparr>sel_accounts = {}, sel_owners = {}, sel_all_accounts = select_all_accounts\<rparr>
         else and_then (decode_all b58 accounts) (\<lambda>accounts.
              and_then (decode_all b58 owners) (\<lambda>owners.
              Inr \<lparr>sel_accounts = set accounts, sel_owners = set owners,
                sel_all_accounts = select_all_accounts\<rparr>)))"

definition is_account_selected :: "accounts_selector \<Rightarrow> bytes \<Rightarrow> bytes \<Rightarrow> bool" where
  "is_account_selected s account owner \<longleftrightarrow>
     sel_all_accounts s \<or> account \<in> sel_accounts s \<or> owner \<in> sel_owners s"

definition accounts_selector_enabled :: "accounts_selector \<Rightarrow> bool" where
  "accounts_selector_enabled s \<longleftrightarrow> sel_all_accounts s \<or> sel_accounts s \<noteq> {} \<or> sel_owners s \<noteq> {}"

section \<open>Configuration (geyser_plugin_nft.rs)\<close>

text \<open>Reading a field of a JSON value that is not an object, or has no such field, gives null.\<close>

definition json_field :: "json \<Rightarrow> string \<Rightarrow> json" where
  "json_field v key =
     (case v of
        JObject kvs \<Rightarrow> (case map_of kvs key of Some x \<Rightarrow> x | None \<Rightarrow> JNull)
      | _ \<Rightarrow> JNull)"

fun strings_of :: "json list \<Rightarrow> ('e, string list) result" where
  "strings_of [] = Inr []"
| "strings_of (v # vs) =
     and_then (ok_or (as_str v) Panic) (\<lambda>s. and_then (strings_of vs) (\<lambda>ss. Inr (s # ss)))"

definition string_array :: "json \<Rightarrow> ('e, string list) result" where
  "string_array v = (case v of JArray vs \<Rightarrow> strings_of vs | _ \<Rightarrow> Inr [])"

definition create_accounts_selector_from_config ::
  "(string \<Rightarrow> bytes option) \<Rightarrow> json \<Rightarrow> ('e, accounts_selector) result" where
  "create_accounts_selector_from_config b58 config =
     (let v = json_field config ''accounts_selector''
      in if v = JNull then Inr accounts_selector_default
         else and_then (string_array (json_field v ''accounts'')) (\<lambda>accounts.
              and_then (string_array (json_field v ''owners'')) (\<lambda>owners.
              accounts_selector_new b58 accounts owners)))"

definition create_transaction_selector_from_config ::
  "(string \<Rightarrow> bytes option) \<Rightarrow> json \<Rightarrow> ('e, transaction_selector) result" where
  "create_transaction_selector_from_config b58 config =
     (let v = json_field config ''transaction_selector''
      in if v = JNull then Inr transaction_selector_default
         else and_then (string_array (json_field v ''mentions'')) (\<lambda>accounts.
              transaction_selector_new b58 accounts))"

section \<open>What the validator passes in, and the messages (serializer.rs)\<close>

record replica_instruction =
  ri_program_id_index :: u8
  ri_accounts :: "u8 list"
  ri_data :: bytes

record replica_inner_instructions =
  rn_index :: u8
  rn_instructions :: "replica_instruction list"

record replica_transaction =
  rt_is_vote :: bool
  rt_status_is_err :: bool
  rt_account_keys :: "pubkey list"
  rt_instructions :: "replica_instruction list"
  rt_inner_instructions :: "replica_inner_instructions list option"
  rt_log_messages :: "string list option"

record replica_account =
  rp_pubkey :: bytes
  rp_lamports :: u64
  rp_owner :: bytes
  rp_executable :: bool
  rp_rent_epoch :: u64
  rp_data :: bytes
  rp_write_version :: u64

datatype slot_status = ConfirmedStatus | ProcessedStatus | RootedStatus

datatype reward_type = FeeReward | RentReward | StakingReward | VotingReward

record reward =
  rw_pubkey :: string
  rw_lamports :: int
  rw_post_balance :: u64
  rw_reward_type :: "reward_type option"
  rw_commission :: "u8 option"

record replica_block =
  rb_slot :: u64
  rb_blockhash :: string
  rb_rewards :: "reward list"
  rb_block_time :: "int option"
  rb_block_height :: "u64 option"

definition serialize_instruction :: "replica_instruction \<Rightarrow> compiled_instruction" where
  "serialize_instruction ri =
     \<lparr>cx_program_id_index = unat (ri_program_id_index ri), cx_data = Some (ri_data ri),
      cx_accounts = Some (ri_accounts ri)\<rparr>"

definition serialize_inner :: "replica_inner_instructions \<Rightarrow> inner_instructions" where
  "serialize_inner rn =
     \<lparr>ii_index = rn_index rn, ii_instructions = Some (map serialize_instruction (rn_instructions rn))\<rparr>"

definition serialize_transaction :: "replica_transaction \<Rightarrow> u64 \<Rightarrow> transaction_info" where
  "serialize_transaction rt sl =
     (let account_keys = (if length (rt_account_keys rt) > 0 then Some ((!) (rt_account_keys rt)) else None);
          outer = (if length (rt_instructions rt) > 0 then Some (map serialize_instruction (rt_instructions rt))
            else None)
      in \<lparr>ti_account_keys = account_keys, ti_outer_instructions = outer,
          ti_inner_instructions = map_option (map serialize_inner) (rt_inner_instructions rt),
          ti_log_messages = rt_log_messages rt, ti_slot = sl\<rparr>)"

text \<open>The other messages: an account with its slot, a slot with its parent, a block.\<close>

datatype plerkle_message =
    TransactionMessage transaction_info
  | AccountMessage replica_account u64 bool
  | SlotMessage u64 "u64 option" slot_status
  | BlockMessage u64 string "reward list option" "int option" "u64 option"

definition serialize_account :: "replica_account \<Rightarrow> u64 \<Rightarrow> bool \<Rightarrow> plerkle_message" where
  "serialize_account account sl is_startup = AccountMessage account sl is_startup"

definition serialize_slot_status :: "u64 \<Rightarrow> u64 option \<Rightarrow> slot_status \<Rightarrow> plerkle_message" where
  "serialize_slot_status sl parent status = SlotMessage sl parent status"

definition serialize_block :: "replica_block \<Rightarrow> plerkle_message" where
  "serialize_block b =
     (let rewards = (if length (rb_rewards b) > 0 then Some (rb_rewards b) else None)
      in BlockMessage (rb_slot b) (rb_blockhash b) rewards (rb_block_time b) (rb_block_height b))"

section \<open>The plugin (geyser_plugin_nft.rs)\<close>

datatype stream_key = ACCOUNT_STREAM | SLOT_STREAM | TRANSACTION_STREAM | BLOCK_STREAM

record plerkle =
  pk_runtime :: bool
  pk_accounts_selector :: "accounts_selector option"
  pk_transaction_selector :: "transaction_selector option"
  pk_sender :: bool
  pk_sent :: "(stream_key \<times> plerkle_message) list"

definition plerkle_new :: plerkle where
  "plerkle_new = \<lparr>pk_runtime = False, pk_accounts_selector = None, pk_transaction_selector = None,
     pk_sender = False, pk_sent = []\<rparr>"

text \<open>\<open>contents\<close> is the file's text, \<open>parse\<close> reads JSON, \<open>runtime\<close> and \<open>env\<close> say whether the runtime and the messenger's configuration were obtained.\<close>

definition on_load ::
  "(string \<Rightarrow> bytes option) \<Rightarrow> string option \<Rightarrow> (string \<Rightarrow> json option) \<Rightarrow> bool \<Rightarrow> bool \<Rightarrow> plerkle \<Rightarrow>
   (GeyserPluginError, unit) result \<times> plerkle" where
  "on_load b58 contents parse runtime env P =
     (case contents of
        None \<Rightarrow> (Inl (Err ConfigFileOpenError), P)
      | Some text' \<Rightarrow>
          (case parse text' of
             None \<Rightarrow> (Inl (Err (ConfigFileReadError ''Could not read config file JSON'')), P)
           | Some config \<Rightarrow>
               (case and_then (create_accounts_selector_from_config b58 config) (\<lambda>a.
                     and_then (create_transaction_selector_from_config b58 config) (\<lambda>t. Inr (a, t))) of
                  Inl e \<Rightarrow> (Inl e, P)
                | Inr (a, t) \<Rightarrow>
                    let P1 = P\<lparr>pk_accounts_selector := Some a, pk_transaction_selector := Some t\<rparr>
                    in if \<not> runtime then (Inl (Err (ConfigFileReadError ''Could not create tokio runtime'')), P1)
                       else let P2 = P1\<lparr>pk_sender := True\<rparr>
                            in if \<not> env then (Inl (Err (ConfigFileReadError ''Could not read messenger config'')), P2)
                               else (Inr (), P2\<lparr>pk_runtime := True\<rparr>))))"

definition get_runtime :: "plerkle \<Rightarrow> (GeyserPluginError, unit) result" where
  "get_runtime P = ensure (pk_runtime P) (Err (GeneralPluginConfigError ''No runtime contained in struct''))"

definition get_sender_clone :: "plerkle \<Rightarrow> (GeyserPluginError, unit) result" where
  "get_sender_clone P =
     ensure (pk_sender P) (Err (GeneralPluginConfigError ''No Sender channel contained in struct''))"

definition send_message ::
  "stream_key \<Rightarrow> plerkle_message \<Rightarrow> plerkle \<Rightarrow> (GeyserPluginError, plerkle) result" where
  "send_message stream msg P =
     and_then (get_runtime P) (\<lambda>_. and_then (get_sender_clone P) (\<lambda>_.
     Inr (P\<lparr>pk_sent := pk_sent P @ [(stream, msg)]\<rparr>)))"

definition update_account :: "replica_account \<Rightarrow> u64 \<Rightarrow> bool \<Rightarrow> plerkle \<Rightarrow> (GeyserPluginError, plerkle) result" where
  "update_account account sl is_startup P =
     (case pk_accounts_selector P of
        None \<Rightarrow> Inr P
      | Some s \<Rightarrow>
          if \<not> is_account_selected s (rp_pubkey account) (rp_owner account) then Inr P
          else send_message ACCOUNT_STREAM (serialize_account account sl is_startup) P)"

definition update_slot_status :: "u64 \<Rightarrow> u64 option \<Rightarrow> slot_status \<Rightarrow> plerkle \<Rightarrow> (GeyserPluginError, plerkle) result" where
  "update_slot_status sl parent status P = send_message SLOT_STREAM (serialize_slot_status sl parent status) P"

definition notify_transaction :: "replica_transaction \<Rightarrow> u64 \<Rightarrow> plerkle \<Rightarrow> (GeyserPluginError, plerkle) result" where
  "notify_transaction rt sl P =
     (if rt_is_vote rt \<or> rt_status_is_err rt then Inr P
      else case pk_transaction_selector P of
        None \<Rightarrow> Inr P
      | Some s \<Rightarrow>
          if \<not> is_transaction_selected s (rt_is_vote rt) (rt_account_keys rt) then Inr P
          else send_message TRANSACTION_STREAM (TransactionMessage (serialize_transaction rt sl)) P)"

definition notify_block_metadata :: "replica_block \<Rightarrow> plerkle \<Rightarrow> (GeyserPluginError, plerkle) result" where
  "notify_block_metadata b P = send_message BLOCK_STREAM (serialize_block b) P"

definition account_data_notifications_enabled :: "plerkle \<Rightarrow> bool" where
  "account_data_notifications_enabled P \<longleftrightarrow>
     (case pk_accounts_selector P of None \<Rightarrow> False | Some s \<Rightarrow> accounts_selector_enabled s)"

definition transaction_notifications_enabled :: "plerkle \<Rightarrow> bool" where
  "transaction_notifications_enabled P \<longleftrightarrow>
     (case pk_transaction_selector P of None \<Rightarrow> False | Some s \<Rightarrow> transaction_selector_enabled s)"

end
