(* ===== verification/Plerkle_Props.thy ===== *)
theory Plerkle_Props
  imports Plerkle Indexer_Stream_Props
begin

text \<open>
  The properties of the validator's plugin: which transactions it sends, and that the messages it
  sends are what the indexer's stream expects.
\<close>










end
