(* ===== verification/Spec2Isabelle.thy ===== *)
theory Spec2Isabelle
  imports Gumball_Setup_Props Sugar_Props Reference_Props Accumulator_Props Merkle_Wallet
    Ecc_Accumulator Asset_Props Plerkle_Props
begin

text \<open>
  A verification library for the compressed NFT programs of this repository and for the services
  around them.

  \<^bold>\<open>The program.\<close> An NFT is a leaf of a Merkle tree of which the chain stores only a small part.
  \<open>lib/concurrent-merkle-tree\<close> keeps the root, the rightmost path and the last few changes of a tree,
  so that a proof against a slightly older root can still be used. \<open>contracts/programs/gummyroll\<close> keeps
  such a tree in an account, with two authorities and a cache of its top levels, and emits a change log
  for every write. \<open>contracts/programs/bubblegum\<close> gives the leaves their meaning: mint, transfer,
  delegate, burn, redeem and decompress an NFT, calling Gummyroll. Two programs call Bubblegum:
  \<open>gumball-machine\<close> sells random NFTs, \<open>sugar-shack\<close> trades them. Off chain, \<open>plerkle\<close> is the plugin of
  the validator that sends the selected transactions to a queue, \<open>nft_ingester\<close> reads them from it and
  keeps tables of tree nodes and assets, and \<open>nft_api\<close>, \<open>das_api\<close> and \<open>digital_asset_types\<close> answer
  queries for proofs and assets from the tables. \<open>lib/merkle-tree-reference\<close> is the complete tree that
  clients and tests keep.

  \<^bold>\<open>Conventions.\<close> A Rust function that can fail returns \<open>('e, 'a) result\<close>, a sum of \<open>'e failure\<close>
  (\<open>Err e\<close>, \<open>Panic\<close>, or \<open>Diverge\<close> for a loop cut off by its bound) and the value; a function that mutates
  its argument returns the new one. Integers keep their width as words; arithmetic on chain panics on
  overflow, as the manifests of the programs ask for. The hash function is a parameter \<open>H\<close>, and no
  collision freedom is assumed: where a statement needs it, an exception names the concrete event that
  two different inputs of the code have one hash (\<open>op_collides\<close>, \<open>replay_collides\<close>, \<open>bg_collides\<close>); only
  that no hash is the all-zero node is a hypothesis of some (\<open>hash_nonzero\<close>, \<open>hash_ok\<close>).
  Third-party code is a parameter too, with what is used of it as a named hypothesis: program addresses
  (\<open>pda\<close>, \<open>pda_ok\<close>), serialization, payments (\<open>pay\<close>), the SafeMath library (\<open>safe_math_ok\<close>), base58, base64,
  flatbuffers, JSON paths. The dimensions of a tree are arguments; \<open>dims\<close> are those that \<open>check_bounds\<close>
  accepts.

  \<^bold>\<open>On chain.\<close>
  \<^item> \<open>Prelude\<close>: results, checked and saturating arithmetic, \<open>leading_zeros\<close> and \<open>trailing_zeros\<close>, byte
    encodings. \<open>Merkle_Tree\<close>: the specification, a hash tree over all leaves (\<open>node_at\<close>, \<open>tree_root\<close>,
    \<open>proof_at\<close>).
  \<^item> \<open>Cmt_Utils\<close>, \<open>Cmt_State\<close>, \<open>Merkle_Roll\<close>: \<open>utils.rs\<close>, \<open>state.rs\<close> and \<open>merkle_roll.rs\<close> of the concurrent
    tree, function by function. \<open>Merkle_Roll_Inv\<close> relates a state to the history of trees it remembers
    (\<open>roll_inv\<close>); \<open>Merkle_Roll_Steps\<close>, \<open>Merkle_Roll_Proofs\<close> and \<open>Merkle_Append\<close> show what replaying,
    checking, writing and appending do; \<open>Merkle_Roll_Laws\<close> states the laws of the public operations.
    The locale \<open>leaf_store\<close> (\<open>Leaf_Store\<close>) is the contract with client programs; the concurrent tree and
    Gummyroll are both interpretations of it. \<open>Merkle_Run\<close> and \<open>Merkle_Roll_Props\<close>: runs of operations,
    the abstract specification on the leaves, and the properties.
  \<^item> \<open>Gummyroll\<close>: \<open>state/mod.rs\<close> and \<open>lib.rs\<close>, with the canopy; \<open>Canopy\<close>, \<open>Gummyroll_Inv\<close>, \<open>Gummyroll_Run\<close>,
    \<open>Gummyroll_Events\<close>: the canopy caches the current tree, every instruction keeps the invariant, and
    each event describes the path it wrote; \<open>Gummyroll_Props\<close>: the properties.
  \<^item> \<open>Leaf_Schema\<close>, \<open>Bubblegum\<close>: \<open>state\<close>, \<open>utils.rs\<close> and \<open>lib.rs\<close>. \<open>Bubblegum_Inv\<close>, \<open>Bubblegum_Run\<close>,
    \<open>Bubblegum_Reach\<close>: the accounts represent a set of assets, each instruction is a step of the
    specification \<open>bg_spec\<close> on it, also with several trees; \<open>Bubblegum_Props\<close>: the properties.
  \<^item> \<open>Gumball_State\<close>, \<open>Gumball_Machine\<close>: the gumball machine. \<open>Gumball_Pool\<close>, \<open>Gumball_Run\<close>, \<open>Gumball_Lines\<close>:
    the pool of items still for sale as a multiset and the bytes of its config lines; \<open>Gumball_Props\<close>,
    \<open>Gumball_Setup_Props\<close>: the properties.
  \<^item> \<open>Sugar_Shack\<close>, \<open>Sugar_Run\<close>, \<open>Sugar_Props\<close>: the marketplace, what a purchase pays to whom, the properties.

  \<^bold>\<open>Off chain.\<close>
  \<^item> \<open>Merkle_Reference\<close>: the reference tree on an explicit heap of nodes; \<open>Reference_Build\<close>, \<open>Reference_Tree\<close>,
    \<open>Reference_Mirror\<close>, \<open>Reference_Props\<close>: it is the specification's tree, and a client that keeps it
    beside the concurrent tree always agrees with it (locales \<open>proof_source\<close> and \<open>mirrored_store\<close>).
  \<^item> \<open>Accumulator\<close>: \<open>MerkleAccumulator\<close> of \<open>archive/merkle-accumulator/src/main.rs\<close>, the prototype of the
    concurrent tree. \<open>Accumulator_Inv\<close> reads its state as a \<open>merkle_roll\<close>, so that the invariant and the
    lemmas of the concurrent tree apply; \<open>Accumulator_Steps\<close>, \<open>Accumulator_Props\<close>: what its operations do,
    where it agrees with the concurrent tree, and the write it loses. \<open>Merkle_Wallet\<close> and
    \<open>Ecc_Accumulator\<close>: the other prototypes under \<open>archive\<close>, a wallet that can hold one leaf only and an
    accumulator that removes what was never added.
  \<^item> \<open>Plerkle\<close>, \<open>Plerkle_Props\<close>: the plugin's selectors, configuration, callbacks and messages.
  \<^item> \<open>Indexer_Stream\<close>: the loop of \<open>nft_ingester/src/main.rs\<close> with the parsing of log lines;
    \<open>Indexer_Stream_Run\<close>: on logs as the runtime writes them every instruction reaches its handler.
    \<open>Indexer_Store\<close>, \<open>Indexer_Assets\<close>: the handlers and their tables. \<open>Indexer_Proof\<close>: the queries for
    proofs. \<open>Indexer_Table\<close>, \<open>Indexer_Log\<close>, \<open>Indexer_Queries\<close>, \<open>Indexer_Tree\<close>, \<open>Indexer_Run\<close>: the table of
    nodes as a map, its content after change logs arrived in any order, what the queries return from it;
    \<open>Node_Service\<close>: the other requests of \<open>nft_api\<close>, for roots, trees and assets;
    \<open>Indexer_Props\<close>, \<open>Indexer_Stream_Props\<close>: the properties, which join the indexer to Gummyroll.
  \<^item> \<open>Asset_Service\<close>, \<open>Asset_Tables\<close>, \<open>Asset_Props\<close>: the description of an asset, the well-formedness of the
    tables, and what the service says of a minted NFT.

  \<^bold>\<open>What the properties show.\<close> The stored root is the root of the leaves that the emitted events
  describe, in every reachable state; a proof against any remembered root works exactly if its leaf is
  unchanged; a successful write replaces exactly the leaf it claims; no update is lost; nothing panics
  on valid input; the specifications of Gummyroll and Bubblegum are refined by the code, with owners'
  consent, unique assets, and vouchers that come and go with the leaf; the gumball machine sells each
  item once and is paid for it; the marketplace pays exactly the price and sells only what is listed;
  the reference tree and the indexer give the proofs that the programs accept. Some show defects: among
  them sold items that return to the pool, a log line of any program that stops the indexer, and a
  write that the archived prototype of the tree loses.

  \<^bold>\<open>Loops.\<close> \<open>fast_forward_loop\<close> carries a bound, the buffer size: it starts inside the buffer and stops at
  the active slot, so it makes at most that many steps, and the properties show a result, never
  \<open>Diverge\<close>; so does \<open>acc_replay\<close> of the prototype. The loops of the reference tree follow pointers and are \<open>partial_function (option)\<close>; on every
  tree that was built they are shown to return. The batch loops of the gumball machine and of the
  indexer recur over a count or a list.

  \<^bold>\<open>Assumptions on the services.\<close> SQL statements succeed, or fail as a whole transaction; the tables are
  lists of rows in insertion order. Log lines are ASCII. Transactions reach the ingester in any order
  and possibly repeatedly. Background tasks run one after the other.

  \<^bold>\<open>Not modelled.\<close> Anchor's account (de)serialization and the account constraints it generates, other
  than those the handlers depend on; the calls of the token programs beyond their effect; log output;
  the code generated by flatbuffers (\<open>plerkle_serialization\<close>) and the Redis client (\<open>messenger\<close>); the ORM's
  declarations; the HTTP and RPC servers; the TypeScript clients and user interfaces.
\<close>

end
